(* ===== verification/Prelude.thy ===== *)
theory Prelude
  imports Main "HOL-Library.Word"
begin

text \<open>
  Shared vocabulary of the development: the machine integers of the C++ code as words, the
  faults an operation can end in and the result type that carries them, and the generic
  lemmas on results, lists and words that the component theories use.
\<close>

unbundle bit_operations_syntax

section \<open>Machine integers\<close>

text \<open>
  \<open>uint8_t\<close> to \<open>uint64_t\<close> are words of their width; \<open>int\<close> and \<open>int32_t\<close> values are the
  same words read with \<open>sint\<close> (two's complement), \<open>int8_t\<close> likewise at width 8.
\<close>

type_synonym u8 = "8 word"
type_synonym u16 = "16 word"
type_synonym u32 = "32 word"
type_synonym u64 = "64 word"
type_synonym i8 = "8 word"
type_synonym i32 = "32 word"
type_synonym bytes = "8 word list"

section \<open>Faults and results\<close>

text \<open>
  What an operation of the code can end in other than returning: a read or write outside an
  allocated block, a dereferenced null pointer, \<open>top()\<close> of an empty \<open>std::stack\<close>, a call of
  an empty \<open>std::function\<close>, a standard-library exception for a position out of range, an
  associative container used with a comparison that is not a strict weak order on its keys
  (undefined behaviour), an uncaught exception of a third-party library, a loop that never
  ends; a use of an object after it was given back to its pool, a second release of it, and
  a read of a field that was never assigned.
\<close>

datatype fault =
    OutOfBounds
  | NullPointer
  | UseAfterFree
  | DoubleFree
  | Uninitialized
  | EmptyStack
  | BadFunctionCall
  | OutOfRange
  | InvalidOrder
  | LibraryException
  | Diverges

type_synonym 'a res = "fault + 'a"

definition rbind :: "'e + 'a \<Rightarrow> ('a \<Rightarrow> 'e + 'b) \<Rightarrow> 'e + 'b" where
  "rbind m f = (case m of Inl e \<Rightarrow> Inl e | Inr x \<Rightarrow> f x)"

named_theorems res_iffs

lemma rbind_Inl [simp]: "rbind (Inl e) f = Inl e"
  by (simp add: rbind_def)

lemma rbind_Inr [simp]: "rbind (Inr x) f = f x"
  by (simp add: rbind_def)

lemma rbind_eq_Inr [res_iffs]: "rbind m f = Inr y \<longleftrightarrow> (\<exists>x. m = Inr x \<and> f x = Inr y)"
  by (cases m) simp_all

lemma rbind_eq_Inl [res_iffs]:
  "rbind m f = Inl e \<longleftrightarrow> m = Inl e \<or> (\<exists>x. m = Inr x \<and> f x = Inl e)"
  by (cases m) simp_all

lemma rbind_cong [fundef_cong]:
  "m = m' \<Longrightarrow> (\<And>x. m' = Inr x \<Longrightarrow> f x = f' x) \<Longrightarrow> rbind m f = rbind m' f'"
  by (cases m') simp_all

lemma rbind_return [simp]: "rbind m Inr = m" "rbind m (\<lambda>x. Inr x) = m"
  by (cases m; simp)+

lemma rbind_assoc: "rbind (rbind m f) g = rbind m (\<lambda>x. rbind (f x) g)"
  by (cases m) simp_all

section \<open>Slices and patches of lists\<close>

definition slice :: "nat \<Rightarrow> nat \<Rightarrow> 'a list \<Rightarrow> 'a list" where
  "slice i n xs = take n (drop i xs)"

definition patch :: "nat \<Rightarrow> 'a list \<Rightarrow> 'a list \<Rightarrow> 'a list" where
  "patch i ys xs = take i xs @ ys @ drop (i + length ys) xs"

lemma length_slice [simp]: "i + n \<le> length xs \<Longrightarrow> length (slice i n xs) = n"
  by (simp add: slice_def)

lemma nth_slice [simp]: "i + n \<le> length xs \<Longrightarrow> k < n \<Longrightarrow> slice i n xs ! k = xs ! (i + k)"
  by (simp add: slice_def)

lemma length_patch [simp]: "i + length ys \<le> length xs \<Longrightarrow> length (patch i ys xs) = length xs"
  by (simp add: patch_def)

lemma nth_patch:
  assumes "i + length ys \<le> length xs" "k < length xs"
  shows "patch i ys xs ! k = (if i \<le> k \<and> k < i + length ys then ys ! (k - i) else xs ! k)"
  using assms by (auto simp: patch_def nth_append min_def)

lemma slice_all [simp]: "slice 0 (length xs) xs = xs"
  by (simp add: slice_def)

lemma slice_slice:
  "i + n \<le> m \<Longrightarrow> k + m \<le> length xs \<Longrightarrow> slice i n (slice k m xs) = slice (k + i) n xs"
  by (rule nth_equalityI) (auto simp: add.assoc)

section \<open>Words read as integers\<close>

lemma uint_of_int_small [simp]:
  "0 \<le> k \<Longrightarrow> k < 2 ^ LENGTH('a) \<Longrightarrow> uint (word_of_int k :: 'a::len word) = k"
  by (simp add: uint_word_of_int)

lemma sint_eq_uint32: "uint w < 2147483648 \<Longrightarrow> sint w = uint w" for w :: u32
  using order_trans[of "- 2147483648" 0 "uint w"]
  by (simp add: sint_uint signed_take_bit_int_eq_self)

lemma sint_of_int32:
  "- 2147483648 \<le> k \<Longrightarrow> k < 2147483648 \<Longrightarrow> sint (word_of_int k :: u32) = k"
  by (simp add: sint_sbintrunc' signed_take_bit_int_eq_self)

lemma sint_bounds32: "- 2147483648 \<le> sint w" "sint w < 2147483648" for w :: u32
  using sint_ge[of w] sint_lt[of w] by simp_all

lemma sint_minus32: "sint w \<noteq> - 2147483648 \<Longrightarrow> sint (- w) = - sint w" for w :: u32
  using sint_bounds32[of w] by (simp add: sint_word_minus signed_take_bit_int_eq_self)

lemma sint_of_int8: "- 128 \<le> k \<Longrightarrow> k < 128 \<Longrightarrow> sint (word_of_int k :: i8) = k"
  by (simp add: sint_sbintrunc' signed_take_bit_int_eq_self)

lemma sint_of_int16: "- 32768 \<le> k \<Longrightarrow> k < 32768 \<Longrightarrow> sint (word_of_int k :: u16) = k"
  by (simp add: sint_sbintrunc' signed_take_bit_int_eq_self)

lemma sint_pred8: "- 127 \<le> sint w \<Longrightarrow> sint (w - 1) = sint w - 1" for w :: i8
proof -
  assume "- 127 \<le> sint w"
  moreover have "sint w < 128" using sint_lt[of w] by simp
  ultimately have "sint (word_of_int (sint w - 1) :: i8) = sint w - 1"
    by (intro sint_of_int8) simp_all
  then show ?thesis by simp
qed

lemma uint_diff_le: "uint w \<le> uint v \<Longrightarrow> uint (v - w) = uint v - uint w"
  using uint_sub_lem by blast

lemma uint_add_lt: "uint v + uint w < 2 ^ LENGTH('a) \<Longrightarrow> uint (v + w) = uint v + uint w"
  for v w :: "'a::len word"
  by (simp add: uint_word_ariths)

lemma uint_ucast_widen [simp]:
  "uint (ucast (a :: u8) :: u16) = uint a" "uint (ucast a :: u32) = uint a"
  "uint (ucast a :: u64) = uint a" "uint (ucast (b :: u16) :: u32) = uint b"
  "uint (ucast b :: u64) = uint b" "uint (ucast (c :: u32) :: u64) = uint c"
  by (simp_all add: uint_up_ucast is_up_def source_size_def target_size_def word_size)

lemma unat_ucast_widen [simp]:
  "unat (ucast (a :: u8) :: u16) = unat a" "unat (ucast a :: u32) = unat a"
  "unat (ucast a :: u64) = unat a" "unat (ucast (b :: u16) :: u32) = unat b"
  "unat (ucast b :: u64) = unat b" "unat (ucast (c :: u32) :: u64) = unat c"
  by (simp_all only: unat_eq_nat_uint uint_ucast_widen)

lemma uint_bound16: "uint w < 65536" for w :: u16
  using uint_lt2p[of w] by simp

lemma unat_bound16: "unat w < 65536" for w :: u16
proof -
  have "int (unat w) < int 65536"
    using uint_bound16[of w] by simp
  then show ?thesis by (simp only: of_nat_less_iff)
qed

lemma unat_add_lt: "unat v + unat w < 2 ^ LENGTH('a) \<Longrightarrow> unat (v + w) = unat v + unat w"
  for v w :: "'a::len word"
  by (simp add: unat_word_ariths)

lemma unat_bound8: "unat w < 256" for w :: u8
proof -
  have "int (unat w) < int 256"
    using uint_lt2p[of w] by simp
  then show ?thesis by (simp only: of_nat_less_iff)
qed

lemma unat_bound32: "unat w < 4294967296" for w :: u32
proof -
  have "int (unat w) < int 4294967296"
    using uint_lt2p[of w] by simp
  then show ?thesis by (simp only: of_nat_less_iff)
qed

lemma uint_add_sint32:
  fixes v w :: u32
  assumes "0 \<le> uint v + sint w" "uint v + sint w < 4294967296"
  shows "uint (v + w) = uint v + sint w"
proof -
  have "v + w = word_of_int (uint v + sint w)"
    by (simp add: word_of_int_uint)
  moreover have "uint (word_of_int (uint v + sint w) :: u32) = uint v + sint w"
    using assms by (intro uint_of_int_small) simp_all
  ultimately show ?thesis by metis
qed

lemma uint_diff_sint32:
  fixes v w :: u32
  assumes "0 \<le> uint v - sint w" "uint v - sint w < 4294967296"
  shows "uint (v - w) = uint v - sint w"
proof -
  have "v - w = word_of_int (uint v - sint w)"
    by (simp add: word_of_int_uint)
  moreover have "uint (word_of_int (uint v - sint w) :: u32) = uint v - sint w"
    using assms by (intro uint_of_int_small) simp_all
  ultimately show ?thesis by metis
qed

end
