(* ===== verification/Memory.thy ===== *)
theory Memory
  imports Prelude
begin

text \<open>
  The memory the C++ code works on: allocated blocks of bytes (one per \<open>new uint8_t[n]\<close>),
  pointers as a block and an offset, reads and writes that fault outside the block, and
  big-endian fields. The code casts byte pointers to \<open>uint16_t*\<close> and \<open>uint32_t*\<close> and
  converts with \<open>big_to_native\<close> and \<open>native_to_big\<close>; both casts and conversions together
  read and write the bytes in big-endian order, whatever the byte order of the host.
\<close>

datatype ptr = Ptr (blk: nat) (off: int)

definition padd :: "ptr \<Rightarrow> int \<Rightarrow> ptr" where
  "padd p d = Ptr (blk p) (off p + d)"

text \<open>
  \<open>junk\<close> is what the allocator leaves in fresh memory (\<open>new uint8_t[n]\<close> does not
  initialise it); nothing is assumed of it.
\<close>

record heap =
  blocks :: "nat \<rightharpoonup> bytes"
  next_block :: nat
  junk :: "nat \<Rightarrow> u8"

definition heap_new :: "heap \<Rightarrow> nat \<Rightarrow> heap \<times> ptr" where
  "heap_new h n =
     (h\<lparr>blocks := (blocks h)(next_block h \<mapsto> map (junk h) [0..<n]),
        next_block := Suc (next_block h)\<rparr>,
      Ptr (next_block h) 0)"

definition heap_delete :: "heap \<Rightarrow> ptr \<Rightarrow> heap" where
  "heap_delete h p = h\<lparr>blocks := (blocks h)(blk p := None)\<rparr>"

definition in_bounds :: "heap \<Rightarrow> ptr \<Rightarrow> nat \<Rightarrow> bool" where
  "in_bounds h p n = (case blocks h (blk p) of
       None \<Rightarrow> False
     | Some bs \<Rightarrow> 0 \<le> off p \<and> off p + int n \<le> int (length bs))"

definition load_bytes :: "heap \<Rightarrow> ptr \<Rightarrow> nat \<Rightarrow> bytes res" where
  "load_bytes h p n =
     (if in_bounds h p n then Inr (slice (nat (off p)) n (the (blocks h (blk p))))
      else Inl OutOfBounds)"

definition store_bytes :: "heap \<Rightarrow> ptr \<Rightarrow> bytes \<Rightarrow> heap res" where
  "store_bytes h p bs =
     (if in_bounds h p (length bs)
      then Inr (h\<lparr>blocks := (blocks h)(blk p \<mapsto> patch (nat (off p)) bs (the (blocks h (blk p))))\<rparr>)
      else Inl OutOfBounds)"

definition load8 :: "heap \<Rightarrow> ptr \<Rightarrow> u8 res" where
  "load8 h p = rbind (load_bytes h p 1) (\<lambda>bs. Inr (bs ! 0))"

definition store8 :: "heap \<Rightarrow> ptr \<Rightarrow> u8 \<Rightarrow> heap res" where
  "store8 h p b = store_bytes h p [b]"

section \<open>Big-endian fields\<close>

definition be16 :: "u8 \<Rightarrow> u8 \<Rightarrow> u16" where
  "be16 a b = push_bit 8 (ucast a) OR ucast b"

definition be32 :: "u8 \<Rightarrow> u8 \<Rightarrow> u8 \<Rightarrow> u8 \<Rightarrow> u32" where
  "be32 a b c d = push_bit 24 (ucast a) OR push_bit 16 (ucast b) OR push_bit 8 (ucast c) OR ucast d"

definition bytes16 :: "u16 \<Rightarrow> bytes" where
  "bytes16 w = [ucast (drop_bit 8 w), ucast w]"

definition bytes32 :: "u32 \<Rightarrow> bytes" where
  "bytes32 w = [ucast (drop_bit 24 w), ucast (drop_bit 16 w), ucast (drop_bit 8 w), ucast w]"

definition load16 :: "heap \<Rightarrow> ptr \<Rightarrow> u16 res" where
  "load16 h p = rbind (load_bytes h p 2) (\<lambda>bs. Inr (be16 (bs ! 0) (bs ! 1)))"

definition load32 :: "heap \<Rightarrow> ptr \<Rightarrow> u32 res" where
  "load32 h p = rbind (load_bytes h p 4) (\<lambda>bs. Inr (be32 (bs ! 0) (bs ! 1) (bs ! 2) (bs ! 3)))"

definition store16 :: "heap \<Rightarrow> ptr \<Rightarrow> u16 \<Rightarrow> heap res" where
  "store16 h p w = store_bytes h p (bytes16 w)"

definition store32 :: "heap \<Rightarrow> ptr \<Rightarrow> u32 \<Rightarrow> heap res" where
  "store32 h p w = store_bytes h p (bytes32 w)"

section \<open>Laws\<close>

lemma padd_simps [simp]:
  "blk (padd p d) = blk p" "off (padd p d) = off p + d" "padd p 0 = p"
  "padd (padd p d) e = padd p (d + e)"
  by (simp_all add: padd_def add.assoc)

lemma be16_bytes16 [simp]: "be16 (ucast (drop_bit 8 w)) (ucast w) = w"
  by (auto simp: be16_def bit_eq_iff bit_simps)

lemma be32_bytes32 [simp]:
  "be32 (ucast (drop_bit 24 w)) (ucast (drop_bit 16 w)) (ucast (drop_bit 8 w)) (ucast w) = w"
proof (rule bit_word_eqI)
  fix n
  assume "n < LENGTH(32)"
  then consider "n < 8" | "8 \<le> n" "n < 16" | "16 \<le> n" "n < 24" | "24 \<le> n" "n < 32"
    by fastforce
  then show "bit (be32 (ucast (drop_bit 24 w)) (ucast (drop_bit 16 w)) (ucast (drop_bit 8 w))
      (ucast w)) n = bit w n"
    by cases (auto simp: be32_def bit_simps)
qed

lemma length_bytes16 [simp]: "length (bytes16 w) = 2"
  by (simp add: bytes16_def)

lemma length_bytes32 [simp]: "length (bytes32 w) = 4"
  by (simp add: bytes32_def)

definition disjoint_ranges :: "ptr \<Rightarrow> nat \<Rightarrow> ptr \<Rightarrow> nat \<Rightarrow> bool" where
  "disjoint_ranges p n q m \<longleftrightarrow>
     blk p \<noteq> blk q \<or> off p + int n \<le> off q \<or> off q + int m \<le> off p"

lemma in_bounds_sub:
  "in_bounds h p m \<Longrightarrow> 0 \<le> i \<Longrightarrow> i + int n \<le> int m \<Longrightarrow> in_bounds h (padd p i) n"
  by (auto simp: in_bounds_def split: option.splits)

lemma in_bounds_part: "in_bounds h p m \<Longrightarrow> i + n \<le> m \<Longrightarrow> in_bounds h (padd p (int i)) n"
  using of_nat_mono[of "i + n" m, where 'a = int] by (intro in_bounds_sub[of h p m]) simp_all

lemma load_bytes_ok: "in_bounds h p n \<longleftrightarrow> (\<exists>bs. load_bytes h p n = Inr bs)"
  by (simp add: load_bytes_def)

lemma load_bytes_length [dest]: "load_bytes h p n = Inr bs \<Longrightarrow> length bs = n"
  by (auto simp: load_bytes_def in_bounds_def split: if_splits option.splits)

lemma store_bytes_ok: "in_bounds h p (length bs) \<longleftrightarrow> (\<exists>h'. store_bytes h p bs = Inr h')"
  by (simp add: store_bytes_def)

lemma in_bounds_store:
  "store_bytes h p bs = Inr h' \<Longrightarrow> in_bounds h' q n = in_bounds h q n"
  by (auto simp: store_bytes_def in_bounds_def nat_less_iff split: if_splits option.splits)

lemma load_bytes_sub:
  assumes "load_bytes h p m = Inr bs" "i + n \<le> m"
  shows "load_bytes h (padd p (int i)) n = Inr (slice i n bs)"
proof -
  from assms(1) have ib: "in_bounds h p m"
    by (simp add: load_bytes_def split: if_splits)
  then have "in_bounds h (padd p (int i)) n"
    using assms(2) by (auto intro: in_bounds_sub)
  moreover from ib obtain xs where "blocks h (blk p) = Some xs" "0 \<le> off p"
      "nat (off p) + m \<le> length xs"
    by (auto simp: in_bounds_def split: option.splits)
  ultimately show ?thesis
    using assms by (auto simp: load_bytes_def slice_slice nat_add_distrib split: if_splits)
qed

lemma load_store_patch:
  assumes ld: "load_bytes h p m = Inr xs" and st: "store_bytes h (padd p (int i)) ys = Inr h'"
    and fits: "i + length ys \<le> m"
  shows "load_bytes h' p m = Inr (patch i ys xs)"
proof -
  have ib: "in_bounds h p m"
    using ld by (simp add: load_bytes_def split: if_splits)
  then obtain zs where zs: "blocks h (blk p) = Some zs" "0 \<le> off p" "nat (off p) + m \<le> length zs"
    by (auto simp: in_bounds_def split: option.splits)
  let ?o = "nat (off p)"
  have xs: "xs = slice ?o m zs"
    using ld zs by (simp add: load_bytes_def split: if_splits)
  have h': "blocks h' (blk p) = Some (patch (?o + i) ys zs)"
    using st zs by (auto simp: store_bytes_def nat_add_distrib split: if_splits)
  have "slice ?o m (patch (?o + i) ys zs) = patch i ys (slice ?o m zs)"
    using zs fits by (intro nth_equalityI) (auto simp: nth_patch)
  then show ?thesis
    using ib in_bounds_store[OF st] by (simp add: load_bytes_def h' xs)
qed

lemma load_store_same:
  assumes "store_bytes h p bs = Inr h'"
  shows "load_bytes h' p (length bs) = Inr bs"
proof -
  have "in_bounds h p (length bs)"
    using assms by (auto simp: store_bytes_ok)
  then obtain xs where xs: "load_bytes h p (length bs) = Inr xs"
    by (auto simp: load_bytes_ok)
  from load_store_patch[OF xs, of 0 bs h'] assms have "load_bytes h' p (length bs) = Inr (patch 0 bs xs)"
    by simp
  also have "patch 0 bs xs = bs"
    using load_bytes_length[OF xs] by (simp add: patch_def)
  finally show ?thesis .
qed

lemma load_store_disjoint:
  assumes "store_bytes h p bs = Inr h'" "disjoint_ranges p (length bs) q n"
  shows "load_bytes h' q n = load_bytes h q n"
proof (cases "in_bounds h q n")
  case True
  show ?thesis
  proof (cases "blk p = blk q")
    case same: True
    from assms(1) have ib: "in_bounds h p (length bs)"
      by (auto simp: store_bytes_ok)
    from True obtain zs where zs: "blocks h (blk q) = Some zs" "0 \<le> off q" "nat (off q) + n \<le> length zs"
      by (auto simp: in_bounds_def split: option.splits)
    have p: "0 \<le> off p" "nat (off p) + length bs \<le> length zs"
      using ib zs same by (auto simp: in_bounds_def)
    have h': "blocks h' (blk q) = Some (patch (nat (off p)) bs zs)"
      using assms(1) zs same by (auto simp: store_bytes_def split: if_splits)
    have "slice (nat (off q)) n (patch (nat (off p)) bs zs) = slice (nat (off q)) n zs"
      using zs p assms(2) same
      by (intro nth_equalityI) (auto simp: nth_patch disjoint_ranges_def)
    then show ?thesis
      using True in_bounds_store[OF assms(1)] zs h' by (simp add: load_bytes_def)
  next
    case False
    with assms(1) have "blocks h' (blk q) = blocks h (blk q)"
      by (auto simp: store_bytes_def split: if_splits)
    then show ?thesis
      using in_bounds_store[OF assms(1)] by (simp add: load_bytes_def)
  qed
next
  case False
  then show ?thesis
    using in_bounds_store[OF assms(1)] by (simp add: load_bytes_def)
qed

lemma load_bytes_append:
  assumes "load_bytes h p m = Inr xs" "load_bytes h (padd p (int m)) n = Inr ys"
  shows "load_bytes h p (m + n) = Inr (xs @ ys)"
  using assms
  by (auto simp: load_bytes_def in_bounds_def slice_def take_add nat_add_distrib add.commute
      split: if_splits option.splits)

lemma store_bytes_append:
  assumes "store_bytes h p xs = Inr h1" "store_bytes h1 (padd p (int (length xs))) ys = Inr h2"
  shows "store_bytes h p (xs @ ys) = Inr h2"
proof -
  obtain zs where zs: "blocks h (blk p) = Some zs" "0 \<le> off p" "nat (off p) + length xs \<le> length zs"
    using assms(1) by (auto simp: store_bytes_def in_bounds_def split: if_splits option.splits)
  have h1: "h1 = h\<lparr>blocks := (blocks h)(blk p \<mapsto> patch (nat (off p)) xs zs)\<rparr>"
    using assms(1) zs by (auto simp: store_bytes_def split: if_splits)
  have fits: "nat (off p) + length xs + length ys \<le> length zs"
    using assms(2) zs h1 by (auto simp: store_bytes_def in_bounds_def split: if_splits)
  have "patch (nat (off p) + length xs) ys (patch (nat (off p)) xs zs)
      = patch (nat (off p)) (xs @ ys) zs"
    using zs fits by (intro nth_equalityI) (auto simp: nth_patch nth_append)
  then show ?thesis
    using assms zs h1 fits by (auto simp: store_bytes_def in_bounds_def nat_add_distrib split: if_splits)
qed

section \<open>Fields of a fixed width\<close>

text \<open>
  Every header field of the code is read and written through one of three widths. The
  contract of a field: its read and write are those of its bytes under an encoding of a
  fixed length that decodes back.
\<close>

locale field =
  fixes width :: nat
    and enc :: "'v \<Rightarrow> bytes"
    and dec :: "bytes \<Rightarrow> 'v"
    and ld :: "heap \<Rightarrow> ptr \<Rightarrow> 'v res"
    and st :: "heap \<Rightarrow> ptr \<Rightarrow> 'v \<Rightarrow> heap res"
  assumes ld_eq: "ld h p = rbind (load_bytes h p width) (\<lambda>bs. Inr (dec bs))"
    and st_eq: "st h p v = store_bytes h p (enc v)"
    and enc_length [simp]: "length (enc v) = width"
    and dec_enc [simp]: "dec (enc v) = v"
begin

lemma ld_ok: "in_bounds h p width \<longleftrightarrow> (\<exists>v. ld h p = Inr v)"
  by (auto simp: ld_eq res_iffs load_bytes_ok)

lemma st_ok: "in_bounds h p width \<longleftrightarrow> (\<exists>h'. st h p v = Inr h')"
  using store_bytes_ok[of h p "enc v"] by (simp add: st_eq)

lemma ld_st_same: "st h p v = Inr h' \<Longrightarrow> ld h' p = Inr v"
  using load_store_same[of h p "enc v" h'] by (simp add: st_eq ld_eq)

lemma ld_st_disjoint:
  "store_bytes h q bs = Inr h' \<Longrightarrow> disjoint_ranges q (length bs) p width \<Longrightarrow> ld h' p = ld h p"
  by (simp add: ld_eq load_store_disjoint)

lemma ld_st_other:
  "st h q v = Inr h' \<Longrightarrow> disjoint_ranges q width p width \<Longrightarrow> ld h' p = ld h p"
  by (simp add: st_eq ld_eq load_store_disjoint)

lemma load_bytes_st_disjoint:
  "st h p v = Inr h' \<Longrightarrow> disjoint_ranges p width q n \<Longrightarrow> load_bytes h' q n = load_bytes h q n"
  by (simp add: st_eq load_store_disjoint)

lemma ld_sub:
  "load_bytes h p m = Inr bs \<Longrightarrow> i + width \<le> m \<Longrightarrow>
     ld h (padd p (int i)) = Inr (dec (slice i width bs))"
  by (simp add: ld_eq load_bytes_sub)

lemma st_patch:
  "load_bytes h p m = Inr bs \<Longrightarrow> st h (padd p (int i)) v = Inr h' \<Longrightarrow> i + width \<le> m \<Longrightarrow>
     load_bytes h' p m = Inr (patch i (enc v) bs)"
  by (simp add: st_eq load_store_patch)

lemma in_bounds_st: "st h p v = Inr h' \<Longrightarrow> in_bounds h' q n = in_bounds h q n"
  by (simp add: st_eq in_bounds_store)

end

interpretation byte: field 1 "\<lambda>b. [b]" "\<lambda>bs. bs ! 0" load8 store8
  by unfold_locales (simp_all add: load8_def store8_def)

interpretation half: field 2 bytes16 "\<lambda>bs. be16 (bs ! 0) (bs ! 1)" load16 store16
  by unfold_locales (simp_all add: load16_def store16_def bytes16_def)

interpretation full: field 4 bytes32 "\<lambda>bs. be32 (bs ! 0) (bs ! 1) (bs ! 2) (bs ! 3)" load32 store32
  by unfold_locales (simp_all add: load32_def store32_def bytes32_def)

section \<open>Fresh blocks\<close>

definition heap_wf :: "heap \<Rightarrow> bool" where
  "heap_wf h \<longleftrightarrow> (\<forall>b. next_block h \<le> b \<longrightarrow> blocks h b = None)"

lemma heap_new_in_bounds:
  "heap_new h n = (h', p) \<Longrightarrow> in_bounds h' (padd p i) m \<longleftrightarrow> 0 \<le> i \<and> i + int m \<le> int n"
  by (auto simp: heap_new_def in_bounds_def)

lemma heap_new_old:
  "heap_wf h \<Longrightarrow> heap_new h n = (h', p) \<Longrightarrow> in_bounds h q m \<Longrightarrow>
     in_bounds h' q m \<and> load_bytes h' q m = load_bytes h q m \<and> blk q \<noteq> blk p"
  by (cases "blk q = next_block h")
     (auto simp: heap_new_def in_bounds_def load_bytes_def heap_wf_def split: option.splits)

lemma heap_new_wf: "heap_wf h \<Longrightarrow> heap_new h n = (h', p) \<Longrightarrow> heap_wf h'"
  by (auto simp: heap_new_def heap_wf_def)

lemma store_bytes_wf: "heap_wf h \<Longrightarrow> store_bytes h p bs = Inr h' \<Longrightarrow> heap_wf h'"
  by (auto simp: store_bytes_def heap_wf_def in_bounds_def split: if_splits option.splits)

end
