(* ===== verification/BufferPool.thy ===== *)
theory BufferPool
  imports Memory "HOL-Library.Multiset"
begin

text \<open>
  \<^verbatim>\<open>libtun/include/libtun/BufferPool.h\<close>: the \<open>Buffer\<close> window over a block of memory, its
  length-prefixed strings, and the \<open>BufferPool\<close> that hands out fixed-size slots of chunks.
\<close>

section \<open>The window\<close>

text \<open>
  \<open>class Buffer\<close>. A mutator of the code changes the fields and returns the new \<open>_size\<close>;
  here it returns the new record, whose \<open>b_size\<close> is that result.
\<close>

record buffer =
  b_internal :: ptr
  b_internalSize :: u32
  b_data :: ptr
  b_size :: u32

definition mkBuffer :: "ptr \<Rightarrow> u32 \<Rightarrow> buffer" where
  "mkBuffer d len = \<lparr>b_internal = d, b_internalSize = len, b_data = d, b_size = len\<rparr>"

definition prefixSpace :: "buffer \<Rightarrow> u32" where
  "prefixSpace b = word_of_int (off (b_data b) - off (b_internal b))"

definition suffixSpace :: "buffer \<Rightarrow> u32" where
  "suffixSpace b = b_internalSize b - prefixSpace b - b_size b"

definition setSize :: "buffer \<Rightarrow> u32 \<Rightarrow> buffer" where
  "setSize b len =
     (if len \<le> b_internalSize b - prefixSpace b then b\<lparr>b_size := len\<rparr> else b)"

definition shift :: "buffer \<Rightarrow> i32 \<Rightarrow> buffer" where
  "shift b distance =
     (if sint distance \<le> sint (suffixSpace b) \<and> sint (- distance) \<le> sint (prefixSpace b)
      then b\<lparr>b_data := padd (b_data b) (sint distance)\<rparr> else b)"

definition moveFrontBoundary :: "buffer \<Rightarrow> i32 \<Rightarrow> buffer" where
  "moveFrontBoundary b distance =
     (if sint (- distance) \<le> sint (prefixSpace b) \<and> sint distance \<le> sint (b_size b)
      then b\<lparr>b_data := padd (b_data b) (sint distance), b_size := b_size b - distance\<rparr>
      else b)"

definition moveBackBoundary :: "buffer \<Rightarrow> i32 \<Rightarrow> buffer" where
  "moveBackBoundary b distance =
     (if sint distance \<le> sint (suffixSpace b) \<and> sint (- distance) \<le> sint (b_size b)
      then b\<lparr>b_size := b_size b + distance\<rparr> else b)"

section \<open>Length-prefixed content\<close>

text \<open>A \<open>mutable_buffer\<close>: a pointer, null in the default-constructed one, and a size.\<close>

record mbuf =
  mb_data :: "ptr option"
  mb_size :: u64

definition mb_empty :: mbuf where
  "mb_empty = \<lparr>mb_data = None, mb_size = 0\<rparr>"

definition toMutableBuffer :: "buffer \<Rightarrow> mbuf" where
  "toMutableBuffer b = \<lparr>mb_data = Some (b_data b), mb_size = ucast (b_size b)\<rparr>"

definition mbuf_bytes :: "heap \<Rightarrow> mbuf \<Rightarrow> bytes res" where
  "mbuf_bytes h mb = (case mb_data mb of
       None \<Rightarrow> if mb_size mb = 0 then Inr [] else Inl NullPointer
     | Some p \<Rightarrow> load_bytes h p (unat (mb_size mb)))"

definition readBuffer :: "heap \<Rightarrow> buffer \<Rightarrow> u32 \<Rightarrow> mbuf res" where
  "readBuffer h b from =
     (if b_size b < from + 2 then Inr mb_empty
      else rbind (load16 h (padd (b_data b) (uint from))) (\<lambda>len.
        if b_size b < from + 2 + ucast len then Inr mb_empty
        else Inr \<lparr>mb_data = Some (padd (b_data b) (uint from + 2)), mb_size = ucast len\<rparr>))"

definition readBufferFromFront :: "heap \<Rightarrow> buffer \<Rightarrow> (buffer \<times> mbuf) res" where
  "readBufferFromFront h b =
     rbind (readBuffer h b 0) (\<lambda>mb.
       Inr (if mb_size mb > 0 then moveFrontBoundary b (2 + ucast (mb_size mb)) else b, mb))"

definition readString :: "heap \<Rightarrow> buffer \<Rightarrow> u32 \<Rightarrow> bytes res" where
  "readString h b from = rbind (readBuffer h b from) (mbuf_bytes h)"

definition readStringFromFront :: "heap \<Rightarrow> buffer \<Rightarrow> (buffer \<times> bytes) res" where
  "readStringFromFront h b =
     rbind (readBufferFromFront h b) (\<lambda>(b', mb).
     rbind (mbuf_bytes h mb) (\<lambda>s. Inr (b', s)))"

text \<open>
  \<open>src\<close> is the memory behind the source pointer; \<open>memcpy\<close> reads its first \<open>len\<close> bytes and
  faults if there are fewer.
\<close>

definition writeBuffer :: "heap \<Rightarrow> buffer \<Rightarrow> bytes \<Rightarrow> u16 \<Rightarrow> u32 \<Rightarrow> (heap \<times> buffer \<times> bool) res" where
  "writeBuffer h b src len from =
     (if from + ucast len + 2 \<ge> b_size b + suffixSpace b then Inr (h, b, False)
      else
        let b' = (if from + ucast len + 2 > b_size b then setSize b (from + ucast len + 2) else b)
        in rbind (store16 h (padd (b_data b') (uint from)) len) (\<lambda>h1.
           if length src < unat len then Inl OutOfBounds
           else rbind (store_bytes h1 (padd (b_data b') (uint from + 2)) (take (unat len) src)) (\<lambda>h2.
             Inr (h2, b', True))))"

definition writeBufferToBack :: "heap \<Rightarrow> buffer \<Rightarrow> bytes \<Rightarrow> u16 \<Rightarrow> (heap \<times> buffer \<times> bool) res" where
  "writeBufferToBack h b src len = writeBuffer h b src len (b_size b)"

text \<open>The \<open>uint16_t\<close> parameter truncates \<open>str.size()\<close>.\<close>

definition writeString :: "heap \<Rightarrow> buffer \<Rightarrow> bytes \<Rightarrow> u32 \<Rightarrow> (heap \<times> buffer \<times> bool) res" where
  "writeString h b str from = writeBuffer h b str (of_nat (length str)) from"

definition writeStringToBack :: "heap \<Rightarrow> buffer \<Rightarrow> bytes \<Rightarrow> (heap \<times> buffer \<times> bool) res" where
  "writeStringToBack h b str = writeBufferToBack h b str (of_nat (length str))"

section \<open>The pool\<close>

text \<open>
  \<open>class BufferPool\<close>; its template argument \<open>bufferSize\<close> is a parameter \<open>bs\<close>. The head of
  \<open>available\<close> is the top of the stack, \<open>memoryChunks\<close> is in \<open>push_back\<close> order. Every
  operation of the pool runs under its mutex, so it is one step.
\<close>

record pool =
  buffersPerChunk :: u32
  memoryChunks :: "ptr list"
  available :: "ptr list"

definition newPool :: "u32 \<Rightarrow> pool" where
  "newPool n = \<lparr>buffersPerChunk = n, memoryChunks = [], available = []\<rparr>"

definition allocChunk :: "u32 \<Rightarrow> heap \<Rightarrow> pool \<Rightarrow> heap \<times> pool" where
  "allocChunk bs h p =
     (let (h', d) = heap_new h (unat (bs * buffersPerChunk p));
          stack = foldl (\<lambda>st i. padd d (uint (of_nat i * bs)) # st)
                    (available p) [0..<unat (buffersPerChunk p)]
      in (h', p\<lparr>memoryChunks := memoryChunks p @ [d], available := stack\<rparr>))"

definition pool_alloc :: "u32 \<Rightarrow> heap \<Rightarrow> pool \<Rightarrow> (heap \<times> pool \<times> buffer) res" where
  "pool_alloc bs h p =
     (let (h', p') = (if available p = [] then allocChunk bs h p else (h, p))
      in case available p' of
           [] \<Rightarrow> Inl EmptyStack
         | d # rest \<Rightarrow> Inr (h', p'\<lparr>available := rest\<rparr>, mkBuffer d bs))"

definition pool_free :: "pool \<Rightarrow> buffer \<Rightarrow> pool" where
  "pool_free p b = p\<lparr>available := b_internal b # available p\<rparr>"

definition availableCount :: "pool \<Rightarrow> u32" where
  "availableCount p = of_nat (length (available p))"

definition allCount :: "pool \<Rightarrow> u32" where
  "allCount p = of_nat (length (memoryChunks p)) * buffersPerChunk p"

definition consumedCount :: "pool \<Rightarrow> u32" where
  "consumedCount p = allCount p - availableCount p"

definition destroyPool :: "heap \<Rightarrow> pool \<Rightarrow> heap" where
  "destroyPool h p = foldl heap_delete h (memoryChunks p)"

section \<open>What a window promises\<close>

text \<open>
  Inside its block a buffer is three numbers: the space before the window, the length of the
  window and the size of the block. The mutators are specified on these: each moves the
  window or its ends exactly when the result stays inside the block, and otherwise does
  nothing.
\<close>

record window =
  w_pre :: int
  w_len :: int
  w_cap :: int

definition win :: "buffer \<Rightarrow> window" where
  "win b = \<lparr>w_pre = off (b_data b) - off (b_internal b), w_len = uint (b_size b),
            w_cap = uint (b_internalSize b)\<rparr>"

definition win_ok :: "window \<Rightarrow> bool" where
  "win_ok w \<longleftrightarrow> 0 \<le> w_pre w \<and> 0 \<le> w_len w \<and> w_pre w + w_len w \<le> w_cap w \<and> w_cap w < 2147483648"

definition buf_wf :: "buffer \<Rightarrow> bool" where
  "buf_wf b \<longleftrightarrow> blk (b_data b) = blk (b_internal b) \<and> win_ok (win b)"

datatype buf_op = SetSize u32 | Shift i32 | MoveFront i32 | MoveBack i32

fun buf_step :: "buffer \<Rightarrow> buf_op \<Rightarrow> buffer" where
  "buf_step b (SetSize n) = setSize b n"
| "buf_step b (Shift d) = shift b d"
| "buf_step b (MoveFront d) = moveFrontBoundary b d"
| "buf_step b (MoveBack d) = moveBackBoundary b d"

fun win_step :: "window \<Rightarrow> buf_op \<Rightarrow> window" where
  "win_step w (SetSize n) =
     (if w_pre w + uint n \<le> w_cap w then w\<lparr>w_len := uint n\<rparr> else w)"
| "win_step w (Shift d) =
     (if 0 \<le> w_pre w + sint d \<and> w_pre w + sint d + w_len w \<le> w_cap w
      then w\<lparr>w_pre := w_pre w + sint d\<rparr> else w)"
| "win_step w (MoveFront d) =
     (if 0 \<le> w_pre w + sint d \<and> sint d \<le> w_len w
      then w\<lparr>w_pre := w_pre w + sint d, w_len := w_len w - sint d\<rparr> else w)"
| "win_step w (MoveBack d) =
     (if 0 \<le> w_len w + sint d \<and> w_pre w + w_len w + sint d \<le> w_cap w
      then w\<lparr>w_len := w_len w + sint d\<rparr> else w)"

text \<open>The distance \<open>INT_MIN\<close> cannot be negated; every distance of the code is small.\<close>

fun op_ok :: "buf_op \<Rightarrow> bool" where
  "op_ok (SetSize n) = True"
| "op_ok (Shift d) = (sint d \<noteq> - 2147483648)"
| "op_ok (MoveFront d) = (sint d \<noteq> - 2147483648)"
| "op_ok (MoveBack d) = (sint d \<noteq> - 2147483648)"

lemma win_step_ok: "win_ok w \<Longrightarrow> win_ok (win_step w x)"
  by (cases x) (auto simp: win_ok_def)

lemma buf_wf_numbers:
  assumes "buf_wf b"
  shows "0 \<le> w_pre (win b)" "0 \<le> w_len (win b)"
    "w_pre (win b) + w_len (win b) \<le> w_cap (win b)" "w_cap (win b) < 2147483648"
  using assms by (auto simp: buf_wf_def win_ok_def)

lemma uint_spaces:
  assumes "buf_wf b"
  shows "uint (prefixSpace b) = w_pre (win b)" "sint (prefixSpace b) = w_pre (win b)"
    "uint (suffixSpace b) = w_cap (win b) - w_pre (win b) - w_len (win b)"
    "sint (suffixSpace b) = w_cap (win b) - w_pre (win b) - w_len (win b)"
    "sint (b_size b) = w_len (win b)"
    "uint (b_internalSize b - prefixSpace b) = w_cap (win b) - w_pre (win b)"
proof -
  note n = buf_wf_numbers[OF assms]
  have "prefixSpace b = word_of_int (w_pre (win b))"
    by (simp add: prefixSpace_def win_def)
  moreover have "uint (word_of_int (w_pre (win b)) :: u32) = w_pre (win b)"
    using n by (intro uint_of_int_small) simp_all
  ultimately show p: "uint (prefixSpace b) = w_pre (win b)"
    by simp
  have f: "w_cap (win b) = uint (b_internalSize b)" "w_len (win b) = uint (b_size b)"
    by (simp_all add: win_def)
  have "uint (prefixSpace b) \<le> uint (b_internalSize b)"
    using n p f by linarith
  then show q: "uint (b_internalSize b - prefixSpace b) = w_cap (win b) - w_pre (win b)"
    by (simp add: uint_diff_le p f)
  have "uint (b_size b) \<le> uint (b_internalSize b - prefixSpace b)"
    using n q f by linarith
  then show s: "uint (suffixSpace b) = w_cap (win b) - w_pre (win b) - w_len (win b)"
    by (simp add: suffixSpace_def uint_diff_le q f)
  show "sint (prefixSpace b) = w_pre (win b)"
    using n p by (simp add: sint_eq_uint32)
  show "sint (suffixSpace b) = w_cap (win b) - w_pre (win b) - w_len (win b)"
    using n s by (simp add: sint_eq_uint32)
  show "sint (b_size b) = w_len (win b)"
    using n by (simp add: sint_eq_uint32 win_def)
qed

lemma buf_step_frame:
  "b_internal (buf_step b x) = b_internal b" "b_internalSize (buf_step b x) = b_internalSize b"
  "blk (b_data (buf_step b x)) = blk (b_data b)"
  by (cases x; simp add: setSize_def shift_def moveFrontBoundary_def moveBackBoundary_def)+

lemma win_buf_step:
  assumes "buf_wf b" "op_ok x"
  shows "win (buf_step b x) = win_step (win b) x"
proof (cases x)
  case (SetSize n)
  with uint_spaces[OF assms(1)] show ?thesis
    by (auto simp: setSize_def word_le_def win_def)
next
  case (Shift d)
  with uint_spaces[OF assms(1)] assms(2) show ?thesis
    by (auto simp: shift_def sint_minus32 win_def)
next
  case (MoveFront d)
  with uint_spaces[OF assms(1)] buf_wf_numbers[OF assms(1)] assms(2) show ?thesis
    by (auto simp: moveFrontBoundary_def sint_minus32 win_def uint_diff_sint32)
next
  case (MoveBack d)
  with uint_spaces[OF assms(1)] buf_wf_numbers[OF assms(1)] assms(2) show ?thesis
    by (auto simp: moveBackBoundary_def sint_minus32 win_def uint_add_sint32)
qed

lemma buf_step_wf: "buf_wf b \<Longrightarrow> op_ok x \<Longrightarrow> buf_wf (buf_step b x)"
  using win_step_ok[of "win b" x]
  by (simp add: buf_wf_def[of "buf_step b x"] win_buf_step buf_step_frame) (simp add: buf_wf_def)

text \<open>
  C31. The window refinement: any sequence of size, shift and boundary moves on a well-formed
  buffer, however the distances are chosen, stays a well-formed window of the same block and
  does exactly what the integer specification of the window does.
\<close>

theorem buffer_refines_window:
  assumes "buf_wf b" "\<forall>x\<in>set ops. op_ok x"
  shows "buf_wf (foldl buf_step b ops) \<and> win (foldl buf_step b ops) = foldl win_step (win b) ops
    \<and> b_internal (foldl buf_step b ops) = b_internal b"
  using assms
proof (induction ops arbitrary: b)
  case Nil
  then show ?case by simp
next
  case (Cons x ops)
  then have "buf_wf (buf_step b x)" by (simp add: buf_step_wf)
  with Cons.IH[of "buf_step b x"] Cons.prems show ?case
    by (simp add: win_buf_step buf_step_frame)
qed

section \<open>Reading and writing length-prefixed strings\<close>

definition buf_in :: "heap \<Rightarrow> buffer \<Rightarrow> bool" where
  "buf_in h b \<longleftrightarrow> in_bounds h (b_internal b) (unat (b_internalSize b))"

definition content :: "heap \<Rightarrow> buffer \<Rightarrow> bytes res" where
  "content h b = load_bytes h (b_data b) (unat (b_size b))"

definition frame :: "bytes \<Rightarrow> bytes" where
  "frame s = bytes16 (of_nat (length s)) @ s"

lemma buf_in_bounds:
  assumes "buf_wf b" "buf_in h b" "0 \<le> w_pre (win b) + i"
    "w_pre (win b) + i + int n \<le> w_cap (win b)"
  shows "in_bounds h (padd (b_data b) i) n"
proof -
  have "padd (b_data b) i = padd (b_internal b) (w_pre (win b) + i)"
    using assms(1) by (simp add: padd_def win_def buf_wf_def)
  moreover have "in_bounds h (padd (b_internal b) (w_pre (win b) + i)) n"
    using assms(2-4)
    by (intro in_bounds_sub [where m = "unat (b_internalSize b)"]) (simp_all add: buf_in_def win_def)
  ultimately show ?thesis by simp
qed

lemma content_ok:
  assumes "buf_wf b" "buf_in h b"
  shows "\<exists>bs. content h b = Inr bs \<and> length bs = unat (b_size b)"
proof -
  have "int (unat (b_size b)) = w_len (win b)"
    by (simp add: win_def)
  then have "in_bounds h (padd (b_data b) 0) (unat (b_size b))"
    using buf_wf_numbers[OF assms(1)] by (intro buf_in_bounds[OF assms]) simp_all
  then show ?thesis
    by (auto simp: content_def load_bytes_ok dest: load_bytes_length)
qed

lemma buf_in_store: "store_bytes h p bs = Inr h' \<Longrightarrow> buf_in h' b = buf_in h b"
  by (simp add: buf_in_def in_bounds_store)

lemma setSize_simps [simp]:
  "b_internal (setSize b n) = b_internal b" "b_internalSize (setSize b n) = b_internalSize b"
  "b_data (setSize b n) = b_data b"
  by (simp_all add: setSize_def)

lemma writeBuffer_spec:
  assumes wf: "buf_wf b" and mem: "buf_in h b" and src: "length src = unat len"
    and inside: "uint from \<le> w_len (win b)"
    and fits: "w_pre (win b) + uint from + uint len + 2 < w_cap (win b)"
  shows "\<exists>h' b'. writeBuffer h b src len from = Inr (h', b', True)
    \<and> store_bytes h (padd (b_data b) (uint from)) (bytes16 len @ src) = Inr h'
    \<and> b' = b\<lparr>b_size := (if uint (b_size b) < uint from + uint len + 2
                         then from + ucast len + 2 else b_size b)\<rparr>
    \<and> uint (from + ucast len + 2) = uint from + uint len + 2"
proof -
  note n = buf_wf_numbers[OF wf] and u = uint_spaces[OF wf]
  have s1: "uint (from + ucast len) = uint from + uint len"
    using n inside uint_bound16[of len] by (subst uint_add_lt) simp_all
  have s2: "uint (from + ucast len + 2) = uint from + uint len + 2"
    using n inside uint_bound16[of len] by (subst uint_add_lt) (simp_all add: s1)
  have wl: "uint (b_size b) = w_len (win b)" by (simp add: win_def)
  have room: "uint (b_size b + suffixSpace b) = w_cap (win b) - w_pre (win b)"
    using n u wl by (subst uint_add_lt) simp_all
  have g: "\<not> b_size b + suffixSpace b \<le> from + ucast len + 2"
    using fits room s2 by (simp add: word_le_def)
  let ?b = "if b_size b < from + ucast len + 2 then setSize b (from + ucast len + 2) else b"
  have b': "?b = b\<lparr>b_size := (if uint (b_size b) < uint from + uint len + 2
        then from + ucast len + 2 else b_size b)\<rparr>"
    using fits u s2 by (auto simp: setSize_def word_less_def word_le_def)
  have lsrc: "int (length src) = uint len" using src by simp
  have "in_bounds h (padd (b_data b) (uint from)) (length (bytes16 len @ src))"
    using n fits lsrc by (intro buf_in_bounds[OF wf mem]) simp_all
  then have "in_bounds h (padd (b_data b) (uint from)) (length (bytes16 len))"
    using in_bounds_sub[of h "padd (b_data b) (uint from)" _ 0] by simp
  then obtain h1 where h1: "store16 h (padd (b_data b) (uint from)) len = Inr h1"
    using half.st_ok[of h "padd (b_data b) (uint from)" len] by auto
  have "in_bounds h1 (padd (b_data b) (uint from + 2)) (length src)"
    using n fits lsrc by (subst half.in_bounds_st[OF h1], intro buf_in_bounds[OF wf mem]) simp_all
  then obtain h2 where h2: "store_bytes h1 (padd (b_data b) (uint from + 2)) src = Inr h2"
    by (auto simp: store_bytes_ok)
  have "store_bytes h (padd (b_data b) (uint from)) (bytes16 len @ src) = Inr h2"
    using h1 h2 by (intro store_bytes_append) (simp_all add: store16_def)
  then show ?thesis
    using g b' h1 h2 src s2 by (simp add: writeBuffer_def Let_def)
qed

lemma writeStringToBack_spec:
  assumes wf: "buf_wf b" and mem: "buf_in h b" and c: "content h b = Inr bs"
    and len: "length s < 65536"
    and fits: "w_pre (win b) + w_len (win b) + int (length s) + 2 < w_cap (win b)"
  shows "\<exists>h' b'. writeStringToBack h b s = Inr (h', b', True) \<and> content h' b' = Inr (bs @ frame s)
    \<and> buf_wf b' \<and> buf_in h' b' \<and> b_internal b' = b_internal b
    \<and> win b' = (win b)\<lparr>w_len := w_len (win b) + int (length s) + 2\<rparr>"
proof -
  note n = buf_wf_numbers[OF wf]
  let ?len = "of_nat (length s) :: u16" and ?p = "padd (b_data b) (uint (b_size b))"
  have ulen: "uint ?len = int (length s)" "unat ?len = length s"
    using len by (simp_all add: unat_of_nat uint_nat)
  have wl: "uint (b_size b) = w_len (win b)" by (simp add: win_def)
  obtain h' b' where w: "writeBuffer h b s ?len (b_size b) = Inr (h', b', True)"
    and st: "store_bytes h ?p (frame s) = Inr h'"
    and b': "b' = b\<lparr>b_size := b_size b + ucast ?len + 2\<rparr>"
    and sz: "uint (b_size b + ucast ?len + 2) = uint (b_size b) + int (length s) + 2"
    using writeBuffer_spec[OF wf mem, of s ?len "b_size b"] ulen wl fits by (auto simp: frame_def)
  have win': "win b' = (win b)\<lparr>w_len := w_len (win b) + int (length s) + 2\<rparr>"
    using b' sz by (simp add: win_def)
  have "load_bytes h' (b_data b) (unat (b_size b)) = load_bytes h (b_data b) (unat (b_size b))"
    by (rule load_store_disjoint[OF st]) (simp add: disjoint_ranges_def)
  moreover have "load_bytes h' ?p (length (frame s)) = Inr (frame s)"
    by (rule load_store_same[OF st])
  ultimately have "load_bytes h' (b_data b) (unat (b_size b) + length (frame s)) = Inr (bs @ frame s)"
    using c by (intro load_bytes_append) (simp_all add: content_def)
  moreover have "unat (b_size b + ucast ?len + 2) = unat (b_size b) + length (frame s)"
    using sz by (subst of_nat_eq_iff[where 'a = int, symmetric]) (simp add: frame_def)
  ultimately have "content h' b' = Inr (bs @ frame s)"
    using b' by (simp add: content_def)
  moreover have "buf_wf b'"
    using wf win' fits n b' by (simp add: buf_wf_def win_ok_def)
  moreover have "buf_in h' b'"
    using mem st b' by (simp add: buf_in_def in_bounds_store)
  ultimately show ?thesis
    using w win' b' by (simp add: writeStringToBack_def writeBufferToBack_def)
qed

lemma moveFront_content:
  assumes wf: "buf_wf b" and mem: "buf_in h b" and c: "content h b = Inr (xs @ ys)"
    and d: "sint d = int (length xs)"
  shows "buf_wf (moveFrontBoundary b d) \<and> buf_in h (moveFrontBoundary b d)
    \<and> content h (moveFrontBoundary b d) = Inr ys
    \<and> win (moveFrontBoundary b d)
        = (win b)\<lparr>w_pre := w_pre (win b) + int (length xs), w_len := int (length ys)\<rparr>"
proof -
  note n = buf_wf_numbers[OF wf]
  have "length (xs @ ys) = unat (b_size b)"
    using content_ok[OF wf mem] c by auto
  then have "int (length (xs @ ys)) = int (unat (b_size b))" by presburger
  then have l: "w_len (win b) = int (length xs) + int (length ys)"
    by (simp add: win_def)
  have ok: "op_ok (MoveFront d)" using d by simp
  have w: "win (moveFrontBoundary b d)
      = (win b)\<lparr>w_pre := w_pre (win b) + int (length xs), w_len := int (length ys)\<rparr>"
    using win_buf_step[OF wf ok] n l d by simp
  have g: "sint (- d) \<le> sint (prefixSpace b)" "sint d \<le> sint (b_size b)"
    using uint_spaces[OF wf] n l d by (simp_all add: sint_minus32)
  have data: "b_data (moveFrontBoundary b d) = padd (b_data b) (int (length xs))"
    using g d by (simp add: moveFrontBoundary_def)
  have "int (unat (b_size (moveFrontBoundary b d))) = int (length ys)"
    using w by (simp add: win_def)
  then have sz: "unat (b_size (moveFrontBoundary b d)) = length ys" by presburger
  have "load_bytes h (b_data b) (unat (b_size b)) = Inr (xs @ ys)"
    using c by (simp add: content_def)
  from load_bytes_sub[OF this, of "length xs" "length ys"]
  have "load_bytes h (padd (b_data b) (int (length xs))) (length ys) = Inr ys"
    using \<open>length (xs @ ys) = unat (b_size b)\<close> by (simp add: slice_def)
  then have "content h (moveFrontBoundary b d) = Inr ys"
    by (simp add: content_def data sz)
  then show ?thesis
    using buf_step_wf[OF wf ok] mem buf_step_frame[of b "MoveFront d"] w
    by (simp add: buf_in_def)
qed

text \<open>What reading from the front gives, on every buffer content.\<close>

fun decode :: "bytes \<Rightarrow> (bytes \<times> bytes) option" where
  "decode (a # b # rest) =
     (if unat (be16 a b) \<le> length rest
      then Some (take (unat (be16 a b)) rest, drop (unat (be16 a b)) rest) else None)"
| "decode _ = None"

lemma decode_frame: "length s < 65536 \<Longrightarrow> decode (frame s @ rest) = Some (s, rest)"
  by (simp add: frame_def bytes16_def unat_of_nat)

lemma decode_split:
  assumes "decode bs = Some (s, rest)"
  obtains a b where "bs = a # b # s @ rest" "unat (be16 a b) = length s" "length s < 65536"
proof -
  from assms obtain a b xs where "bs = a # b # xs" "unat (be16 a b) \<le> length xs"
      "s = take (unat (be16 a b)) xs" "rest = drop (unat (be16 a b)) xs"
    by (auto split: if_splits elim!: decode.elims)
  with that show ?thesis
    using unat_bound16[of "be16 a b"] by simp
qed

lemma readBuffer_front:
  assumes wf: "buf_wf b" and mem: "buf_in h b" and c: "content h b = Inr bs"
  shows "readBuffer h b 0 = (case decode bs of
      None \<Rightarrow> Inr mb_empty
    | Some (s, rest) \<Rightarrow> Inr \<lparr>mb_data = Some (padd (b_data b) 2), mb_size = of_nat (length s)\<rparr>)"
proof -
  have l: "length bs = unat (b_size b)"
    using content_ok[OF wf mem] c by auto
  show ?thesis
  proof (cases "b_size b < 2")
    case True
    then have "length bs < 2" by (simp add: l word_less_nat_alt)
    then have "decode bs = None"
      by (cases bs rule: decode.cases) simp_all
    with True show ?thesis by (simp add: readBuffer_def)
  next
    case False
    then obtain x y xs where bs: "bs = x # y # xs"
      using l by (cases bs rule: decode.cases) (auto simp: word_less_nat_alt)
    have "load16 h (padd (b_data b) (int 0)) = Inr (be16 (slice 0 2 bs ! 0) (slice 0 2 bs ! 1))"
      using c False l bs by (intro half.ld_sub[of h "b_data b" "unat (b_size b)"])
        (simp_all add: content_def word_less_nat_alt)
    then have ld: "load16 h (b_data b) = Inr (be16 x y)"
      by (simp add: bs slice_def)
    have "unat (2 + ucast (be16 x y) :: u32) = 2 + unat (be16 x y)"
      using unat_bound16[of "be16 x y"] by (subst unat_add_lt) simp_all
    then have "b_size b < 2 + ucast (be16 x y) \<longleftrightarrow> length xs < unat (be16 x y)"
      using bs l [symmetric] by (simp add: word_less_nat_alt)
    moreover have "of_nat (unat (be16 x y)) = (ucast (be16 x y) :: u64)"
      by simp
    ultimately show ?thesis
      using ld False bs by (auto simp: readBuffer_def min_def)
  qed
qed

lemma readStringFromFront_nothing:
  assumes "buf_wf b" "buf_in h b" "content h b = Inr bs"
    and "case decode bs of None \<Rightarrow> True | Some (s, rest) \<Rightarrow> s = []"
  shows "readStringFromFront h b = Inr (b, [])"
proof -
  have "in_bounds h (padd (b_data b) 2) 0" if "decode bs = Some ([], rest)" for rest
  proof -
    from that have "2 \<le> length bs" by (auto elim: decode_split)
    then have "2 \<le> w_len (win b)"
      using content_ok[OF assms(1,2)] assms(3) by (auto simp: win_def uint_nat simp del: of_nat_unat)
    then show ?thesis
      using buf_wf_numbers[OF assms(1)] by (intro buf_in_bounds[OF assms(1,2)]) simp_all
  qed
  then show ?thesis
    using assms(4)
    by (auto simp: readStringFromFront_def readBufferFromFront_def readBuffer_front[OF assms(1-3)]
        mbuf_bytes_def mb_empty_def load_bytes_def slice_def split: option.splits)
qed

lemma readStringFromFront_string:
  assumes wf: "buf_wf b" and mem: "buf_in h b" and c: "content h b = Inr bs"
    and d: "decode bs = Some (s, rest)" and ne: "s \<noteq> []"
  shows "\<exists>b'. readStringFromFront h b = Inr (b', s) \<and> buf_wf b' \<and> buf_in h b'
    \<and> content h b' = Inr rest"
proof -
  obtain x y where bs: "bs = x # y # s @ rest" and len: "length s < 65536"
    using d by (rule decode_split)
  let ?m = "of_nat (length s) :: u64"
  have um: "unat ?m = length s" using len by (simp add: unat_of_nat)
  have "ucast ?m = (of_nat (length s) :: u32)"
    using len by (simp add: unsigned_of_nat take_bit_nat_eq_self)
  then have ud: "unat (2 + ucast ?m :: u32) = length (x # y # s)"
    using len by (subst unat_add_lt) (simp_all add: unat_of_nat)
  then have sd: "sint (2 + ucast ?m :: u32) = int (length (x # y # s))"
    using len by (subst sint_eq_uint32) (simp_all add: uint_nat del: of_nat_unat)
  have l: "length bs = unat (b_size b)"
    using content_ok[OF wf mem] c by auto
  have "load_bytes h (padd (b_data b) (int 2)) (length s) = Inr (slice 2 (length s) bs)"
    using c l bs by (intro load_bytes_sub[of h "b_data b" "unat (b_size b)"]) (simp_all add: content_def)
  then have ld: "load_bytes h (padd (b_data b) 2) (length s) = Inr s"
    by (simp add: bs slice_def)
  have mpos: "0 < ?m" using ne um by (simp add: word_less_nat_alt)
  have "content h b = Inr ((x # y # s) @ rest)" using c bs by simp
  from moveFront_content[OF wf mem this sd] show ?thesis
    using readBuffer_front[OF wf mem c] d ld um mpos
    by (simp add: readStringFromFront_def readBufferFromFront_def mbuf_bytes_def)
qed

text \<open>
  C33. Reading a string from the front of a well-formed buffer is memory-safe whatever bytes a
  peer put into it: it never faults, and it returns exactly the string that the content
  decodes to and drops it from the window; where the content holds no complete
  length-prefixed string, or an empty one, it returns the empty string and leaves the window
  as it was.
\<close>

theorem readStringFromFront_safe:
  assumes "buf_wf b" "buf_in h b"
  shows "\<exists>bs b' s. content h b = Inr bs \<and> readStringFromFront h b = Inr (b', s)
    \<and> buf_wf b' \<and> buf_in h b'
    \<and> (case decode bs of
         None \<Rightarrow> s = [] \<and> b' = b
       | Some ([], rest) \<Rightarrow> s = [] \<and> b' = b
       | Some (t, rest) \<Rightarrow> s = t \<and> content h b' = Inr rest)"
proof -
  obtain bs where bs: "content h b = Inr bs"
    using content_ok[OF assms] by blast
  show ?thesis
  proof (cases "case decode bs of None \<Rightarrow> True | Some (s, rest) \<Rightarrow> s = []")
    case True
    with readStringFromFront_nothing[OF assms bs] assms bs show ?thesis
      by (auto split: option.splits list.splits)
  next
    case False
    then obtain t rest where "decode bs = Some (t, rest)" "t \<noteq> []"
      by (auto split: option.splits)
    moreover from readStringFromFront_string[OF assms bs this]
    obtain b' where "readStringFromFront h b = Inr (b', t)" "buf_wf b'" "buf_in h b'"
      "content h b' = Inr rest" by blast
    ultimately show ?thesis using bs by (cases t) simp_all
  qed
qed

text \<open>Several strings written to the back and read from the front, as the tests do.\<close>

fun writeStrings :: "heap \<Rightarrow> buffer \<Rightarrow> bytes list \<Rightarrow> (heap \<times> buffer \<times> bool) res" where
  "writeStrings h b [] = Inr (h, b, True)"
| "writeStrings h b (s # ss) =
     rbind (writeStringToBack h b s) (\<lambda>(h', b', ok).
       if ok then writeStrings h' b' ss else Inr (h', b', False))"

fun readStrings :: "heap \<Rightarrow> buffer \<Rightarrow> nat \<Rightarrow> (buffer \<times> bytes list) res" where
  "readStrings h b 0 = Inr (b, [])"
| "readStrings h b (Suc n) =
     rbind (readStringFromFront h b) (\<lambda>(b', s).
     rbind (readStrings h b' n) (\<lambda>(b'', ss). Inr (b'', s # ss)))"

lemma writeStrings_content:
  assumes "buf_wf b" "buf_in h b" "content h b = Inr bs" "\<forall>s\<in>set ss. length s < 65536"
    and "w_pre (win b) + w_len (win b) + int (length (concat (map frame ss))) < w_cap (win b)"
  shows "\<exists>h' b'. writeStrings h b ss = Inr (h', b', True) \<and> buf_wf b' \<and> buf_in h' b'
    \<and> content h' b' = Inr (bs @ concat (map frame ss))"
  using assms
proof (induction ss arbitrary: h b bs)
  case Nil
  then show ?case by simp
next
  case (Cons s ss)
  have fs: "length (frame s) = length s + 2" by (simp add: frame_def)
  have "length s < 65536" using Cons.prems(4) by simp
  moreover have "w_pre (win b) + w_len (win b) + int (length s) + 2 < w_cap (win b)"
    using Cons.prems(5) fs by simp
  ultimately obtain h1 b1 where 1: "writeStringToBack h b s = Inr (h1, b1, True)"
    "content h1 b1 = Inr (bs @ frame s)" "buf_wf b1" "buf_in h1 b1"
    "win b1 = (win b)\<lparr>w_len := w_len (win b) + int (length s) + 2\<rparr>"
    using writeStringToBack_spec[OF Cons.prems(1-3)] by blast
  with Cons.IH[OF 1(3,4,2)] Cons.prems(4,5) fs show ?case
    by simp
qed

lemma readStrings_content:
  assumes "buf_wf b" "buf_in h b" "content h b = Inr (concat (map frame ss) @ rest)"
    and "\<forall>s\<in>set ss. s \<noteq> [] \<and> length s < 65536"
  shows "\<exists>b'. readStrings h b (length ss) = Inr (b', ss) \<and> content h b' = Inr rest"
  using assms
proof (induction ss arbitrary: b)
  case Nil
  then show ?case by simp
next
  case (Cons s ss)
  have "decode (concat (map frame (s # ss)) @ rest) = Some (s, concat (map frame ss) @ rest)"
    using Cons.prems(4) decode_frame[of s] by simp
  moreover have "s \<noteq> []" using Cons.prems(4) by simp
  ultimately obtain b1 where 1: "readStringFromFront h b = Inr (b1, s)" "buf_wf b1" "buf_in h b1"
    "content h b1 = Inr (concat (map frame ss) @ rest)"
    using readStringFromFront_string[OF Cons.prems(1-3)] by blast
  with Cons.IH[OF 1(2-4)] Cons.prems(4) show ?case
    by auto
qed

text \<open>
  C32. The string queue round trip: non-empty strings of at most 65535 bytes written one after
  another to the back of an emptied buffer, with one byte to spare, are all accepted and are
  read back from the front in the order they were written, leaving nothing behind.
\<close>

theorem strings_roundtrip:
  assumes "buf_wf b" "buf_in h b" "b_size b = 0"
    and "\<forall>s\<in>set ss. s \<noteq> [] \<and> length s < 65536"
    and "w_pre (win b) + int (length (concat (map frame ss))) < w_cap (win b)"
  shows "\<exists>h' b' b''. writeStrings h b ss = Inr (h', b', True)
    \<and> readStrings h' b' (length ss) = Inr (b'', ss) \<and> content h' b'' = Inr []"
proof -
  have "content h b = Inr []"
    using content_ok[OF assms(1,2)] assms(3) by auto
  moreover have "w_len (win b) = 0" using assms(3) by (simp add: win_def)
  ultimately obtain h' b' where 1: "writeStrings h b ss = Inr (h', b', True)"
    "buf_wf b'" "buf_in h' b'" "content h' b' = Inr (concat (map frame ss) @ [])"
    using writeStrings_content[OF assms(1,2), of "[]" ss] assms(4,5) by auto
  from readStrings_content[OF this(2-4)] assms(4) 1(1) show ?thesis
    by blast
qed

section \<open>What an allocator of buffers promises\<close>

text \<open>
  The contract a holder of buffers relies on: \<open>owns s out\<close> says that the buffers starting at
  \<open>out\<close> are handed out by \<open>s\<close>. Allocating never fails and hands out a whole buffer, in
  allocated memory, apart from all the others; giving back a buffer that is out is accepted.
\<close>

datatype pool_req = Alloc | Release nat

fun serve :: "('s \<Rightarrow> ('s \<times> buffer) res) \<Rightarrow> ('s \<Rightarrow> buffer \<Rightarrow> 's) \<Rightarrow> 's \<Rightarrow> buffer list \<Rightarrow>
    pool_req list \<Rightarrow> ('s \<times> buffer list) res" where
  "serve alloc give s held [] = Inr (s, held)"
| "serve alloc give s held (Alloc # rs) =
     rbind (alloc s) (\<lambda>(s', b). serve alloc give s' (b # held) rs)"
| "serve alloc give s held (Release k # rs) =
     (if k < length held
      then serve alloc give (give s (held ! k)) (take k held @ drop (Suc k) held) rs
      else serve alloc give s held rs)"

definition apart :: "u32 \<Rightarrow> buffer list \<Rightarrow> bool" where
  "apart slot held \<longleftrightarrow> (\<forall>i < length held. \<forall>j < length held. i \<noteq> j \<longrightarrow>
     disjoint_ranges (b_internal (held ! i)) (unat slot) (b_internal (held ! j)) (unat slot))"

locale allocator =
  fixes alloc :: "'s \<Rightarrow> ('s \<times> buffer) res"
    and give :: "'s \<Rightarrow> buffer \<Rightarrow> 's"
    and memory :: "'s \<Rightarrow> heap"
    and slot :: u32
    and owns :: "'s \<Rightarrow> ptr multiset \<Rightarrow> bool"
  assumes alloc_ok: "owns s out \<Longrightarrow>
      \<exists>s' p. alloc s = Inr (s', mkBuffer p slot) \<and> owns s' (add_mset p out)"
    and give_ok: "owns s (add_mset (b_internal b) out) \<Longrightarrow> owns (give s b) out"
    and owns_sep: "owns s (add_mset p (add_mset q out)) \<Longrightarrow>
      disjoint_ranges p (unat slot) q (unat slot)"
    and owns_mem: "owns s (add_mset p out) \<Longrightarrow> in_bounds (memory s) p (unat slot)"
begin

abbreviation starts :: "buffer list \<Rightarrow> ptr multiset" where
  "starts held \<equiv> mset (map b_internal held)"

lemma owns_apart:
  assumes "owns s (starts held)"
  shows "apart slot held"
  unfolding apart_def
proof (intro allI impI)
  fix i j
  assume ij: "i < length held" "j < length held" "i \<noteq> j"
  let ?xs = "map b_internal held"
  have "mset ?xs = add_mset (?xs ! i) (mset (take i ?xs @ drop (Suc i) ?xs))"
    using ij(1) by (subst id_take_nth_drop[of i ?xs]) simp_all
  moreover have "?xs ! j \<in> set (take i ?xs @ drop (Suc i) ?xs)"
  proof (cases "j < i")
    case True
    then have "?xs ! j = take i ?xs ! j" "j < length (take i ?xs)"
      using ij by simp_all
    then show ?thesis by (metis UnCI nth_mem set_append)
  next
    case False
    then have "?xs ! j = drop (Suc i) ?xs ! (j - Suc i)" "j - Suc i < length (drop (Suc i) ?xs)"
      using ij by simp_all
    then show ?thesis by (metis UnCI nth_mem set_append)
  qed
  then obtain rest where "mset (take i ?xs @ drop (Suc i) ?xs) = add_mset (?xs ! j) rest"
    by (metis set_mset_mset multi_member_split)
  ultimately have "owns s (add_mset (?xs ! i) (add_mset (?xs ! j) rest))"
    using assms by simp
  from owns_sep[OF this] show
    "disjoint_ranges (b_internal (held ! i)) (unat slot) (b_internal (held ! j)) (unat slot)"
    using ij by simp
qed

lemma serve_safe:
  "owns s (starts held) \<Longrightarrow>
     \<exists>s' held'. serve alloc give s held rs = Inr (s', held') \<and> owns s' (starts held') \<and> apart slot held'"
proof (induction rs arbitrary: s held)
  case Nil
  then show ?case by (simp add: owns_apart)
next
  case (Cons r rs)
  show ?case
  proof (cases r)
    case Alloc
    obtain s' p where "alloc s = Inr (s', mkBuffer p slot)" "owns s' (add_mset p (starts held))"
      using alloc_ok[OF Cons.prems] by blast
    with Cons.IH[of s' "mkBuffer p slot # held"] Alloc show ?thesis
      by (simp add: mkBuffer_def)
  next
    case (Release k)
    show ?thesis
    proof (cases "k < length held")
      case True
      let ?held = "take k held @ drop (Suc k) held"
      have "starts held = add_mset (b_internal (held ! k)) (starts ?held)"
        using True by (subst id_take_nth_drop[of k held]) simp_all
      then have "owns (give s (held ! k)) (starts ?held)"
        using Cons.prems by (intro give_ok) simp
      with Cons.IH[of "give s (held ! k)" ?held] True Release show ?thesis by simp
    next
      case False
      with Cons Release show ?thesis by simp
    qed
  qed
qed

end

section \<open>The pool keeps that contract\<close>

text \<open>The slots of the chunks, in the order \<open>_allocChunk\<close> makes them.\<close>

definition chunk_slots :: "u32 \<Rightarrow> u32 \<Rightarrow> ptr \<Rightarrow> ptr list" where
  "chunk_slots bs n c = map (\<lambda>i. padd c (int (i * unat bs))) [0..<unat n]"

definition slots :: "u32 \<Rightarrow> pool \<Rightarrow> ptr list" where
  "slots bs p = concat (map (chunk_slots bs (buffersPerChunk p)) (memoryChunks p))"

definition pool_owns :: "u32 \<Rightarrow> heap \<times> pool \<Rightarrow> ptr multiset \<Rightarrow> bool" where
  "pool_owns bs s out = (case s of (h, p) \<Rightarrow>
     0 < unat bs \<and> 0 < unat (buffersPerChunk p)
     \<and> unat bs * unat (buffersPerChunk p) < 4294967296
     \<and> heap_wf h \<and> distinct (map blk (memoryChunks p))
     \<and> (\<forall>c\<in>set (memoryChunks p).
          off c = 0 \<and> in_bounds h c (unat bs * unat (buffersPerChunk p)))
     \<and> mset (available p) + out = mset (slots bs p))"

definition pool_take :: "u32 \<Rightarrow> heap \<times> pool \<Rightarrow> ((heap \<times> pool) \<times> buffer) res" where
  "pool_take bs s = (case s of (h, p) \<Rightarrow>
     rbind (pool_alloc bs h p) (\<lambda>(h', p', b). Inr ((h', p'), b)))"

definition pool_give :: "heap \<times> pool \<Rightarrow> buffer \<Rightarrow> heap \<times> pool" where
  "pool_give s b = (case s of (h, p) \<Rightarrow> (h, pool_free p b))"

lemma foldl_push: "foldl (\<lambda>st i. f i # st) st is = rev (map f is) @ st"
  by (induction "is" arbitrary: st) simp_all

lemma sorted_wrt_pick:
  assumes "sorted_wrt R xs" "symp R" "mset xs = add_mset p (add_mset q M)"
  shows "R p q"
  using assms
proof (induction xs arbitrary: M)
  case Nil
  then show ?case by simp
next
  case (Cons x xs)
  have rest: "add_mset x (mset xs) = add_mset p (add_mset q M)" using Cons.prems(3) by simp
  consider "x = p" "mset xs = add_mset q M" | "x = q" "mset xs = add_mset p M"
    | N where "mset xs = add_mset p (add_mset q N)"
    using rest by (auto simp: add_eq_conv_ex)
  then show ?case
  proof cases
    case 1
    then have "q \<in> set xs" by (metis set_mset_mset union_single_eq_member)
    with Cons.prems(1) 1 show ?thesis by simp
  next
    case 2
    then have "p \<in> set xs" by (metis set_mset_mset union_single_eq_member)
    with Cons.prems(1,2) 2 show ?thesis by (auto dest: sympD)
  next
    case 3
    with Cons.IH Cons.prems(1,2) show ?thesis by simp
  qed
qed

abbreviation slot_apart :: "u32 \<Rightarrow> ptr \<Rightarrow> ptr \<Rightarrow> bool" where
  "slot_apart bs p q \<equiv> disjoint_ranges p (unat bs) q (unat bs)"

lemma chunk_slots_apart: "sorted_wrt (slot_apart bs) (chunk_slots bs n c)"
proof -
  have "i * unat bs + unat bs \<le> j * unat bs" if "i < j" for i j
    using that mult_le_mono1[of "Suc i" j "unat bs"] by simp
  then have "int (i * unat bs + unat bs) \<le> int (j * unat bs)" if "i < j" for i j
    using that by (simp only: of_nat_le_iff)
  then have "slot_apart bs (padd c (int (i * unat bs))) (padd c (int (j * unat bs)))"
    if "i < j" for i j
    using that by (simp add: disjoint_ranges_def)
  then show ?thesis
    by (simp add: chunk_slots_def sorted_wrt_iff_nth_less)
qed

lemma chunk_slots_blk: "p \<in> set (chunk_slots bs n c) \<Longrightarrow> blk p = blk c"
  by (auto simp: chunk_slots_def)

lemma slots_apart:
  "distinct (map blk cs) \<Longrightarrow> sorted_wrt (slot_apart bs) (concat (map (chunk_slots bs n) cs))"
proof (induction cs)
  case Nil
  then show ?case by simp
next
  case (Cons c cs)
  have "slot_apart bs p q"
    if "p \<in> set (chunk_slots bs n c)" "q \<in> set (chunk_slots bs n d)" "d \<in> set cs" for p q d
    using that Cons.prems by (force dest: chunk_slots_blk simp: disjoint_ranges_def)
  with Cons show ?case
    by (auto simp: sorted_wrt_append chunk_slots_apart)
qed

lemma slots_in_bounds:
  assumes "p \<in> set (chunk_slots bs n c)" "in_bounds h c (unat bs * unat n)"
  shows "in_bounds h p (unat bs)"
proof -
  obtain i where i: "i < unat n" "p = padd c (int (i * unat bs))"
    using assms(1) by (auto simp: chunk_slots_def)
  have "i * unat bs + unat bs \<le> unat bs * unat n"
    using i(1) mult_le_mono1[of "Suc i" "unat n" "unat bs"] by (simp add: mult.commute)
  then have "int (i * unat bs) + int (unat bs) \<le> int (unat bs * unat n)"
    by (metis of_nat_add of_nat_le_iff)
  then show ?thesis
    unfolding i(2) by (intro in_bounds_sub[OF assms(2)]) simp_all
qed

lemma allocChunk_owns:
  assumes "pool_owns bs (h, p) out"
  shows "pool_owns bs (allocChunk bs h p) out"
proof -
  let ?N = "unat (buffersPerChunk p)"
  obtain h' d where new: "heap_new h (unat (bs * buffersPerChunk p)) = (h', d)"
    by fastforce
  have o: "heap_wf h" "unat bs * ?N < 4294967296"
    using assms by (simp_all add: pool_owns_def)
  have total: "unat (bs * buffersPerChunk p) = unat bs * ?N"
    using o(2) by (simp add: unat_word_ariths)
  have step: "uint (of_nat i * bs) = int (i * unat bs)" if "i < ?N" for i
  proof -
    have "i * unat bs \<le> unat bs * ?N"
      using mult_le_mono1[OF less_imp_le[OF that], of "unat bs"] by (simp add: mult.commute)
    with o(2) have "i * unat bs < 4294967296" by linarith
    moreover have "i < 4294967296"
      using that uint_lt2p[of "buffersPerChunk p"] by (simp add: uint_nat del: of_nat_unat)
    ultimately show ?thesis
      by (simp add: uint_nat unat_word_ariths unat_of_nat del: of_nat_unat)
  qed
  have pushed: "available (snd (allocChunk bs h p))
      = rev (chunk_slots bs (buffersPerChunk p) d) @ available p"
    using new step by (simp add: allocChunk_def foldl_push chunk_slots_def)
  have chunks: "memoryChunks (snd (allocChunk bs h p)) = memoryChunks p @ [d]"
    "buffersPerChunk (snd (allocChunk bs h p)) = buffersPerChunk p" "fst (allocChunk bs h p) = h'"
    using new by (simp_all add: allocChunk_def)
  have "in_bounds h' d (unat bs * ?N)" "off d = 0"
    using heap_new_in_bounds[OF new, of 0] total new by (auto simp: heap_new_def)
  moreover have "in_bounds h' c (unat bs * ?N) \<and> blk c \<noteq> blk d" if "c \<in> set (memoryChunks p)" for c
  proof -
    have "in_bounds h c (unat bs * ?N)" using assms that by (simp add: pool_owns_def)
    from heap_new_old[OF o(1) new this] show ?thesis by simp
  qed
  ultimately show ?thesis
    using assms heap_new_wf[OF o(1) new] chunks pushed
    by (force simp: pool_owns_def slots_def split_beta)
qed

lemma pool_take_owns:
  assumes "pool_owns bs s out"
  shows "\<exists>s' p. pool_take bs s = Inr (s', mkBuffer p bs) \<and> pool_owns bs s' (add_mset p out)"
proof -
  obtain h p where s: "s = (h, p)" by fastforce
  let ?s = "if available p = [] then allocChunk bs h p else (h, p)"
  obtain h1 p1 where 1: "?s = (h1, p1)" by fastforce
  then have o1: "pool_owns bs (h1, p1) out"
    using allocChunk_owns[of bs h p out] assms s by (auto split: if_splits)
  have "available p1 \<noteq> []"
  proof (cases "available p = []")
    case True
    then show ?thesis
      using 1 assms s by (auto simp: allocChunk_def foldl_push pool_owns_def split: prod.splits)
  next
    case False
    with 1 show ?thesis by simp
  qed
  then obtain d rest where d: "available p1 = d # rest" by (cases "available p1") auto
  then have "pool_owns bs (h1, p1\<lparr>available := rest\<rparr>) (add_mset d out)"
    using o1 by (simp add: pool_owns_def slots_def)
  with 1 d s show ?thesis
    by (auto simp: pool_take_def pool_alloc_def)
qed

interpretation pool: allocator "pool_take bs" pool_give fst bs "pool_owns bs" for bs
proof unfold_locales
  show "\<exists>s' p. pool_take bs s = Inr (s', mkBuffer p bs) \<and> pool_owns bs s' (add_mset p out)"
    if "pool_owns bs s out" for s out
    using that by (rule pool_take_owns)
  show "pool_owns bs (pool_give s b) out" if "pool_owns bs s (add_mset (b_internal b) out)" for s b out
    using that by (cases s) (simp add: pool_owns_def pool_give_def pool_free_def slots_def)
  show "slot_apart bs p q" if "pool_owns bs s (add_mset p (add_mset q out))" for s p q out
  proof -
    obtain h pl where s: "s = (h, pl)" by fastforce
    have "sorted_wrt (slot_apart bs) (slots bs pl)"
      using that s by (auto simp: pool_owns_def slots_def intro: slots_apart)
    moreover have "symp (slot_apart bs)"
      by (auto simp: symp_def disjoint_ranges_def)
    moreover have "mset (slots bs pl) = add_mset p (add_mset q (out + mset (available pl)))"
      using that s by (simp add: pool_owns_def add.commute)
    ultimately show ?thesis
      by (rule sorted_wrt_pick)
  qed
  show "in_bounds (fst s) p (unat bs)" if "pool_owns bs s (add_mset p out)" for s p out
  proof -
    obtain h pl where s: "s = (h, pl)" by fastforce
    have "mset (slots bs pl) = add_mset p (mset (available pl) + out)"
      using that s by (simp add: pool_owns_def)
    then have "p \<in> set (slots bs pl)"
      by (metis set_mset_mset union_single_eq_member)
    with that s show ?thesis
      by (auto simp: slots_def pool_owns_def intro: slots_in_bounds)
  qed
qed

text \<open>
  C34. The pool serves any client that returns only what it holds: starting empty, with a
  slot size and a chunk length that are positive and whose product is a \<open>uint32_t\<close>, every
  sequence of allocations and releases succeeds, the buffers held at the end lie in
  allocated memory and do not overlap, and \<open>consumedCount\<close> is their number.
\<close>

theorem pool_serves:
  assumes "heap_wf h" "0 < bs" "0 < n" "unat bs * unat n < 4294967296"
  shows "\<exists>h' p' held. serve (pool_take bs) pool_give (h, newPool n) [] rs = Inr ((h', p'), held)
    \<and> apart bs held \<and> (\<forall>b\<in>set held. in_bounds h' (b_internal b) (unat bs))
    \<and> consumedCount p' = of_nat (length held)"
proof -
  have "pool_owns bs (h, newPool n) (mset (map b_internal []))"
    using assms by (simp add: pool_owns_def newPool_def slots_def word_less_nat_alt)
  then obtain s' held where
    run: "serve (pool_take bs) pool_give (h, newPool n) [] rs = Inr (s', held)"
    and own: "pool_owns bs s' (mset (map b_internal held))" and ap: "apart bs held"
    using pool.serve_safe by blast
  obtain h' p' where s': "s' = (h', p')" by fastforce
  have mem: "in_bounds h' (b_internal b) (unat bs)" if "b \<in> set held" for b
  proof -
    from that have "b_internal b \<in># mset (map b_internal held)" by simp
    then obtain out where "mset (map b_internal held) = add_mset (b_internal b) out"
      by (metis multi_member_split)
    with own pool.owns_mem[of bs s' "b_internal b" out] s' show ?thesis by simp
  qed
  have "length (slots bs p') = length (memoryChunks p') * unat (buffersPerChunk p')"
    by (simp add: slots_def chunk_slots_def length_concat comp_def sum_list_triv)
  moreover have "size (mset (available p') + mset (map b_internal held)) = size (mset (slots bs p'))"
    using own s' by (simp add: pool_owns_def)
  ultimately have "length (available p') + length held
      = length (memoryChunks p') * unat (buffersPerChunk p')"
    by simp
  then have "(of_nat (length (available p') + length held) :: u32)
      = of_nat (length (memoryChunks p') * unat (buffersPerChunk p'))"
    by (rule arg_cong)
  then have "of_nat (length (available p')) + of_nat (length held)
      = (of_nat (length (memoryChunks p')) * buffersPerChunk p' :: u32)"
    by simp
  then have "consumedCount p' = of_nat (length held)"
    by (simp add: consumedCount_def allCount_def availableCount_def algebra_simps)
  with run s' ap mem show ?thesis by blast
qed

text \<open>
  \<open>free\<close> checks nothing. Freeing a buffer and allocating gives the same memory back and
  restores the pool; freeing it twice makes the next two allocations hand out the same
  memory, so the pool's promise rests on its clients freeing only what they hold.
\<close>

theorem pool_free_twice:
  "pool_alloc bs h (pool_free p b) = Inr (h, p, mkBuffer (b_internal b) bs)
   \<and> pool_alloc bs h (pool_free (pool_free p b) b)
       = Inr (h, pool_free p b, mkBuffer (b_internal b) bs)"
  by (simp add: pool_alloc_def pool_free_def)

text \<open>
  Writing a string of at most 65535 bytes to the back of a well-formed buffer never
  faults: if it leaves at least one byte of the block free behind it, its length-prefixed
  form is appended to the content; otherwise it is refused and nothing changes. The test
  \<open>>=\<close> refuses a string that would exactly fill the block.
\<close>

theorem writeStringToBack_total:
  assumes wf: "buf_wf b" and mem: "buf_in h b" and len: "length s < 65536"
  shows "\<exists>bs. content h b = Inr bs \<and>
    (if w_pre (win b) + w_len (win b) + int (length s) + 2 < w_cap (win b)
     then \<exists>h' b'. writeStringToBack h b s = Inr (h', b', True) \<and> content h' b' = Inr (bs @ frame s)
            \<and> buf_wf b' \<and> buf_in h' b'
     else writeStringToBack h b s = Inr (h, b, False))"
proof -
  obtain bs where bs: "content h b = Inr bs"
    using content_ok[OF wf mem] by blast
  have refuse: "writeStringToBack h b s = Inr (h, b, False)"
    if f: "\<not> w_pre (win b) + w_len (win b) + int (length s) + 2 < w_cap (win b)"
  proof -
    note n = buf_wf_numbers[OF wf] and u = uint_spaces[OF wf]
    have wl: "uint (b_size b) = w_len (win b)" by (simp add: win_def)
    have ul: "uint (ucast (of_nat (length s) :: u16) :: u32) = int (length s)"
      using len by (simp add: uint_nat unat_of_nat del: of_nat_unat)
    have s1: "uint (b_size b + ucast (of_nat (length s) :: u16)) = uint (b_size b) + int (length s)"
      using n wl ul len by (subst uint_add_lt) simp_all
    have s2: "uint (b_size b + ucast (of_nat (length s) :: u16) + 2)
        = uint (b_size b) + int (length s) + 2"
      using n wl len by (subst uint_add_lt) (simp_all add: s1)
    have "uint (b_size b + suffixSpace b) = w_cap (win b) - w_pre (win b)"
      using n u wl by (subst uint_add_lt) simp_all
    then show ?thesis
      using f wl s2
      by (simp add: writeStringToBack_def writeBufferToBack_def writeBuffer_def word_le_def)
  qed
  show ?thesis
    using writeStringToBack_spec[OF wf mem bs len] refuse bs by auto
qed

section \<open>Instances\<close>

text \<open>A block of 20 bytes, as in the tests of the repository, and the buffer over it.\<close>

definition demo_heap :: heap where
  "demo_heap = \<lparr>blocks = [0 \<mapsto> replicate 20 0], next_block = 1, junk = (\<lambda>_. 0)\<rparr>"

definition demo_buffer :: buffer where
  "demo_buffer = mkBuffer (Ptr 0 0) 20"

lemma demo_ok:
  "buf_wf demo_buffer" "buf_in demo_heap demo_buffer" "heap_wf demo_heap"
  by (simp_all add: demo_buffer_def demo_heap_def mkBuffer_def buf_wf_def win_ok_def win_def
      buf_in_def in_bounds_def heap_wf_def)

lemma demo_empty_ok:
  "buf_wf (setSize demo_buffer 0)" "buf_in demo_heap (setSize demo_buffer 0)"
  using buf_step_wf[of demo_buffer "SetSize 0"] demo_ok by (simp_all add: buf_in_def)

theorem buffer_refines_window_witness:
  "buf_wf demo_buffer
   \<and> win (foldl buf_step demo_buffer [SetSize 10, Shift 3, MoveFront (-2), MoveBack 8])
       = \<lparr>w_pre = 1, w_len = 12, w_cap = 20\<rparr>"
proof -
  have ok: "\<forall>x\<in>set [SetSize 10, Shift 3, MoveFront (-2), MoveBack 8]. op_ok x"
    by simp
  have "foldl win_step (win demo_buffer) [SetSize 10, Shift 3, MoveFront (-2), MoveBack 8]
      = \<lparr>w_pre = 1, w_len = 12, w_cap = 20\<rparr>"
    by (simp add: demo_buffer_def mkBuffer_def win_def)
  then show ?thesis
    using buffer_refines_window[OF demo_ok(1) ok] demo_ok(1) ok by metis
qed

theorem readStringFromFront_safe_witness:
  "buf_wf demo_buffer \<and> buf_in demo_heap demo_buffer
   \<and> (\<exists>s b'. readStringFromFront demo_heap demo_buffer = Inr (b', s))"
  using readStringFromFront_safe[OF demo_ok(1,2)] demo_ok by blast

theorem strings_roundtrip_witness:
  "\<exists>h' b' b''. writeStrings demo_heap (setSize demo_buffer 0) [[104, 105], [33]] = Inr (h', b', True)
    \<and> readStrings h' b' (length [[104, 105], [33 :: u8]]) = Inr (b'', [[104, 105], [33]])
    \<and> content h' b'' = Inr []"
  by (rule strings_roundtrip[OF demo_empty_ok])
     (simp_all add: demo_buffer_def mkBuffer_def setSize_def win_def frame_def bytes16_def
        prefixSpace_def)

theorem pool_serves_witness:
  "\<exists>h' p' held. serve (pool_take 1600) pool_give (demo_heap, newPool 32) []
      [Alloc, Alloc, Release 1, Alloc] = Inr ((h', p'), held)
    \<and> apart 1600 held \<and> consumedCount p' = of_nat (length held)"
  using pool_serves[OF demo_ok(3), of 1600 32 "[Alloc, Alloc, Release 1, Alloc]"] by auto

theorem writeStringToBack_total_witness:
  "writeStringToBack demo_heap demo_buffer [1, 2, 3] = Inr (demo_heap, demo_buffer, False)"
  using writeStringToBack_total[OF demo_ok(1,2), of "[1, 2, 3]"]
  by (simp add: demo_buffer_def mkBuffer_def win_def)

end
