(* ===== verification/Checksum.thy ===== *)
theory Checksum
  imports Memory
begin

text \<open>
  The two loops that \<open>Ip4::calculateChecksum\<close> and \<open>Tcp::calculateChecksum\<close> share: adding up
  the big-endian 16-bit words of a range, one of them skipped, and folding the carries back.
  The reference is the Internet checksum of RFC 1071: the sum modulo 65535, represented by
  65535 rather than 0 unless every word is zero.
\<close>

section \<open>The loops\<close>

text \<open>
  \<open>for (int i = 0; i < len; i += 2) if (i != skip) sum += (data[i] << 8) + data[i + 1]\<close>.
  The right operand is an \<open>int\<close> of at most 65535, added to the \<open>uint32_t\<close>.
\<close>

function sum_words :: "heap \<Rightarrow> ptr \<Rightarrow> nat \<Rightarrow> nat \<Rightarrow> nat \<Rightarrow> u32 \<Rightarrow> u32 res" where
  "sum_words h data skip len i acc =
     (if i < len then
        if i \<noteq> skip then
          rbind (load8 h (padd data (int i))) (\<lambda>a.
          rbind (load8 h (padd data (int (i + 1)))) (\<lambda>b.
            sum_words h data skip len (i + 2) (acc + (push_bit 8 (ucast a) + ucast b))))
        else sum_words h data skip len (i + 2) acc
      else Inr acc)"
  by pat_completeness auto
termination
  by (relation "measure (\<lambda>(h, data, skip, len, i, acc). len - i)") auto

declare sum_words.simps [simp del]

lemma unat_drop16: "unat (drop_bit 16 s) = unat s div 65536" for s :: u32
  by (simp only: unat_drop_bit_eq) (simp add: drop_bit_eq_div)

lemma unat_low16: "unat (s AND 65535) = unat s mod 65536" for s :: u32
proof -
  have "s AND 65535 = take_bit 16 s"
    by (simp add: take_bit_eq_mask mask_eq_decr_exp)
  then have "unat (s AND 65535) = take_bit 16 (unat s)"
    by (simp only: unsigned_take_bit_eq)
  then show ?thesis by (simp add: take_bit_eq_mod)
qed

lemma unat_fold_step:
  "unat ((s AND 65535) + drop_bit 16 s) = unat s mod 65536 + unat s div 65536" for s :: u32
proof -
  have "unat s div 65536 < 65536"
    using unat_bound32[of s] by (simp add: less_mult_imp_div_less)
  then show ?thesis
    by (subst unat_add_lt) (simp_all add: unat_low16 unat_drop16)
qed

text \<open>\<open>while (sum >> 16) sum = (sum & 0xffff) + (sum >> 16)\<close>\<close>

function fold_carries :: "u32 \<Rightarrow> u32" where
  "fold_carries s =
     (if drop_bit 16 s \<noteq> 0 then fold_carries ((s AND 65535) + drop_bit 16 s) else s)"
  by pat_completeness auto
termination
proof (relation "measure unat")
  fix s :: u32
  assume "drop_bit 16 s \<noteq> 0"
  then have "unat (drop_bit 16 s) \<noteq> 0"
    by (simp only: unat_0_iff not_False_eq_True)
  then have "0 < unat s div 65536"
    by (simp only: unat_drop16 neq0_conv)
  then have "unat s mod 65536 + unat s div 65536 < unat s"
    using div_mult_mod_eq[of "unat s" 65536] by linarith
  then show "((s AND 65535) + drop_bit 16 s, s) \<in> measure unat"
    by (simp add: unat_fold_step)
qed simp

declare fold_carries.simps [simp del]

text \<open>\<open>return ~sum\<close> as a \<open>uint16_t\<close>.\<close>

definition finish_sum :: "u32 \<Rightarrow> u16" where
  "finish_sum s = ucast (NOT (fold_carries s))"

section \<open>The reference\<close>

definition ones_sum :: "nat \<Rightarrow> nat" where
  "ones_sum n = (if n = 0 then 0 else (n - 1) mod 65535 + 1)"

fun words_sum :: "nat \<Rightarrow> nat \<Rightarrow> bytes \<Rightarrow> nat" where
  "words_sum skip i (a # b # bs) =
     (if i = skip then 0 else 256 * unat a + unat b) + words_sum skip (i + 2) bs"
| "words_sum skip i bs = 0"

lemma ones_sum_small: "n < 65536 \<Longrightarrow> ones_sum n = n"
  by (cases "n = 0") (auto simp: ones_sum_def)

lemma ones_sum_le: "ones_sum n \<le> 65535"
  by (simp add: ones_sum_def Suc_le_eq)

lemma ones_sum_add: "0 < m \<Longrightarrow> ones_sum (m + 65535 * k) = ones_sum m"
proof -
  assume "0 < m"
  then have "m + 65535 * k - 1 = (m - 1) + 65535 * k" by simp
  then have "(m + 65535 * k - 1) mod 65535 = (m - 1) mod 65535"
    by (metis mod_mult_self2)
  with \<open>0 < m\<close> show ?thesis by (simp add: ones_sum_def)
qed

lemma ones_sum_fold: "ones_sum (n mod 65536 + n div 65536) = ones_sum n"
proof (cases "n div 65536 = 0")
  case True
  then show ?thesis by simp
next
  case False
  have "n = n mod 65536 + n div 65536 + 65535 * (n div 65536)"
    using div_mult_mod_eq[of n 65536] by linarith
  with False ones_sum_add[of "n mod 65536 + n div 65536" "n div 65536"] show ?thesis
    by simp
qed

lemma ones_sum_complement: "ones_sum (n + (65535 - ones_sum n)) = 65535"
proof (cases "n = 0")
  case True
  then show ?thesis by (simp add: ones_sum_def)
next
  case False
  let ?r = "(n - 1) mod 65535"
  have r: "?r < 65535" by simp
  have "n = ?r + 1 + 65535 * ((n - 1) div 65535)"
    using False div_mult_mod_eq[of "n - 1" 65535] by linarith
  moreover have "ones_sum n = ?r + 1" using False by (simp add: ones_sum_def)
  ultimately have "n + (65535 - ones_sum n) = 65535 + 65535 * ((n - 1) div 65535)"
    using r by linarith
  then show ?thesis
    by (simp only: ones_sum_add) (simp add: ones_sum_def)
qed

lemma fold_carries_ones_sum_aux: "unat (fold_carries s) = ones_sum (unat s)"
proof (induction s rule: fold_carries.induct)
  case (1 s)
  show ?case
  proof (cases "drop_bit 16 s = 0")
    case True
    then have "unat s div 65536 = 0" by (metis unat_0 unat_drop16)
    then have "unat s < 65536" by (simp add: div_eq_0_iff)
    with True show ?thesis by (simp add: fold_carries.simps[of s] ones_sum_small)
  next
    case False
    with 1 show ?thesis
      by (simp add: fold_carries.simps[of s] unat_fold_step ones_sum_fold)
  qed
qed

lemma unat_finish_sum: "unat (finish_sum s) = 65535 - ones_sum (unat s)"
proof -
  let ?f = "fold_carries s"
  have f: "unat ?f = ones_sum (unat s)" by (rule fold_carries_ones_sum_aux)
  have "finish_sum s = NOT (ucast ?f)"
    by (rule bit_word_eqI) (simp add: finish_sum_def bit_simps)
  then have "finish_sum s = - 1 - ucast ?f"
    by (simp add: not_eq_complement)
  moreover have "ucast ?f \<le> (- 1 :: u16)" by simp
  ultimately have "unat (finish_sum s) = unat (- 1 :: u16) - unat (ucast ?f :: u16)"
    by (simp only: unat_sub)
  moreover have "unat (ucast ?f :: u16) = unat ?f"
    using ones_sum_le[of "unat s"] by (simp add: f unsigned_ucast_eq take_bit_nat_eq_self)
  ultimately show ?thesis by (simp add: f unsigned_minus_1_eq_mask mask_eq_exp_minus_1)
qed

lemma verify_finish: "ones_sum (unat s + unat (finish_sum s)) = 65535"
  by (simp add: unat_finish_sum ones_sum_complement)

section \<open>The word loop adds up the words\<close>

lemma word16_of_bytes: "push_bit 8 (ucast a) + ucast b = (of_nat (256 * unat a + unat b) :: u32)"
  by (simp add: push_bit_eq_mult)

lemma load8_at:
  "load_bytes h (padd p i) (Suc n) = Inr (x # xs) \<Longrightarrow> load8 h (padd p i) = Inr x"
  using byte.ld_sub[of h "padd p i" "Suc n" "x # xs" 0] by (simp add: slice_def)

lemma load_bytes_tl:
  "load_bytes h (padd p i) (Suc n) = Inr (x # xs) \<Longrightarrow> load_bytes h (padd p (i + 1)) n = Inr xs"
  using load_bytes_sub[of h "padd p i" "Suc n" "x # xs" 1 n] load_bytes_length[of h "padd p i" "Suc n"]
  by (simp add: slice_def)

lemma sum_words_prefix:
  assumes "load_bytes h (padd data (int i)) (length bs) = Inr bs" "even (length bs)"
    and "i + length bs \<le> len"
  shows "sum_words h data skip len i acc
    = sum_words h data skip len (i + length bs) (acc + of_nat (words_sum skip i bs))"
  using assms
proof (induction skip i bs arbitrary: acc rule: words_sum.induct)
  case (1 skip i a b bs)
  let ?p = "padd data (int i)"
  have ld: "load_bytes h ?p (Suc (Suc (length bs))) = Inr (a # b # bs)"
    using "1.prems"(1) by simp
  have a: "load8 h (padd data (int i)) = Inr a"
    using ld by (rule load8_at)
  have t: "load_bytes h (padd data (int i + 1)) (Suc (length bs)) = Inr (b # bs)"
    using ld by (rule load_bytes_tl)
  have b: "load8 h (padd data (int (i + 1))) = Inr b"
    using load8_at[OF t] by (simp add: add.commute)
  have "load_bytes h (padd data (int (i + 2))) (length bs) = Inr bs"
    using load_bytes_tl[OF t] by (simp add: algebra_simps)
  then have IH: "sum_words h data skip len (i + 2) acc'
      = sum_words h data skip len (i + 2 + length bs) (acc' + of_nat (words_sum skip (i + 2) bs))" for acc'
    using "1.IH" "1.prems"(2,3) by simp
  have l: "i + length (a # b # bs) = i + 2 + length bs" "i < len" using "1.prems"(3) by simp_all
  have "sum_words h data skip len i acc
      = sum_words h data skip len (i + 2) (acc + (if i = skip then 0 else of_nat (256 * unat a + unat b)))"
    using l(2) by (subst sum_words.simps) (simp add: a b [simplified] word16_of_bytes)
  then show ?case
    unfolding l(1) by (simp only: IH) (simp add: add.assoc)
qed simp_all

lemma sum_words_eq:
  assumes "load_bytes h (padd data (int i)) (length bs) = Inr bs" "even (length bs)"
  shows "sum_words h data skip (i + length bs) i acc = Inr (acc + of_nat (words_sum skip i bs))"
  using sum_words_prefix[OF assms order_refl] by (simp add: sum_words.simps)

text \<open>A sum has read every byte but the skipped ones, and can only fail by reading outside.\<close>

lemma sum_words_reads:
  assumes "sum_words h data skip len i acc = Inr s" "even i" "even skip" "i \<le> j" "j < len" "j \<noteq> skip" "j \<noteq> skip + 1"
  shows "in_bounds h (padd data (int j)) 1"
  using assms
proof (induction h data skip len i acc rule: sum_words.induct)
  case (1 h data skip len i acc)
  show ?case
  proof (cases "i = skip")
    case True
    with "1.prems"(4,5) have "sum_words h data skip len i acc = sum_words h data skip len (i + 2) acc"
      by (subst sum_words.simps) simp
    then have "sum_words h data skip len (i + 2) acc = Inr s" using "1.prems"(1) by simp
    with "1.IH"(2) True "1.prems" show ?thesis by auto
  next
    case False
    then obtain a b where ab: "load8 h (padd data (int i)) = Inr a" "load8 h (padd data (int (i + 1))) = Inr b"
      "sum_words h data skip len (i + 2) (acc + (push_bit 8 (ucast a) + ucast b)) = Inr s"
      using "1.prems"(1,4,5) by (auto simp: sum_words.simps[of _ _ _ _ i] res_iffs)
    consider "j = i" | "j = i + 1" | "i + 2 \<le> j" using "1.prems"(4) by linarith
    then show ?thesis
    proof cases
      case 3
      have "i < len" using "1.prems"(4,5) by simp
      from "1.IH"(1)[OF this False ab(1,2,3)] 3 "1.prems" show ?thesis by simp
    qed (use ab in \<open>auto simp: load8_def load_bytes_def res_iffs split: if_splits\<close>)
  qed
qed

lemma load8_fault: "load8 h p = Inl e \<Longrightarrow> e = OutOfBounds"
  by (auto simp: load8_def load_bytes_def split: if_splits)

lemma sum_words_fault: "sum_words h data skip len i acc = Inl e \<Longrightarrow> e = OutOfBounds"
proof (induction h data skip len i acc rule: sum_words.induct)
  case (1 h data skip len i acc)
  from "1.prems" show ?case
    by (subst (asm) sum_words.simps)
      (auto simp: rbind_def split: if_splits sum.splits dest: load8_fault intro: "1.IH")
qed

text \<open>The skipped word may change without changing the sum.\<close>

lemma sum_words_skip:
  assumes "store16 h (padd data (int skip)) w = Inr h'" "even skip" "even i"
  shows "sum_words h' data skip len i acc = sum_words h data skip len i acc"
  using assms(3)
proof (induction "len - i" arbitrary: i acc rule: less_induct)
  case less
  have other: "load8 h' (padd data (int k)) = load8 h (padd data (int k))"
    if "k \<noteq> skip" "k \<noteq> Suc skip" for k
    using assms(1) that unfolding store16_def
    by (intro byte.ld_st_disjoint) (auto simp: disjoint_ranges_def)
  have IH: "sum_words h' data skip len (Suc (Suc i)) acc' = sum_words h data skip len (Suc (Suc i)) acc'"
    if "i < len" for acc'
    using that less.hyps[of "Suc (Suc i)" acc'] less.prems by simp
  show ?case
  proof (cases "i < len \<and> i \<noteq> skip")
    case True
    moreover have "i \<noteq> Suc skip" "Suc i \<noteq> skip"
      using less.prems assms(2) by auto
    ultimately show ?thesis
      using IH True other[of i] other[of "Suc i"] by (simp add: sum_words.simps[of _ _ _ _ i])
  next
    case False
    then show ?thesis
      using IH by (auto simp: sum_words.simps[of _ _ _ _ i])
  qed
qed

section \<open>Adding the checksum back in\<close>

fun words_total :: "bytes \<Rightarrow> nat" where
  "words_total (a # b # bs) = 256 * unat a + unat b + words_total bs"
| "words_total bs = 0"

lemma words_sum_past: "skip < i \<Longrightarrow> words_sum skip i bs = words_total bs"
  by (induction skip i bs rule: words_sum.induct) simp_all

lemma words_sum_le: "words_sum skip i bs \<le> 65535 * (length bs div 2)"
proof (induction skip i bs rule: words_sum.induct)
  case (1 skip i a b bs)
  have "unat a < 256" "unat b < 256"
    by (rule unat_bound8)+
  then have "256 * unat a + unat b \<le> 65535" by linarith
  with 1 show ?case by (cases "i = skip") simp_all
qed simp_all

lemma words_total_patch:
  assumes "2 * m + 2 \<le> length bs"
  shows "words_total (patch (2 * m) [a, b] bs) = words_sum (i + 2 * m) i bs + (256 * unat a + unat b)"
  using assms
proof (induction m arbitrary: i bs)
  case 0
  then obtain x y rest where "bs = x # y # rest"
    by (cases bs rule: words_total.cases) auto
  then show ?case by (simp add: patch_def words_sum_past)
next
  case (Suc m)
  then obtain x y rest where bs: "bs = x # y # rest"
    by (cases bs rule: words_total.cases) auto
  with Suc.prems Suc.IH[of rest "i + 2"] show ?case
    by (simp add: patch_def)
qed

lemma unat_be16: "unat (be16 a b) = 256 * unat a + unat b"
proof -
  have "be16 a b = push_bit 8 (ucast a) + ucast b"
    unfolding be16_def by (rule disjunctive_add [symmetric]) (auto simp: bit_simps dest: bit_imp_le_length)
  also have "\<dots> = of_nat (256 * unat a + unat b)"
    by (simp add: push_bit_eq_mult)
  finally have "be16 a b = of_nat (256 * unat a + unat b)" .
  moreover have "unat a < 256" "unat b < 256"
    by (rule unat_bound8)+
  ultimately show ?thesis by (simp only: unat_of_nat) simp
qed

lemma bytes16_value: "bytes16 w = [a, b] \<Longrightarrow> 256 * unat a + unat b = unat w"
  by (metis be16_bytes16 bytes16_def list.inject unat_be16)

lemma words_total_patch16:
  assumes "even k" "k + 2 \<le> length bs"
  shows "words_total (patch k (bytes16 w) bs) = words_sum k 0 bs + unat w"
proof -
  obtain a b where ab: "bytes16 w = [a, b]" by (simp add: bytes16_def)
  obtain m where m: "k = 2 * m" using assms(1) by (rule evenE)
  show ?thesis
    using words_total_patch[of m bs a b 0] assms(2) m ab bytes16_value[OF ab] by simp
qed

section \<open>What writing a checksum in place promises\<close>

text \<open>
  The contract that \<open>Ip4\<close> and \<open>Tcp\<close> share: \<open>calc\<close> computes a checksum that does not depend
  on the checksum field at \<open>pos\<close>, as far as the layout \<open>fits\<close>.
\<close>

locale checksummed =
  fixes calc :: "heap \<Rightarrow> u16 res"
    and pos :: ptr
    and fits :: bool
  assumes calc_skips: "fits \<Longrightarrow> store16 h pos w = Inr h' \<Longrightarrow> calc h' = calc h"
begin

lemma inplace_valid:
  assumes "fits" "rbind (calc h) (\<lambda>c. store16 h pos c) = Inr h'"
  shows "load16 h' pos = calc h' \<and> calc h' = calc h"
  using assms calc_skips[of h _ h'] half.ld_st_same[of h pos _ h'] by (auto simp: res_iffs)

lemma inplace_ok:
  assumes "calc h = Inr c" "in_bounds h pos 2"
  shows "\<exists>h'. rbind (calc h) (\<lambda>c. store16 h pos c) = Inr h'"
  using assms half.st_ok[of h pos c] by simp

lemma inplace_idem:
  assumes "fits" "rbind (calc h) (\<lambda>c. store16 h pos c) = Inr h1"
    "rbind (calc h1) (\<lambda>c. store16 h1 pos c) = Inr h2"
  shows "load16 h2 pos = load16 h1 pos"
  using inplace_valid[OF assms(1,2)] inplace_valid[OF assms(1,3)] by simp

end

end
