(* ===== verification/Ip4.thy ===== *)
theory Ip4
  imports Checksum BufferPool
begin

text \<open>
  \<^verbatim>\<open>libtun/include/libtun/protocol/ip4.h\<close>: the view of a packet as an IPv4 header. The
  object holds a pointer and a size only; every getter and setter goes to memory, at the
  offset the field has in \<open>struct Header\<close>. No accessor looks at the size.
\<close>

section \<open>The view\<close>

record ip4 =
  ip_header :: ptr
  ip_size :: u32

definition mkIp4 :: "ptr \<Rightarrow> u32 \<Rightarrow> ip4" where
  "mkIp4 p n = \<lparr>ip_header = p, ip_size = n\<rparr>"

text \<open>The values of \<open>enum Protocol\<close> that the code compares with.\<close>

definition ICMP :: u8 where "ICMP = 1"
definition IGMP :: u8 where "IGMP = 2"
definition TCP :: u8 where "TCP = 6"
definition UDP :: u8 where "UDP = 17"

section \<open>Getters\<close>

definition ip4_version :: "heap \<Rightarrow> ip4 \<Rightarrow> u8 res" where
  "ip4_version h ip = rbind (load8 h (ip_header ip)) (\<lambda>b. Inr (drop_bit 4 (b AND 240)))"

definition ip4_headerLen :: "heap \<Rightarrow> ip4 \<Rightarrow> u8 res" where
  "ip4_headerLen h ip = rbind (load8 h (ip_header ip)) (\<lambda>b. Inr (b AND 15))"

definition ip4_serviceType :: "heap \<Rightarrow> ip4 \<Rightarrow> u8 res" where
  "ip4_serviceType h ip = load8 h (padd (ip_header ip) 1)"

definition ip4_totalLen :: "heap \<Rightarrow> ip4 \<Rightarrow> u16 res" where
  "ip4_totalLen h ip = load16 h (padd (ip_header ip) 2)"

definition ip4_id :: "heap \<Rightarrow> ip4 \<Rightarrow> u16 res" where
  "ip4_id h ip = load16 h (padd (ip_header ip) 4)"

definition ip4_flag :: "heap \<Rightarrow> ip4 \<Rightarrow> u8 res" where
  "ip4_flag h ip = rbind (load16 h (padd (ip_header ip) 6)) (\<lambda>w. Inr (ucast (drop_bit 13 w)))"

definition ip4_offset :: "heap \<Rightarrow> ip4 \<Rightarrow> u16 res" where
  "ip4_offset h ip = rbind (load16 h (padd (ip_header ip) 6)) (\<lambda>w. Inr (w AND 0x1fff))"

definition ip4_ttl :: "heap \<Rightarrow> ip4 \<Rightarrow> u8 res" where
  "ip4_ttl h ip = load8 h (padd (ip_header ip) 8)"

definition ip4_protocol :: "heap \<Rightarrow> ip4 \<Rightarrow> u8 res" where
  "ip4_protocol h ip = load8 h (padd (ip_header ip) 9)"

definition ip4_checksum :: "heap \<Rightarrow> ip4 \<Rightarrow> u16 res" where
  "ip4_checksum h ip = load16 h (padd (ip_header ip) 10)"

text \<open>\<open>boost::asio::ip::address_v4\<close> is built from and read as a \<open>uint32_t\<close>.\<close>

definition ip4_sourceIP :: "heap \<Rightarrow> ip4 \<Rightarrow> u32 res" where
  "ip4_sourceIP h ip = load32 h (padd (ip_header ip) 12)"

definition ip4_destIP :: "heap \<Rightarrow> ip4 \<Rightarrow> u32 res" where
  "ip4_destIP h ip = load32 h (padd (ip_header ip) 16)"

text \<open>
  \<open>totalLen() - headerLen() * 4\<close> is an \<open>int\<close>, negative in a packet whose total length is
  shorter than its header, and becomes the \<open>size_t\<close> of the buffer.
\<close>

definition ip4_payload :: "heap \<Rightarrow> ip4 \<Rightarrow> mbuf res" where
  "ip4_payload h ip =
     rbind (ip4_headerLen h ip) (\<lambda>hl.
     rbind (ip4_totalLen h ip) (\<lambda>tl.
       Inr \<lparr>mb_data = Some (padd (ip_header ip) (uint hl * 4)),
            mb_size = word_of_int (uint tl - uint hl * 4)\<rparr>))"

definition ip4_internalBuffer :: "ip4 \<Rightarrow> mbuf" where
  "ip4_internalBuffer ip = \<lparr>mb_data = Some (ip_header ip), mb_size = ucast (ip_size ip)\<rparr>"

section \<open>Setters\<close>

definition ip4_set_checksum :: "heap \<Rightarrow> ip4 \<Rightarrow> u16 \<Rightarrow> heap res" where
  "ip4_set_checksum h ip c = store16 h (padd (ip_header ip) 10) c"

definition ip4_set_sourceIP :: "heap \<Rightarrow> ip4 \<Rightarrow> u32 \<Rightarrow> heap res" where
  "ip4_set_sourceIP h ip a = store32 h (padd (ip_header ip) 12) a"

definition ip4_set_destIP :: "heap \<Rightarrow> ip4 \<Rightarrow> u32 \<Rightarrow> heap res" where
  "ip4_set_destIP h ip a = store32 h (padd (ip_header ip) 16) a"

section \<open>The header checksum\<close>

definition ip4_calculateChecksum :: "heap \<Rightarrow> ip4 \<Rightarrow> u16 res" where
  "ip4_calculateChecksum h ip =
     rbind (ip4_headerLen h ip) (\<lambda>hl.
       let len = hl * 4 in
       rbind (sum_words h (ip_header ip) 10 (unat len) 0 0) (\<lambda>s. Inr (finish_sum s)))"

definition ip4_calculateChecksumInplace :: "heap \<Rightarrow> ip4 \<Rightarrow> heap res" where
  "ip4_calculateChecksumInplace h ip =
     rbind (ip4_calculateChecksum h ip) (\<lambda>c. ip4_set_checksum h ip c)"

section \<open>The checksum is the Internet checksum\<close>

lemma ip4_headerLen_le: "ip4_headerLen h ip = Inr hl \<Longrightarrow> unat hl \<le> 15"
proof -
  assume "ip4_headerLen h ip = Inr hl"
  then obtain b where "hl = b AND 15" by (auto simp: ip4_headerLen_def res_iffs)
  then have "hl \<le> 15" by (simp add: word_and_le1)
  then show ?thesis by (simp add: word_le_nat_alt)
qed

lemma ip4_calculateChecksum_eq:
  assumes "ip4_headerLen h ip = Inr hl" "load_bytes h (ip_header ip) (4 * unat hl) = Inr bs"
  shows "ip4_calculateChecksum h ip = Inr (finish_sum (of_nat (words_sum 10 0 bs)))"
    "unat (of_nat (words_sum 10 0 bs) :: u32) = words_sum 10 0 bs"
proof -
  have hl: "unat hl \<le> 15" using assms(1) by (rule ip4_headerLen_le)
  have len: "length bs = 4 * unat hl" using assms(2) by (rule load_bytes_length)
  have n: "unat (hl * 4) = length bs"
    using hl len by (simp add: unat_word_ariths)
  have "sum_words h (ip_header ip) 10 (0 + length bs) 0 0 = Inr (0 + of_nat (words_sum 10 0 bs))"
    using assms(2) len by (intro sum_words_eq) simp_all
  then show "ip4_calculateChecksum h ip = Inr (finish_sum (of_nat (words_sum 10 0 bs)))"
    using assms(1) n by (simp add: ip4_calculateChecksum_def Let_def)
  have "words_sum 10 0 bs < 4294967296"
    using words_sum_le[of 10 0 bs] hl len by simp
  then show "unat (of_nat (words_sum 10 0 bs) :: u32) = words_sum 10 0 bs"
    by (simp add: unat_of_nat)
qed

text \<open>
  C35. The optimised checksum is the reference: on every header that lies in memory,
  \<open>calculateChecksum\<close> returns the ones' complement of the ones' complement sum (RFC 1071) of
  the big-endian words of the header, its checksum word left out; the carry loop ends and
  the 32-bit sum never wraps.
\<close>

theorem ip4_checksum_rfc1071:
  assumes "ip4_headerLen h ip = Inr hl" "load_bytes h (ip_header ip) (4 * unat hl) = Inr bs"
  shows "\<exists>c. ip4_calculateChecksum h ip = Inr c \<and> unat c = 65535 - ones_sum (words_sum 10 0 bs)"
  using ip4_calculateChecksum_eq[OF assms] by (simp add: unat_finish_sum)

interpretation ip4_sum: checksummed "\<lambda>h. ip4_calculateChecksum h ip" "padd (ip_header ip) 10" True
  for ip
proof
  fix w h h'
  assume st: "store16 h (padd (ip_header ip) 10) w = Inr h'"
  then have "load8 h' (padd (ip_header ip) 0) = load8 h (padd (ip_header ip) 0)"
    by (intro byte.ld_st_disjoint[OF st[unfolded store16_def]]) (simp add: disjoint_ranges_def)
  moreover have "sum_words h' (ip_header ip) 10 n 0 0 = sum_words h (ip_header ip) 10 n 0 0" for n
    using st sum_words_skip[of h "ip_header ip" 10 w h' 0 n 0] by simp
  ultimately show "ip4_calculateChecksum h' ip = ip4_calculateChecksum h ip"
    by (simp add: ip4_calculateChecksum_def ip4_headerLen_def)
qed

lemma ip4_inplace_spec:
  assumes "ip4_headerLen h ip = Inr hl" "3 \<le> unat hl"
    and ld: "load_bytes h (ip_header ip) (4 * unat hl) = Inr bs"
  shows "\<exists>h' c. ip4_calculateChecksumInplace h ip = Inr h'
    \<and> ip4_checksum h' ip = Inr c \<and> ip4_calculateChecksum h' ip = Inr c
    \<and> store_bytes h (padd (ip_header ip) 10) (bytes16 c) = Inr h'
    \<and> load_bytes h' (ip_header ip) (4 * unat hl) = Inr (patch 10 (bytes16 c) bs)
    \<and> ones_sum (words_total (patch 10 (bytes16 c) bs)) = 65535"
proof -
  note eq = ip4_calculateChecksum_eq[OF assms(1) ld]
  let ?c = "finish_sum (of_nat (words_sum 10 0 bs))" and ?p = "padd (ip_header ip) 10"
  have len: "length bs = 4 * unat hl" using ld by (rule load_bytes_length)
  have "in_bounds h (ip_header ip) (4 * unat hl)"
    using ld by (auto simp: load_bytes_ok)
  from in_bounds_part[OF this, of 10 2] assms(2) have "in_bounds h ?p 2"
    by simp
  then obtain h' where h': "store16 h ?p ?c = Inr h'"
    using half.st_ok by blast
  have run: "ip4_calculateChecksumInplace h ip = Inr h'"
    using eq h' by (simp add: ip4_calculateChecksumInplace_def ip4_set_checksum_def)
  have v: "load16 h' ?p = ip4_calculateChecksum h' ip"
    "ip4_calculateChecksum h' ip = ip4_calculateChecksum h ip"
    using ip4_sum.inplace_valid[of h ip h'] run
    by (simp_all add: ip4_calculateChecksumInplace_def ip4_set_checksum_def)
  have "load_bytes h' (ip_header ip) (4 * unat hl) = Inr (patch 10 (bytes16 ?c) bs)"
    using half.st_patch[OF ld, of 10 ?c h'] h' assms(2) by simp
  moreover have "words_total (patch 10 (bytes16 ?c) bs) = words_sum 10 0 bs + unat ?c"
    using assms(2) len by (intro words_total_patch16) simp_all
  moreover have "ones_sum (words_sum 10 0 bs + unat ?c) = 65535"
    using verify_finish[of "of_nat (words_sum 10 0 bs)"] eq(2) by simp
  ultimately show ?thesis
    using run v eq h' by (auto simp: ip4_checksum_def store16_def)
qed

text \<open>
  \<open>calculateChecksumInplace\<close> makes a valid header: on a header of at least 12 bytes in
  memory it succeeds, changes only the two checksum bytes, the checksum it stores is the one
  \<open>calculateChecksum\<close> gives afterwards, and the receiver's test of RFC 1071 holds: all the
  words of the header, the checksum included, add up to 65535.
\<close>

theorem ip4_inplace_valid:
  assumes "ip4_headerLen h ip = Inr hl" "3 \<le> unat hl"
    "load_bytes h (ip_header ip) (4 * unat hl) = Inr bs"
  shows "\<exists>h' c. ip4_calculateChecksumInplace h ip = Inr h'
    \<and> ip4_checksum h' ip = Inr c \<and> ip4_calculateChecksum h' ip = Inr c
    \<and> load_bytes h' (ip_header ip) (4 * unat hl) = Inr (patch 10 (bytes16 c) bs)
    \<and> ones_sum (words_total (patch 10 (bytes16 c) bs)) = 65535
    \<and> (\<forall>q n. disjoint_ranges (padd (ip_header ip) 10) 2 q n \<longrightarrow>
         load_bytes h' q n = load_bytes h q n)"
proof -
  obtain h' c where *: "ip4_calculateChecksumInplace h ip = Inr h'"
    "ip4_checksum h' ip = Inr c" "ip4_calculateChecksum h' ip = Inr c"
    "store_bytes h (padd (ip_header ip) 10) (bytes16 c) = Inr h'"
    "load_bytes h' (ip_header ip) (4 * unat hl) = Inr (patch 10 (bytes16 c) bs)"
    "ones_sum (words_total (patch 10 (bytes16 c) bs)) = 65535"
    using ip4_inplace_spec[OF assms] by blast
  have "load_bytes h' q n = load_bytes h q n"
    if "disjoint_ranges (padd (ip_header ip) 10) 2 q n" for q n
    using load_store_disjoint[OF *(4)] that by simp
  with * show ?thesis by blast
qed

section \<open>Setters and getters\<close>

text \<open>Which getters a write to a range of the header leaves alone.\<close>

lemma ip4_getters_frame:
  assumes "store_bytes h p bs = Inr h'"
  shows "disjoint_ranges p (length bs) (padd (ip_header ip) 0) 1 \<Longrightarrow>
      ip4_version h' ip = ip4_version h ip"
    "disjoint_ranges p (length bs) (padd (ip_header ip) 0) 1 \<Longrightarrow>
      ip4_headerLen h' ip = ip4_headerLen h ip"
    "disjoint_ranges p (length bs) (padd (ip_header ip) 2) 2 \<Longrightarrow>
      ip4_totalLen h' ip = ip4_totalLen h ip"
    "disjoint_ranges p (length bs) (padd (ip_header ip) 9) 1 \<Longrightarrow>
      ip4_protocol h' ip = ip4_protocol h ip"
    "disjoint_ranges p (length bs) (padd (ip_header ip) 10) 2 \<Longrightarrow>
      ip4_checksum h' ip = ip4_checksum h ip"
    "disjoint_ranges p (length bs) (padd (ip_header ip) 12) 4 \<Longrightarrow>
      ip4_sourceIP h' ip = ip4_sourceIP h ip"
    "disjoint_ranges p (length bs) (padd (ip_header ip) 16) 4 \<Longrightarrow>
      ip4_destIP h' ip = ip4_destIP h ip"
  using byte.ld_st_disjoint[OF assms] half.ld_st_disjoint[OF assms] full.ld_st_disjoint[OF assms]
  by (simp_all add: ip4_version_def ip4_headerLen_def ip4_totalLen_def ip4_protocol_def
      ip4_checksum_def ip4_sourceIP_def ip4_destIP_def)

text \<open>
  The three setters and the getters agree: a field that has been set reads back as the
  value it was set to, and the other fields that routing and the checksum look at, of the
  same header, keep their values.
\<close>

theorem ip4_set_get:
  "(ip4_set_sourceIP h ip a = Inr h1 \<longrightarrow>
      ip4_sourceIP h1 ip = Inr a \<and> ip4_destIP h1 ip = ip4_destIP h ip
      \<and> ip4_checksum h1 ip = ip4_checksum h ip \<and> ip4_protocol h1 ip = ip4_protocol h ip
      \<and> ip4_payload h1 ip = ip4_payload h ip)
   \<and> (ip4_set_destIP h ip a = Inr h2 \<longrightarrow>
      ip4_destIP h2 ip = Inr a \<and> ip4_sourceIP h2 ip = ip4_sourceIP h ip
      \<and> ip4_checksum h2 ip = ip4_checksum h ip \<and> ip4_protocol h2 ip = ip4_protocol h ip
      \<and> ip4_payload h2 ip = ip4_payload h ip)
   \<and> (ip4_set_checksum h ip c = Inr h3 \<longrightarrow>
      ip4_checksum h3 ip = Inr c \<and> ip4_sourceIP h3 ip = ip4_sourceIP h ip
      \<and> ip4_destIP h3 ip = ip4_destIP h ip \<and> ip4_protocol h3 ip = ip4_protocol h ip
      \<and> ip4_payload h3 ip = ip4_payload h ip)"
  using full.ld_st_same[of h _ a] half.ld_st_same[of h _ c]
  by (auto simp: ip4_set_sourceIP_def ip4_set_destIP_def ip4_set_checksum_def
      ip4_sourceIP_def ip4_destIP_def ip4_checksum_def ip4_payload_def ip4_protocol_def
      ip4_headerLen_def ip4_totalLen_def disjoint_ranges_def full.st_eq half.st_eq
      byte.ld_st_disjoint half.ld_st_disjoint full.ld_st_disjoint)

section \<open>Instances\<close>

text \<open>The first 28 bytes of the UDP packet that the repository's tests read.\<close>

definition udp_sample :: bytes where
  "udp_sample =
     [0x45, 0x00, 0x02, 0x94, 0x51, 0x3f, 0x00, 0x00, 0x40, 0x11, 0x97, 0xe1,
      0xc0, 0xa8, 0x01, 0x06, 0xbc, 0xa6, 0x10, 0xe4, 0x11, 0x94, 0x11, 0x94,
      0x02, 0x80, 0x00, 0x00]"

definition sample_heap :: heap where
  "sample_heap = \<lparr>blocks = [0 \<mapsto> udp_sample], next_block = 1, junk = (\<lambda>_. 0)\<rparr>"

definition sample_ip :: ip4 where
  "sample_ip = mkIp4 (Ptr 0 0) 28"

lemmas sample_defs = sample_heap_def udp_sample_def sample_ip_def mkIp4_def in_bounds_def
  load_bytes_def slice_def

lemma sample_header:
  "ip4_headerLen sample_heap sample_ip = Inr 5"
  "load_bytes sample_heap (ip_header sample_ip) (4 * unat (5 :: u8)) = Inr (take 20 udp_sample)"
  by (simp_all add: ip4_headerLen_def load8_def sample_defs)

theorem ip4_checksum_rfc1071_witness:
  "\<exists>c. ip4_calculateChecksum sample_heap sample_ip = Inr c \<and> unat c = 38881"
proof -
  have "65535 - ones_sum (words_sum 10 0 (take 20 udp_sample)) = 38881"
    by (simp add: udp_sample_def ones_sum_def)
  with ip4_checksum_rfc1071[OF sample_header] show ?thesis by metis
qed

theorem ip4_inplace_valid_witness:
  "\<exists>h' c. ip4_calculateChecksumInplace sample_heap sample_ip = Inr h'
    \<and> ip4_checksum h' sample_ip = Inr c \<and> ip4_calculateChecksum h' sample_ip = Inr c"
  using ip4_inplace_valid[OF sample_header(1) _ sample_header(2)] by auto

theorem ip4_set_get_witness:
  "\<exists>h'. ip4_set_sourceIP sample_heap sample_ip 7 = Inr h' \<and> ip4_sourceIP h' sample_ip = Inr 7
    \<and> ip4_destIP h' sample_ip = ip4_destIP sample_heap sample_ip"
proof -
  have "in_bounds sample_heap (padd (ip_header sample_ip) 12) 4"
    by (simp add: sample_defs)
  then obtain h' where "ip4_set_sourceIP sample_heap sample_ip 7 = Inr h'"
    using full.st_ok[of sample_heap "padd (ip_header sample_ip) 12" 7]
    by (auto simp: ip4_set_sourceIP_def)
  with ip4_set_get[of sample_heap sample_ip 7 h'] show ?thesis by blast
qed

end
