(* ===== verification/Tcp.thy ===== *)
theory Tcp
  imports Ip4
begin

text \<open>
  \<^verbatim>\<open>libtun/include/libtun/protocol/tcp.h\<close>: the view of the payload of an IPv4 packet as a TCP
  segment.
\<close>

record tcp =
  tcp_header :: ptr
  tcp_size :: u32
  tcp_ip :: ip4

text \<open>The \<open>size_t\<close> of the payload is stored in a \<open>uint32_t\<close>.\<close>

definition mkTcp :: "heap \<Rightarrow> ip4 \<Rightarrow> tcp res" where
  "mkTcp h ip = rbind (ip4_payload h ip) (\<lambda>mb.
     case mb_data mb of
       None \<Rightarrow> Inl NullPointer
     | Some p \<Rightarrow> Inr \<lparr>tcp_header = p, tcp_size = ucast (mb_size mb), tcp_ip = ip\<rparr>)"

section \<open>Getters\<close>

definition tcp_sourcePort :: "heap \<Rightarrow> tcp \<Rightarrow> u16 res" where
  "tcp_sourcePort h t = load16 h (tcp_header t)"

definition tcp_destPort :: "heap \<Rightarrow> tcp \<Rightarrow> u16 res" where
  "tcp_destPort h t = load16 h (padd (tcp_header t) 2)"

definition tcp_sequence :: "heap \<Rightarrow> tcp \<Rightarrow> u32 res" where
  "tcp_sequence h t = load32 h (padd (tcp_header t) 4)"

definition tcp_acknowledgment :: "heap \<Rightarrow> tcp \<Rightarrow> u32 res" where
  "tcp_acknowledgment h t = load32 h (padd (tcp_header t) 8)"

definition tcp_headerLen :: "heap \<Rightarrow> tcp \<Rightarrow> u32 res" where
  "tcp_headerLen h t =
     rbind (load8 h (padd (tcp_header t) 12)) (\<lambda>b. Inr (ucast (drop_bit 4 (b AND 0xf0))))"

text \<open>
  The eight flags \<open>CWR()\<close> to \<open>FIN()\<close>, each a test of one bit of the flags byte: \<open>tcp_flag\<close>
  at bit 7 for CWR down to bit 0 for FIN.
\<close>

definition tcp_flag :: "nat \<Rightarrow> heap \<Rightarrow> tcp \<Rightarrow> bool res" where
  "tcp_flag k h t = rbind (load8 h (padd (tcp_header t) 13)) (\<lambda>b. Inr (b AND push_bit k 1 \<noteq> 0))"

definition tcp_CWR :: "heap \<Rightarrow> tcp \<Rightarrow> bool res" where "tcp_CWR = tcp_flag 7"
definition tcp_ECE :: "heap \<Rightarrow> tcp \<Rightarrow> bool res" where "tcp_ECE = tcp_flag 6"
definition tcp_URG :: "heap \<Rightarrow> tcp \<Rightarrow> bool res" where "tcp_URG = tcp_flag 5"
definition tcp_ACK :: "heap \<Rightarrow> tcp \<Rightarrow> bool res" where "tcp_ACK = tcp_flag 4"
definition tcp_PSH :: "heap \<Rightarrow> tcp \<Rightarrow> bool res" where "tcp_PSH = tcp_flag 3"
definition tcp_RST :: "heap \<Rightarrow> tcp \<Rightarrow> bool res" where "tcp_RST = tcp_flag 2"
definition tcp_SYN :: "heap \<Rightarrow> tcp \<Rightarrow> bool res" where "tcp_SYN = tcp_flag 1"
definition tcp_FIN :: "heap \<Rightarrow> tcp \<Rightarrow> bool res" where "tcp_FIN = tcp_flag 0"

definition tcp_window :: "heap \<Rightarrow> tcp \<Rightarrow> u16 res" where
  "tcp_window h t = load16 h (padd (tcp_header t) 14)"

definition tcp_checksum :: "heap \<Rightarrow> tcp \<Rightarrow> u16 res" where
  "tcp_checksum h t = load16 h (padd (tcp_header t) 16)"

definition tcp_urgentPointer :: "heap \<Rightarrow> tcp \<Rightarrow> u16 res" where
  "tcp_urgentPointer h t = load16 h (padd (tcp_header t) 18)"

text \<open>\<open>_size - headerLen() * 4\<close> is a \<open>uint32_t\<close> and wraps below zero.\<close>

definition tcp_payload :: "heap \<Rightarrow> tcp \<Rightarrow> mbuf res" where
  "tcp_payload h t = rbind (tcp_headerLen h t) (\<lambda>hl.
     Inr \<lparr>mb_data = Some (padd (tcp_header t) (uint (hl * 4))),
          mb_size = ucast (tcp_size t - hl * 4)\<rparr>)"

section \<open>Setters\<close>

definition tcp_set_sourcePort :: "heap \<Rightarrow> tcp \<Rightarrow> u16 \<Rightarrow> heap res" where
  "tcp_set_sourcePort h t p = store16 h (tcp_header t) p"

definition tcp_set_destPort :: "heap \<Rightarrow> tcp \<Rightarrow> u16 \<Rightarrow> heap res" where
  "tcp_set_destPort h t p = store16 h (padd (tcp_header t) 2) p"

definition tcp_set_checksum :: "heap \<Rightarrow> tcp \<Rightarrow> u16 \<Rightarrow> heap res" where
  "tcp_set_checksum h t c = store16 h (padd (tcp_header t) 16) c"

section \<open>The checksum\<close>

text \<open>
  One address of the pseudo header: \<open>((uint16_t)ip[0] << 8) + ip[1] + ((uint16_t)ip[2] << 8)
  + ip[3]\<close> on \<open>to_bytes()\<close>, the bytes of the address in network order.
\<close>

definition address_words :: "u32 \<Rightarrow> u32" where
  "address_words a = (let bs = bytes32 a in
     push_bit 8 (ucast (bs ! 0)) + ucast (bs ! 1) + push_bit 8 (ucast (bs ! 2)) + ucast (bs ! 3))"

definition tcp_calculateChecksum :: "heap \<Rightarrow> tcp \<Rightarrow> u16 res" where
  "tcp_calculateChecksum h t =
     rbind (ip4_sourceIP h (tcp_ip t)) (\<lambda>sourceIP.
     rbind (ip4_destIP h (tcp_ip t)) (\<lambda>destIP.
     rbind (ip4_protocol h (tcp_ip t)) (\<lambda>protocol.
     rbind (sum_words h (tcp_header t) 16 (unat (tcp_size t)) 0
              (address_words sourceIP + address_words destIP + ucast protocol + tcp_size t)) (\<lambda>s.
       Inr (finish_sum s)))))"

definition tcp_calculateChecksumInplace :: "heap \<Rightarrow> tcp \<Rightarrow> heap res" where
  "tcp_calculateChecksumInplace h t =
     rbind (tcp_calculateChecksum h t) (\<lambda>c. tcp_set_checksum h t c)"

section \<open>The checksum is valid\<close>

text \<open>The sum of the pseudo header, as a number.\<close>

definition address_sum :: "u32 \<Rightarrow> nat" where
  "address_sum a = unat (drop_bit 16 a) + unat (a AND 0xffff)"

definition pseudo_sum :: "u32 \<Rightarrow> u32 \<Rightarrow> u8 \<Rightarrow> nat \<Rightarrow> nat" where
  "pseudo_sum src dst protocol n = address_sum src + address_sum dst + unat protocol + n"

lemma address_words_eq: "address_words a = drop_bit 16 a + (a AND 0xffff)"
proof -
  have "push_bit 8 (ucast (ucast (drop_bit 24 a) :: u8)) + ucast (ucast (drop_bit 16 a) :: u8)
      = drop_bit 16 a"
    by (subst disjunctive_add) (auto simp: bit_simps bit_eq_iff dest: bit_imp_le_length)
  moreover have "push_bit 8 (ucast (ucast (drop_bit 8 a) :: u8)) + ucast (ucast a :: u8)
      = take_bit 16 a"
    by (subst disjunctive_add) (auto simp: bit_simps bit_eq_iff dest: bit_imp_le_length)
  moreover have "take_bit 16 a = a AND 0xffff"
    by (simp add: take_bit_eq_mask mask_eq_exp_minus_1)
  ultimately show ?thesis
    by (simp add: address_words_def bytes32_def Let_def add.assoc)
qed

lemma pseudo_word:
  "address_words src + address_words dst + ucast pr + n = of_nat (pseudo_sum src dst pr (unat n))"
  by (simp add: address_words_eq pseudo_sum_def address_sum_def algebra_simps)

lemma address_sum_le: "address_sum a \<le> 131070"
proof -
  have "unat (drop_bit 16 a) < 65536"
    using unat_bound32[of a] by (simp add: unat_drop16 less_mult_imp_div_less del: unat_drop_bit_eq)
  moreover have "unat (a AND 0xffff) < 65536"
    using unat_low16[of a] by simp
  ultimately show ?thesis by (simp add: address_sum_def)
qed

text \<open>The checksum field lies apart from the fields of the IP header that enter the sum.\<close>

definition tcp_fits :: "tcp \<Rightarrow> bool" where
  "tcp_fits t \<longleftrightarrow>
     disjoint_ranges (padd (tcp_header t) 16) 2 (padd (ip_header (tcp_ip t)) 9) 11"

lemma mkTcp_fits:
  assumes "mkTcp h ip = Inr t" "ip4_headerLen h ip = Inr hl" "0 < unat hl"
  shows "tcp_fits t" "tcp_ip t = ip"
proof -
  have "0 < uint hl" using assms(3) by (simp add: uint_nat del: of_nat_unat)
  with assms(1,2) show "tcp_fits t" "tcp_ip t = ip"
    by (auto simp: mkTcp_def ip4_payload_def res_iffs tcp_fits_def disjoint_ranges_def)
qed

interpretation tcp_sum:
  checksummed "\<lambda>h. tcp_calculateChecksum h t" "padd (tcp_header t) 16" "tcp_fits t" for t
proof
  fix w h h'
  assume f: "tcp_fits t" and st: "store16 h (padd (tcp_header t) 16) w = Inr h'"
  have b: "store_bytes h (padd (tcp_header t) 16) (bytes16 w) = Inr h'"
    using st by (simp add: store16_def)
  have "ip4_sourceIP h' (tcp_ip t) = ip4_sourceIP h (tcp_ip t)"
    "ip4_destIP h' (tcp_ip t) = ip4_destIP h (tcp_ip t)"
    "ip4_protocol h' (tcp_ip t) = ip4_protocol h (tcp_ip t)"
    using f by (intro ip4_getters_frame[OF b]; auto simp: tcp_fits_def disjoint_ranges_def)+
  moreover have "sum_words h' (tcp_header t) 16 n 0 x = sum_words h (tcp_header t) 16 n 0 x" for n x
    using st sum_words_skip[of h "tcp_header t" 16 w h' 0 n x] by simp
  ultimately show "tcp_calculateChecksum h' t = tcp_calculateChecksum h t"
    by (simp add: tcp_calculateChecksum_def)
qed

lemma tcp_calculateChecksum_eq:
  assumes ip: "ip4_sourceIP h (tcp_ip t) = Inr src" "ip4_destIP h (tcp_ip t) = Inr dst"
    "ip4_protocol h (tcp_ip t) = Inr pr"
    and ld: "load_bytes h (tcp_header t) (unat (tcp_size t)) = Inr bs"
    and size: "even (unat (tcp_size t))" "unat (tcp_size t) \<le> 65535"
  shows "tcp_calculateChecksum h t
      = Inr (finish_sum (of_nat (pseudo_sum src dst pr (unat (tcp_size t)) + words_sum 16 0 bs)))"
    "unat (of_nat (pseudo_sum src dst pr (unat (tcp_size t)) + words_sum 16 0 bs) :: u32)
      = pseudo_sum src dst pr (unat (tcp_size t)) + words_sum 16 0 bs"
proof -
  have len: "length bs = unat (tcp_size t)" using ld by (rule load_bytes_length)
  have "sum_words h (tcp_header t) 16 (0 + length bs) 0 acc = Inr (acc + of_nat (words_sum 16 0 bs))" for acc
    using ld len size(1) by (intro sum_words_eq) simp_all
  then show "tcp_calculateChecksum h t
      = Inr (finish_sum (of_nat (pseudo_sum src dst pr (unat (tcp_size t)) + words_sum 16 0 bs)))"
    using ip len by (simp add: tcp_calculateChecksum_def pseudo_word)
  have "words_sum 16 0 bs \<le> 65535 * (65535 div 2)"
    using words_sum_le[of 16 0 bs, unfolded len] mult_le_mono2[OF div_le_mono[OF size(2)]]
    by (rule order_trans)
  moreover have "pseudo_sum src dst pr (unat (tcp_size t)) \<le> 4 * 65535 + 255 + 65535"
    using address_sum_le[of src] address_sum_le[of dst] unat_bound8[of pr] size(2)
    by (simp add: pseudo_sum_def)
  ultimately show "unat (of_nat (pseudo_sum src dst pr (unat (tcp_size t)) + words_sum 16 0 bs) :: u32)
      = pseudo_sum src dst pr (unat (tcp_size t)) + words_sum 16 0 bs"
    by (simp add: unat_of_nat del: of_nat_add)
qed

lemma tcp_inplace_spec:
  assumes ip: "ip4_sourceIP h (tcp_ip t) = Inr src" "ip4_destIP h (tcp_ip t) = Inr dst"
    "ip4_protocol h (tcp_ip t) = Inr pr"
    and fits: "tcp_fits t"
    and ld: "load_bytes h (tcp_header t) (unat (tcp_size t)) = Inr bs"
    and size: "even (unat (tcp_size t))" "18 \<le> unat (tcp_size t)" "unat (tcp_size t) \<le> 65535"
  shows "\<exists>h' c. tcp_calculateChecksumInplace h t = Inr h'
    \<and> store16 h (padd (tcp_header t) 16) c = Inr h' \<and> tcp_checksum h' t = Inr c \<and> tcp_calculateChecksum h' t = Inr c
    \<and> load_bytes h' (tcp_header t) (unat (tcp_size t)) = Inr (patch 16 (bytes16 c) bs)
    \<and> ones_sum (pseudo_sum src dst pr (unat (tcp_size t)) + words_total (patch 16 (bytes16 c) bs)) = 65535
    \<and> (\<forall>q n. disjoint_ranges (padd (tcp_header t) 16) 2 q n \<longrightarrow>
         load_bytes h' q n = load_bytes h q n)"
proof -
  note eq = tcp_calculateChecksum_eq[OF ip ld size(1,3)]
  let ?s = "pseudo_sum src dst pr (unat (tcp_size t)) + words_sum 16 0 bs"
  let ?c = "finish_sum (of_nat ?s)" and ?p = "padd (tcp_header t) 16"
  have "in_bounds h (tcp_header t) (unat (tcp_size t))"
    using ld by (auto simp: load_bytes_ok)
  from in_bounds_part[OF this, of 16 2] size(2) have "in_bounds h ?p 2" by simp
  then obtain h' where run: "rbind (tcp_calculateChecksum h t) (\<lambda>c. store16 h ?p c) = Inr h'"
    using tcp_sum.inplace_ok[OF eq(1)] by auto
  then have h': "store16 h ?p ?c = Inr h'" by (simp add: eq(1))
  have "load_bytes h' (tcp_header t) (unat (tcp_size t)) = Inr (patch 16 (bytes16 ?c) bs)"
    using half.st_patch[OF ld, of 16 ?c h'] h' size(2) by simp
  moreover have "words_total (patch 16 (bytes16 ?c) bs) = words_sum 16 0 bs + unat ?c"
    using size(2) load_bytes_length[OF ld] by (intro words_total_patch16) simp_all
  moreover have "ones_sum (?s + unat ?c) = 65535"
    using verify_finish[of "of_nat ?s"] eq(2) by simp
  moreover have "load_bytes h' q n = load_bytes h q n" if "disjoint_ranges ?p 2 q n" for q n
    using half.load_bytes_st_disjoint[OF h' that] .
  moreover note tcp_sum.inplace_valid[OF fits run] run eq(1) h'
  ultimately show ?thesis
    by (auto simp: tcp_calculateChecksumInplace_def tcp_set_checksum_def tcp_checksum_def add.assoc)
qed

text \<open>
  C36. On a segment of even length in memory, of at least 18 and at most 65535 bytes, behind
  an IP header that does not overlap it, \<open>calculateChecksumInplace\<close> succeeds and makes the
  segment valid for its receiver: the pseudo header (both addresses, the protocol, the
  length) and all words of the segment, checksum included, have the ones' complement sum
  65535; only the two checksum bytes change.
\<close>

theorem tcp_inplace_valid:
  assumes ip: "ip4_sourceIP h (tcp_ip t) = Inr src" "ip4_destIP h (tcp_ip t) = Inr dst"
    "ip4_protocol h (tcp_ip t) = Inr pr"
    and fits: "tcp_fits t"
    and ld: "load_bytes h (tcp_header t) (unat (tcp_size t)) = Inr bs"
    and size: "even (unat (tcp_size t))" "18 \<le> unat (tcp_size t)" "unat (tcp_size t) \<le> 65535"
  shows "\<exists>h' c. tcp_calculateChecksumInplace h t = Inr h'
    \<and> tcp_checksum h' t = Inr c \<and> tcp_calculateChecksum h' t = Inr c
    \<and> load_bytes h' (tcp_header t) (unat (tcp_size t)) = Inr (patch 16 (bytes16 c) bs)
    \<and> ones_sum (pseudo_sum src dst pr (unat (tcp_size t)) + words_total (patch 16 (bytes16 c) bs)) = 65535
    \<and> (\<forall>q n. disjoint_ranges (padd (tcp_header t) 16) 2 q n \<longrightarrow>
         load_bytes h' q n = load_bytes h q n)"
  using tcp_inplace_spec[OF assms] by blast

text \<open>
  A segment of odd length is not padded with a zero byte: the loop reads one byte past
  the segment. Where the segment ends its block the checksum cannot be computed without an
  out-of-bounds read.
\<close>

theorem tcp_odd_reads_past_end:
  assumes "ip4_sourceIP h (tcp_ip t) = Inr src" "ip4_destIP h (tcp_ip t) = Inr dst"
    "ip4_protocol h (tcp_ip t) = Inr pr"
    and "odd (unat (tcp_size t))" "18 \<le> unat (tcp_size t)"
    and "in_bounds h (tcp_header t) (unat (tcp_size t))"
    and "\<not> in_bounds h (tcp_header t) (unat (tcp_size t) + 1)"
  shows "tcp_calculateChecksum h t = Inl OutOfBounds"
proof -
  let ?n = "unat (tcp_size t)" and ?p = "tcp_header t"
  obtain m where m: "?n = Suc m" "even m" using assms(4) by (cases ?n) auto
  obtain xs where xs: "load_bytes h ?p ?n = Inr xs" "length xs = Suc m"
    using assms(6) m by (auto simp: load_bytes_ok dest: load_bytes_length)
  have "load_bytes h (padd ?p (int 0)) m = Inr (slice 0 m xs)"
    using load_bytes_sub[OF xs(1), of 0 m] m by simp
  then have 1: "sum_words h ?p 16 ?n 0 acc
      = sum_words h ?p 16 ?n m (acc + of_nat (words_sum 16 0 (slice 0 m xs)))" for acc
    using sum_words_prefix[of h ?p 0 "slice 0 m xs" ?n 16 acc] m xs(2) by simp
  have a: "load8 h (padd ?p (int m)) = Inr (xs ! m)"
    using byte.ld_sub[OF xs(1), of m] m xs(2) by (simp add: slice_def hd_drop_conv_nth nth_append)
  have b: "load8 h (padd ?p (int (m + 1))) = Inl OutOfBounds"
    using assms(6,7) m
    by (auto simp: load8_def load_bytes_def in_bounds_def algebra_simps split: option.splits)
  have "sum_words h ?p 16 ?n m acc = Inl OutOfBounds" for acc
    using a b [simplified] m assms(5) by (subst sum_words.simps) simp
  with 1 assms(1-3) show ?thesis
    by (simp add: tcp_calculateChecksum_def)
qed

section \<open>Instances\<close>

text \<open>
  The IP and TCP headers of the TCP packet of the repository's tests, with the total length
  set to what is kept of its payload: nothing, or one byte.
\<close>

definition tcp_sample :: "bytes \<Rightarrow> heap" where
  "tcp_sample rest = \<lparr>blocks = [0 \<mapsto>
     [0x45, 0xd4, 0x00, 40 + of_nat (length rest), 0xb9, 0xec, 0x40, 0x00, 0x37, 0x06, 0x19, 0x97,
      0x70, 0x11, 0x38, 0x35, 0xc0, 0xa8, 0x01, 0x06, 0x01, 0xbb, 0xf2, 0x64, 0x06, 0xf4,
      0x88, 0x28, 0x29, 0xa6, 0x2f, 0xc6, 0x50, 0x10, 0x0a, 0x5f, 0x93, 0x50, 0x00, 0x00] @ rest],
     next_block = 1, junk = (\<lambda>_. 0)\<rparr>"

definition tcp_view :: "u32 \<Rightarrow> tcp" where
  "tcp_view n = \<lparr>tcp_header = Ptr 0 20, tcp_size = n, tcp_ip = mkIp4 (Ptr 0 0) (20 + n)\<rparr>"

lemmas tcp_sample_defs = tcp_sample_def tcp_view_def mkIp4_def in_bounds_def load_bytes_def slice_def

lemma tcp_sample_view:
  "mkTcp (tcp_sample []) (mkIp4 (Ptr 0 0) 40) = Inr (tcp_view 20)"
  by (simp add: mkTcp_def ip4_payload_def ip4_headerLen_def ip4_totalLen_def load8_def load16_def
      tcp_sample_defs padd_def be16_def)

lemma tcp_sample_ip:
  "ip4_sourceIP (tcp_sample xs) (tcp_ip (tcp_view n)) = Inr (be32 0x70 0x11 0x38 0x35)"
  "ip4_destIP (tcp_sample xs) (tcp_ip (tcp_view n)) = Inr (be32 0xc0 0xa8 0x01 0x06)"
  "ip4_protocol (tcp_sample xs) (tcp_ip (tcp_view n)) = Inr 6"
  by (simp_all add: ip4_sourceIP_def ip4_destIP_def ip4_protocol_def load8_def load32_def tcp_sample_defs)

theorem tcp_inplace_valid_witness:
  "\<exists>h' c. tcp_calculateChecksumInplace (tcp_sample []) (tcp_view 20) = Inr h'
    \<and> tcp_checksum h' (tcp_view 20) = Inr c \<and> tcp_calculateChecksum h' (tcp_view 20) = Inr c"
proof -
  have "tcp_fits (tcp_view 20)"
    by (simp add: tcp_fits_def tcp_view_def mkIp4_def disjoint_ranges_def)
  moreover obtain bs where
    "load_bytes (tcp_sample []) (tcp_header (tcp_view 20)) (unat (tcp_size (tcp_view 20))) = Inr bs"
    using load_bytes_ok[of "tcp_sample []" "Ptr 0 20" 20] by (auto simp: tcp_sample_defs)
  moreover have "even (unat (tcp_size (tcp_view 20)))" "18 \<le> unat (tcp_size (tcp_view 20))"
    "unat (tcp_size (tcp_view 20)) \<le> 65535"
    by (simp_all add: tcp_view_def)
  ultimately show ?thesis
    using tcp_inplace_valid[OF tcp_sample_ip] by blast
qed

theorem tcp_odd_reads_past_end_witness:
  "tcp_calculateChecksum (tcp_sample [0x17]) (tcp_view 21) = Inl OutOfBounds"
  by (rule tcp_odd_reads_past_end[OF tcp_sample_ip]) (simp_all add: tcp_sample_defs)

end
