(* ===== verification/Udp.thy ===== *)
theory Udp
  imports Ip4
begin

text \<open>
  \<^verbatim>\<open>libtun/include/libtun/protocol/udp.h\<close>: the view of the payload of an IPv4 packet as a UDP
  datagram. The four 16-bit bit fields of its header are four consecutive half words.
\<close>

record udp =
  udp_header :: ptr
  udp_size :: u32
  udp_ip :: ip4

definition mkUdp :: "heap \<Rightarrow> ip4 \<Rightarrow> udp res" where
  "mkUdp h ip = rbind (ip4_payload h ip) (\<lambda>mb.
     case mb_data mb of
       None \<Rightarrow> Inl NullPointer
     | Some p \<Rightarrow> Inr \<lparr>udp_header = p, udp_size = ucast (mb_size mb), udp_ip = ip\<rparr>)"

definition udp_sourcePort :: "heap \<Rightarrow> udp \<Rightarrow> u16 res" where
  "udp_sourcePort h u = load16 h (udp_header u)"

definition udp_destPort :: "heap \<Rightarrow> udp \<Rightarrow> u16 res" where
  "udp_destPort h u = load16 h (padd (udp_header u) 2)"

definition udp_totalLen :: "heap \<Rightarrow> udp \<Rightarrow> u16 res" where
  "udp_totalLen h u = load16 h (padd (udp_header u) 4)"

definition udp_checksum :: "heap \<Rightarrow> udp \<Rightarrow> u16 res" where
  "udp_checksum h u = load16 h (padd (udp_header u) 6)"

definition udp_payload :: "udp \<Rightarrow> mbuf" where
  "udp_payload u = \<lparr>mb_data = Some (padd (udp_header u) 8), mb_size = ucast (udp_size u - 8)\<rparr>"

definition udp_set_sourcePort :: "heap \<Rightarrow> udp \<Rightarrow> u16 \<Rightarrow> heap res" where
  "udp_set_sourcePort h u p = store16 h (udp_header u) p"

definition udp_set_destPort :: "heap \<Rightarrow> udp \<Rightarrow> u16 \<Rightarrow> heap res" where
  "udp_set_destPort h u p = store16 h (padd (udp_header u) 2) p"

definition udp_set_totalLen :: "heap \<Rightarrow> udp \<Rightarrow> u16 \<Rightarrow> heap res" where
  "udp_set_totalLen h u n = store16 h (padd (udp_header u) 4) n"

definition udp_set_checksum :: "heap \<Rightarrow> udp \<Rightarrow> u16 \<Rightarrow> heap res" where
  "udp_set_checksum h u c = store16 h (padd (udp_header u) 6) c"

text \<open>Reading a field after a write to another one.\<close>

lemma udp_fields:
  "udp_set_sourcePort h u p = Inr h' \<Longrightarrow>
     udp_sourcePort h' u = Inr p \<and> udp_destPort h' u = udp_destPort h u
     \<and> udp_totalLen h' u = udp_totalLen h u \<and> udp_checksum h' u = udp_checksum h u"
  "udp_set_destPort h u p = Inr h' \<Longrightarrow>
     udp_destPort h' u = Inr p \<and> udp_sourcePort h' u = udp_sourcePort h u
     \<and> udp_totalLen h' u = udp_totalLen h u \<and> udp_checksum h' u = udp_checksum h u"
  "udp_set_checksum h u c = Inr h' \<Longrightarrow>
     udp_checksum h' u = Inr c \<and> udp_sourcePort h' u = udp_sourcePort h u
     \<and> udp_destPort h' u = udp_destPort h u \<and> udp_totalLen h' u = udp_totalLen h u"
  "udp_set_totalLen h u n = Inr h' \<Longrightarrow>
     udp_totalLen h' u = Inr n \<and> udp_sourcePort h' u = udp_sourcePort h u
     \<and> udp_destPort h' u = udp_destPort h u \<and> udp_checksum h' u = udp_checksum h u"
  by (auto simp: udp_set_sourcePort_def udp_set_destPort_def udp_set_checksum_def udp_set_totalLen_def
      udp_sourcePort_def udp_destPort_def udp_totalLen_def udp_checksum_def half.ld_st_same
      half.ld_st_other disjoint_ranges_def)

end
