(* ===== verification/StdMap.thy ===== *)
theory StdMap
  imports Prelude
begin

text \<open>
  \<open>std::map\<close> as the code uses it (in \<^verbatim>\<open>napt.h\<close> and \<^verbatim>\<open>transmission/Rpc.h\<close>): the elements in
  the order of the comparison object, lookups that stop at the element equivalent to the key
  (neither less than the other), \<open>operator[]\<close> followed by an assignment, \<open>erase\<close> by key, and
  \<open>upper_bound\<close>, whose iterator is the rest of the list. The standard defines these only
  where the comparison is a strict weak order on the keys involved; \<open>strict_weak\<close> is that
  condition, and a use outside it is a fault of the model.
\<close>

section \<open>Operations\<close>

type_synonym ('k, 'v) smap = "('k \<times> 'v) list"

definition equivalent :: "('k \<Rightarrow> 'k \<Rightarrow> bool) \<Rightarrow> 'k \<Rightarrow> 'k \<Rightarrow> bool" where
  "equivalent lt a b \<longleftrightarrow> \<not> lt a b \<and> \<not> lt b a"

definition strict_weak :: "('k \<Rightarrow> 'k \<Rightarrow> bool) \<Rightarrow> 'k list \<Rightarrow> bool" where
  "strict_weak lt ks \<longleftrightarrow>
     (\<forall>a\<in>set ks. \<not> lt a a)
     \<and> (\<forall>a\<in>set ks. \<forall>b\<in>set ks. \<forall>c\<in>set ks. lt a b \<and> lt b c \<longrightarrow> lt a c)
     \<and> (\<forall>a\<in>set ks. \<forall>b\<in>set ks. \<forall>c\<in>set ks.
          equivalent lt a b \<and> equivalent lt b c \<longrightarrow> equivalent lt a c)"

fun smap_find :: "('k \<Rightarrow> 'k \<Rightarrow> bool) \<Rightarrow> 'k \<Rightarrow> ('k, 'v) smap \<Rightarrow> 'v option" where
  "smap_find lt k [] = None"
| "smap_find lt k ((k', v) # m) = (if equivalent lt k' k then Some v else smap_find lt k m)"

fun smap_put :: "('k \<Rightarrow> 'k \<Rightarrow> bool) \<Rightarrow> 'k \<Rightarrow> 'v \<Rightarrow> ('k, 'v) smap \<Rightarrow> ('k, 'v) smap" where
  "smap_put lt k v [] = [(k, v)]"
| "smap_put lt k v ((k', v') # m) =
     (if lt k' k then (k', v') # smap_put lt k v m
      else if lt k k' then (k, v) # (k', v') # m
      else (k', v) # m)"

definition smap_erase :: "('k \<Rightarrow> 'k \<Rightarrow> bool) \<Rightarrow> 'k \<Rightarrow> ('k, 'v) smap \<Rightarrow> ('k, 'v) smap" where
  "smap_erase lt k m = filter (\<lambda>(k', v). \<not> equivalent lt k' k) m"

definition smap_upper :: "('k \<Rightarrow> 'k \<Rightarrow> bool) \<Rightarrow> 'k \<Rightarrow> ('k, 'v) smap \<Rightarrow> ('k, 'v) smap" where
  "smap_upper lt k m = dropWhile (\<lambda>(k', v). \<not> lt k k') m"

lemma smap_find_put_same: "\<not> lt k k \<Longrightarrow> smap_find lt k (smap_put lt k v m) = Some v"
  by (induction m) (auto simp: equivalent_def)

lemma set_smap_put: "set (smap_put lt k v m) \<subseteq> insert (k, v) (set m \<union> (\<lambda>(k', w). (k', v)) ` set m)"
  by (induction m) (auto split: if_splits)

lemma keys_smap_put: "fst ` set (smap_put lt k v m) \<subseteq> insert k (fst ` set m)"
  using set_smap_put[of lt k v m] by force

lemma smap_find_in: "smap_find lt k m = Some v \<Longrightarrow> \<exists>k'. (k', v) \<in> set m \<and> equivalent lt k' k"
  by (induction m) (auto split: if_splits)

lemma strict_weak_subset: "strict_weak lt ks \<Longrightarrow> set ks' \<subseteq> set ks \<Longrightarrow> strict_weak lt ks'"
  unfolding strict_weak_def by (meson subsetD)

section \<open>The contract of a dictionary\<close>

text \<open>
  What the code expects of a map: lookups see the last write, and erasing a key removes it
  and nothing else. \<open>K\<close> is the set of keys in use.
\<close>

locale dictionary =
  fixes K :: "'k set"
    and lookup :: "'m \<Rightarrow> 'k \<Rightarrow> 'v option"
    and update :: "'k \<Rightarrow> 'v \<Rightarrow> 'm \<Rightarrow> 'm"
    and delete :: "'k \<Rightarrow> 'm \<Rightarrow> 'm"
    and invar :: "'m \<Rightarrow> bool"
  assumes lookup_update: "invar m \<Longrightarrow> a \<in> K \<Longrightarrow> b \<in> K \<Longrightarrow>
      lookup (update a v m) b = (if b = a then Some v else lookup m b)"
    and lookup_delete: "invar m \<Longrightarrow> a \<in> K \<Longrightarrow> b \<in> K \<Longrightarrow>
      lookup (delete a m) b = (if b = a then None else lookup m b)"
    and invar_update: "invar m \<Longrightarrow> a \<in> K \<Longrightarrow> invar (update a v m)"
    and invar_delete: "invar m \<Longrightarrow> a \<in> K \<Longrightarrow> invar (delete a m)"
begin

lemma last_write_wins:
  "invar m \<Longrightarrow> a \<in> K \<Longrightarrow> lookup (update a w (update a v m)) a = Some w"
  by (simp add: lookup_update invar_update)

lemma update_delete:
  "invar m \<Longrightarrow> a \<in> K \<Longrightarrow> b \<in> K \<Longrightarrow> lookup (delete a (update a v m)) b = lookup (delete a m) b"
  by (simp add: lookup_update lookup_delete invar_update)

end

section \<open>Strict orders give dictionaries\<close>

text \<open>
  The requirement on a comparison object under which no two different keys are equivalent: a
  strict total order on the keys in use.
\<close>

locale key_order =
  fixes lt :: "'k \<Rightarrow> 'k \<Rightarrow> bool"
    and K :: "'k set"
  assumes irrefl: "a \<in> K \<Longrightarrow> \<not> lt a a"
    and trans: "a \<in> K \<Longrightarrow> b \<in> K \<Longrightarrow> c \<in> K \<Longrightarrow> lt a b \<Longrightarrow> lt b c \<Longrightarrow> lt a c"
    and total: "a \<in> K \<Longrightarrow> b \<in> K \<Longrightarrow> a \<noteq> b \<Longrightarrow> lt a b \<or> lt b a"
begin

lemma asym: "a \<in> K \<Longrightarrow> b \<in> K \<Longrightarrow> lt a b \<Longrightarrow> \<not> lt b a"
  using irrefl trans by blast

lemma equivalent_iff: "a \<in> K \<Longrightarrow> b \<in> K \<Longrightarrow> equivalent lt a b \<longleftrightarrow> a = b"
  using irrefl total by (auto simp: equivalent_def)

lemma strict_weak: "set ks \<subseteq> K \<Longrightarrow> strict_weak lt ks"
proof -
  assume ks: "set ks \<subseteq> K"
  have "\<forall>a\<in>set ks. \<not> lt a a"
    using ks irrefl by blast
  moreover have "\<forall>a\<in>set ks. \<forall>b\<in>set ks. \<forall>c\<in>set ks. lt a b \<and> lt b c \<longrightarrow> lt a c"
    using ks trans by blast
  moreover have "\<forall>a\<in>set ks. \<forall>b\<in>set ks. \<forall>c\<in>set ks.
      equivalent lt a b \<and> equivalent lt b c \<longrightarrow> equivalent lt a c"
    using ks equivalent_iff by blast
  ultimately show ?thesis by (simp only: strict_weak_def)
qed

lemma find_map_of:
  "fst ` set m \<subseteq> K \<Longrightarrow> k \<in> K \<Longrightarrow> smap_find lt k m = map_of m k"
  by (induction m) (auto simp: equivalent_iff)

lemma keys_put: "fst ` set m \<subseteq> K \<Longrightarrow> k \<in> K \<Longrightarrow> fst ` set (smap_put lt k v m) = insert k (fst ` set m)"
proof (induction m)
  case (Cons x m)
  then show ?case using total[of k "fst x"] by (cases x) auto
qed simp

lemma sorted_put:
  "fst ` set m \<subseteq> K \<Longrightarrow> k \<in> K \<Longrightarrow> sorted_wrt lt (map fst m) \<Longrightarrow>
     sorted_wrt lt (map fst (smap_put lt k v m))"
proof (induction m)
  case (Cons x m)
  have "lt k b" if "lt k (fst x)" "b \<in> fst ` set m" for b
    using that Cons.prems by (intro trans[of k "fst x" b]) fastforce+
  moreover have "fst ` set (smap_put lt k v m) = insert k (fst ` set m)"
    using Cons.prems by (intro keys_put) auto
  ultimately show ?case
    using Cons by (cases x) auto
qed simp

lemma map_of_put:
  "fst ` set m \<subseteq> K \<Longrightarrow> k \<in> K \<Longrightarrow> sorted_wrt lt (map fst m) \<Longrightarrow>
     map_of (smap_put lt k v m) = (map_of m)(k \<mapsto> v)"
proof (induction m)
  case (Cons x m)
  have "fst x \<noteq> k" if "lt (fst x) k \<or> lt k (fst x)"
    using that irrefl Cons.prems(2) by auto
  moreover have "fst x = k" if "\<not> lt (fst x) k" "\<not> lt k (fst x)"
    using that total[of k "fst x"] Cons.prems by auto
  ultimately show ?case
    using Cons by (cases x) (auto simp: fun_eq_iff)
qed simp

lemma erase_filter:
  "fst ` set m \<subseteq> K \<Longrightarrow> k \<in> K \<Longrightarrow> smap_erase lt k m = filter (\<lambda>(k', v). k' \<noteq> k) m"
  unfolding smap_erase_def by (rule filter_cong) (auto simp: equivalent_iff)

lemma map_of_erase:
  "fst ` set m \<subseteq> K \<Longrightarrow> k \<in> K \<Longrightarrow> map_of (smap_erase lt k m) = (map_of m)(k := None)"
  by (simp add: erase_filter) (induction m; auto simp: fun_eq_iff)

lemma keys_erase: "fst ` set (smap_erase lt k m) \<subseteq> fst ` set m"
  by (auto simp: smap_erase_def)

lemma sorted_erase: "sorted_wrt lt (map fst m) \<Longrightarrow> sorted_wrt lt (map fst (smap_erase lt k m))"
  unfolding smap_erase_def by (induction m) auto

lemma upper_filter:
  "fst ` set m \<subseteq> K \<Longrightarrow> k \<in> K \<Longrightarrow> sorted_wrt lt (map fst m) \<Longrightarrow>
     smap_upper lt k m = filter (\<lambda>(k', v). lt k k') m"
proof (induction m)
  case (Cons x m)
  have "filter (\<lambda>(k', v). lt k k') m = m" if "lt k (fst x)"
    using that Cons.prems trans[of k "fst x"] by (intro filter_True) fastforce
  with Cons show ?case by (cases x) (auto simp: smap_upper_def)
qed (simp add: smap_upper_def)

end

definition smap_wf :: "('k \<Rightarrow> 'k \<Rightarrow> bool) \<Rightarrow> 'k set \<Rightarrow> ('k, 'v) smap \<Rightarrow> bool" where
  "smap_wf lt K m \<longleftrightarrow> fst ` set m \<subseteq> K \<and> sorted_wrt lt (map fst m)"

sublocale key_order \<subseteq>
  dictionary K "\<lambda>m k. smap_find lt k m" "smap_put lt" "smap_erase lt" "smap_wf lt K"
proof (unfold_locales, goal_cases)
  case (1 m a b v)
  then have "fst ` set (smap_put lt a v m) \<subseteq> K"
    using keys_put[of m a v] by (auto simp: smap_wf_def)
  with 1 show ?case by (simp add: smap_wf_def find_map_of map_of_put)
next
  case (2 m a b)
  then have "fst ` set (smap_erase lt a m) \<subseteq> K"
    using keys_erase[of a m] by (auto simp: smap_wf_def)
  with 2 show ?case by (simp add: smap_wf_def find_map_of map_of_erase)
next
  case (3 m a v)
  then show ?case
    using keys_put[of m a v] sorted_put[of m a v] by (auto simp: smap_wf_def)
next
  case (4 m a)
  then show ?case
    using keys_erase[of a m] sorted_erase[of m a] by (auto simp: smap_wf_def)
qed

end
