(* ===== verification/Napt.thy ===== *)
theory Napt
  imports StdMap
begin

text \<open>
  \<^verbatim>\<open>libtun/include/libtun/napt.h\<close>: the network address and port translation table. The type
  of addresses is a parameter, as in the code. The \<open>object_pool\<close> of connections, which the
  table never frees, is a list, and a \<open>Connection*\<close> is an index into it. The field
  \<open>stateMachine\<close> of a connection is never written or read and is left out.
\<close>

section \<open>Data\<close>

record 'ip connection =
  serverIP :: 'ip
  serverPort :: u16
  clientID :: u16
  clientPort :: u16
  localPort :: u16

record 'ip server_key =
  sk_serverIP :: 'ip
  sk_serverPort :: u16
  sk_localPort :: u16

record client_key =
  ck_clientID :: u16
  ck_clientPort :: u16

text \<open>\<open>ClientKey::operator <\<close>, as it is written.\<close>

definition client_less :: "client_key \<Rightarrow> client_key \<Rightarrow> bool" where
  "client_less a k =
     (if ck_clientID a = ck_clientID k then ck_clientPort a < ck_clientPort k
      else ck_clientID a = ck_clientID k)"

text \<open>
  \<open>_serverMap\<close> is an \<open>unordered_map\<close>, whose behaviour depends on the key's \<open>==\<close> only;
  \<open>_clientMap\<close> is a \<open>std::map\<close> under \<open>client_less\<close>.
\<close>

record 'ip napt =
  portFrom :: u16
  portTo :: u16
  serverMap :: "'ip server_key \<rightharpoonup> nat"
  clientMap :: "(client_key, nat) smap"
  conns :: "'ip connection list"

definition newNapt :: "u16 \<Rightarrow> u16 \<Rightarrow> 'ip napt" where
  "newNapt availablePortFrom availablePortTo =
     \<lparr>portFrom = availablePortFrom, portTo = availablePortTo, serverMap = Map.empty,
      clientMap = [], conns = []\<rparr>"

definition copyNapt :: "'ip napt \<Rightarrow> 'ip napt" where
  "copyNapt other = newNapt (portFrom other) (portTo other)"

definition deref_conn :: "'ip napt \<Rightarrow> nat \<Rightarrow> 'ip connection res" where
  "deref_conn n c = (if c < length (conns n) then Inr (conns n ! c) else Inl OutOfBounds)"

definition server_key_of :: "'ip connection \<Rightarrow> 'ip server_key" where
  "server_key_of c =
     \<lparr>sk_serverIP = serverIP c, sk_serverPort = serverPort c, sk_localPort = localPort c\<rparr>"

text \<open>A use of the client map with a key: a fault where the comparison is no strict weak order.\<close>

definition client_keys_ok :: "'ip napt \<Rightarrow> client_key \<Rightarrow> bool" where
  "client_keys_ok n ck = strict_weak client_less (ck # map fst (clientMap n))"

section \<open>Hashes\<close>

text \<open>
  \<open>ServerKeyHash\<close> and \<open>ClientKeyHash\<close> over \<open>boost::hash_combine\<close> of a byte and of a port. The second
  is not used by any map.
\<close>

definition server_hash :: "('ip \<Rightarrow> bytes) \<Rightarrow> (u64 \<Rightarrow> u8 \<Rightarrow> u64) \<Rightarrow> (u64 \<Rightarrow> u16 \<Rightarrow> u64) \<Rightarrow> 'ip server_key \<Rightarrow> u64" where
  "server_hash to_bytes combine8 combine16 k =
     combine16 (foldl combine8 0 (to_bytes (sk_serverIP k))) (sk_serverPort k)"

definition client_hash :: "(u64 \<Rightarrow> u16 \<Rightarrow> u64) \<Rightarrow> client_key \<Rightarrow> u64" where
  "client_hash combine16 k = combine16 (combine16 0 (ck_clientID k)) (ck_clientPort k)"

text \<open>The local port is not hashed: all connections to one port of a host share a bucket.\<close>

lemma server_hash_collides:
  "sk_serverIP a = sk_serverIP b \<Longrightarrow> sk_serverPort a = sk_serverPort b \<Longrightarrow>
    server_hash to_bytes c8 c16 a = server_hash to_bytes c8 c16 b"
  by (simp add: server_hash_def)

section \<open>Lookups\<close>

definition find_server :: "'ip napt \<Rightarrow> 'ip \<Rightarrow> u16 \<Rightarrow> u16 \<Rightarrow> nat option" where
  "find_server n ip sport lport =
     serverMap n \<lparr>sk_serverIP = ip, sk_serverPort = sport, sk_localPort = lport\<rparr>"

definition find_client :: "'ip napt \<Rightarrow> u16 \<Rightarrow> u16 \<Rightarrow> nat option res" where
  "find_client n cid cport =
     (let ck = \<lparr>ck_clientID = cid, ck_clientPort = cport\<rparr>
      in if client_keys_ok n ck then Inr (smap_find client_less ck (clientMap n))
         else Inl InvalidOrder)"

section \<open>createIfNotExist\<close>

text \<open>
  The port loop: \<open>for (uint16_t p = _portFrom; p <= _portTo; p++) { sk.localPort = p; if
  (free) break; }\<close>, giving \<open>sk.localPort\<close> at its end, which is 0 before the first
  iteration. The counter is a \<open>uint16_t\<close>: with \<open>_portTo\<close> 65535 it wraps to 0 and goes on.
  The fuel bounds the iterations; \<open>None\<close> is a loop that has not ended.
\<close>

fun scan_port :: "nat \<Rightarrow> (u16 \<Rightarrow> bool) \<Rightarrow> u16 \<Rightarrow> u16 \<Rightarrow> u16 \<Rightarrow> u16 option" where
  "scan_port 0 used p hi cur = None"
| "scan_port (Suc fuel) used p hi cur =
     (if p \<le> hi then (if used p then scan_port fuel used (p + 1) hi p else Some p)
      else Some cur)"

text \<open>Fuel for every value of the counter and one more test.\<close>

definition scan_fuel :: nat where
  "scan_fuel = 65537"

definition pick_port :: "'ip napt \<Rightarrow> 'ip \<Rightarrow> u16 \<Rightarrow> u16 option" where
  "pick_port n ip sport =
     scan_port scan_fuel
       (\<lambda>p. serverMap n \<lparr>sk_serverIP = ip, sk_serverPort = sport, sk_localPort = p\<rparr> \<noteq> None)
       (portFrom n) (portTo n) 0"

definition create_conn :: "'ip napt \<Rightarrow> u16 \<Rightarrow> u16 \<Rightarrow> 'ip \<Rightarrow> u16 \<Rightarrow> ('ip napt \<times> nat option) res" where
  "create_conn n cid cport ip sport =
     (case pick_port n ip sport of
        None \<Rightarrow> Inl Diverges
      | Some lp \<Rightarrow>
          if lp < portFrom n \<or> lp > portTo n then Inr (n, None)
          else
            let ptr = length (conns n);
                conn = \<lparr>serverIP = ip, serverPort = sport, clientID = cid, clientPort = cport,
                        localPort = lp\<rparr>;
                ck = \<lparr>ck_clientID = cid, ck_clientPort = cport\<rparr>
            in Inr (n\<lparr>conns := conns n @ [conn],
                      serverMap := (serverMap n)(server_key_of conn \<mapsto> ptr),
                      clientMap := smap_put client_less ck ptr (clientMap n)\<rparr>, Some ptr))"

definition createIfNotExist :: "'ip napt \<Rightarrow> u16 \<Rightarrow> u16 \<Rightarrow> 'ip \<Rightarrow> u16 \<Rightarrow> ('ip napt \<times> nat option) res" where
  "createIfNotExist n cid cport ip sport =
     rbind (find_client n cid cport) (\<lambda>conn.
       case conn of
         None \<Rightarrow> create_conn n cid cport ip sport
       | Some c \<Rightarrow>
           rbind (deref_conn n c) (\<lambda>x.
             if serverIP x = ip \<and> serverPort x = sport then Inr (n, Some c)
             else create_conn n cid cport ip sport))"

section \<open>removeClient\<close>

text \<open>
  The loop from the iterator on: erase the server key of the connection and the element,
  until another client's element or the end. Its argument is a \<open>uint8_t\<close>.
\<close>

fun remove_loop :: "'ip napt \<Rightarrow> u8 \<Rightarrow> (client_key, nat) smap \<Rightarrow>
    ('ip server_key \<rightharpoonup> nat) \<Rightarrow> (('ip server_key \<rightharpoonup> nat) \<times> (client_key, nat) smap) res" where
  "remove_loop n cid [] sm = Inr (sm, [])"
| "remove_loop n cid ((k, c) # it) sm =
     (if ck_clientID k \<noteq> ucast cid then Inr (sm, (k, c) # it)
      else rbind (deref_conn n c) (\<lambda>x. remove_loop n cid it (sm(server_key_of x := None))))"

definition removeClient :: "'ip napt \<Rightarrow> u8 \<Rightarrow> 'ip napt res" where
  "removeClient n cid =
     (let ck = \<lparr>ck_clientID = ucast cid, ck_clientPort = 0\<rparr>;
          it = smap_upper client_less ck (clientMap n)
      in if client_keys_ok n ck then
           rbind (remove_loop n cid it (serverMap n)) (\<lambda>(sm, rest).
             Inr (n\<lparr>serverMap := sm,
                    clientMap := take (length (clientMap n) - length it) (clientMap n) @ rest\<rparr>))
         else Inl InvalidOrder)"

section \<open>The port loop\<close>

text \<open>The reference: the least number in a range that is not used as a port.\<close>

definition first_free :: "(u16 \<Rightarrow> bool) \<Rightarrow> nat \<Rightarrow> nat \<Rightarrow> nat option" where
  "first_free used a b = find (\<lambda>i. \<not> used (of_nat i)) [a..<b]"

lemma first_free_Some:
  "first_free used a b = Some q \<Longrightarrow>
     a \<le> q \<and> q < b \<and> \<not> used (of_nat q) \<and> (\<forall>i. a \<le> i \<and> i < q \<longrightarrow> used (of_nat i))"
proof -
  assume "first_free used a b = Some q"
  then obtain k where k: "k < b - a" "\<not> used (of_nat (a + k))" "q = a + k"
      "\<forall>j<k. used (of_nat (a + j))"
    by (auto simp: first_free_def find_Some_iff)
  have "used (of_nat i)" if "a \<le> i" "i < q" for i
    using k(3) k(4)[rule_format, of "i - a"] that by (simp del: of_nat_add of_nat_diff)
  with k show ?thesis by auto
qed

lemma first_free_None: "first_free used a b = None \<longleftrightarrow> (\<forall>i. a \<le> i \<and> i < b \<longrightarrow> used (of_nat i))"
  by (auto simp: first_free_def find_None_iff)

lemma unat_Suc16: "unat p < 65535 \<Longrightarrow> unat (p + 1) = Suc (unat p)" for p :: u16
  by (subst unat_add_lt) simp_all

text \<open>Runs that do not wrap: from \<open>p\<close>, over used ports only, up to \<open>q\<close>.\<close>

lemma scan_port_run:
  assumes "unat p + k \<le> unat hi" "\<forall>i < k. used (of_nat (unat p + i))" "k < fuel"
  shows "scan_port fuel used p hi cur
    = scan_port (fuel - k) used (of_nat (unat p + k)) hi (if k = 0 then cur else of_nat (unat p + k - 1))"
  using assms
proof (induction k arbitrary: p cur fuel)
  case 0
  then show ?case by simp
next
  case (Suc k)
  then obtain f where f: "fuel = Suc f" by (cases fuel) auto
  have lt: "unat p < 65535" using Suc.prems(1) unat_bound16[of hi] by linarith
  have "used p" using Suc.prems(2) by (auto dest: spec[of _ 0])
  moreover have "p \<le> hi" using Suc.prems(1) by (simp add: word_le_nat_alt)
  ultimately have "scan_port fuel used p hi cur = scan_port f used (p + 1) hi p"
    using f by simp
  also have "\<dots> = scan_port (f - k) used (of_nat (unat (p + 1) + k)) hi
      (if k = 0 then p else of_nat (unat (p + 1) + k - 1))"
  proof (rule Suc.IH)
    show "unat (p + 1) + k \<le> unat hi" using Suc.prems(1) lt by (simp add: unat_Suc16)
    show "\<forall>i<k. used (of_nat (unat (p + 1) + i))"
    proof (intro allI impI)
      fix i
      assume "i < k"
      moreover have "unat (p + 1) + i = unat p + Suc i" using lt by (simp add: unat_Suc16)
      ultimately show "used (of_nat (unat (p + 1) + i))"
        using Suc.prems(2)[rule_format, of "Suc i"] by (simp only: Suc_less_eq)
    qed
    show "k < f" using Suc.prems(3) f by simp
  qed
  finally show ?case
    using f lt by (simp add: unat_Suc16 del: of_nat_Suc of_nat_add)
qed

lemma scan_port_found:
  assumes "unat p \<le> q" "q \<le> unat hi" "\<not> used (of_nat q)"
    and "\<forall>i. unat p \<le> i \<and> i < q \<longrightarrow> used (of_nat i)" "q - unat p < fuel"
  shows "scan_port fuel used p hi cur = Some (of_nat q)"
proof -
  let ?k = "q - unat p"
  have "used (of_nat (unat p + i))" if "i < ?k" for i
    using that by (intro assms(4)[rule_format]) simp
  then have "scan_port fuel used p hi cur
      = scan_port (fuel - ?k) used (of_nat (unat p + ?k)) hi (if ?k = 0 then cur else of_nat (unat p + ?k - 1))"
    using assms(1,2,5) by (intro scan_port_run) simp_all
  moreover have "(of_nat q :: u16) \<le> hi"
    using assms(2) unat_bound16[of hi] by (simp add: word_le_nat_alt unat_of_nat)
  moreover obtain g where "fuel - ?k = Suc g" using assms(5) by (cases "fuel - ?k") auto
  ultimately show ?thesis using assms(1,3) by simp
qed

lemma scan_port_all_used:
  assumes "p \<le> hi" "\<forall>i. unat p \<le> i \<and> i \<le> unat hi \<longrightarrow> used (of_nat i)" "unat hi - unat p < fuel"
  shows "scan_port fuel used p hi cur = scan_port (fuel - Suc (unat hi - unat p)) used (hi + 1) hi hi"
proof -
  let ?k = "unat hi - unat p"
  have le: "unat p \<le> unat hi" using assms(1) by (simp add: word_le_nat_alt)
  have "used (of_nat (unat p + i))" if "i < ?k" for i
    using that by (intro assms(2)[rule_format]) simp
  then have "scan_port fuel used p hi cur
      = scan_port (fuel - ?k) used (of_nat (unat p + ?k)) hi (if ?k = 0 then cur else of_nat (unat p + ?k - 1))"
    using assms(3) le by (intro scan_port_run) simp_all
  moreover have "of_nat (unat p + ?k) = hi" using le by simp
  moreover obtain g where g: "fuel - ?k = Suc g" using assms(3) by (cases "fuel - ?k") auto
  moreover have "fuel - Suc ?k = g" using g by simp
  moreover have "used hi" using assms(2) le by (auto dest: spec[of _ "unat hi"])
  ultimately show ?thesis by simp
qed

lemma scan_port_diverges: "(\<And>p. used p) \<Longrightarrow> scan_port fuel used p 65535 cur = None"
proof (induction fuel arbitrary: p cur)
  case (Suc fuel)
  moreover have "p \<le> 65535" using unat_bound16[of p] by (simp add: word_le_nat_alt)
  ultimately show ?case by simp
qed simp

lemma scan_port_result:
  "scan_port scan_fuel used lo hi 0 =
    (case first_free used (unat lo) (Suc (unat hi)) of
       Some q \<Rightarrow> Some (of_nat q)
     | None \<Rightarrow>
         if hi < lo then Some 0
         else if hi \<noteq> 65535 then Some hi
         else map_option of_nat (first_free used 0 (unat lo)))"
proof (cases "first_free used (unat lo) (Suc (unat hi))")
  case (Some q)
  from first_free_Some[OF this] have "scan_port scan_fuel used lo hi 0 = Some (of_nat q)"
    using unat_bound16[of hi] by (intro scan_port_found) (auto simp: scan_fuel_def)
  with Some show ?thesis by simp
next
  case None
  then have all: "\<forall>i. unat lo \<le> i \<and> i \<le> unat hi \<longrightarrow> used (of_nat i)"
    by (auto simp: first_free_None)
  obtain g where fuel: "scan_fuel = Suc g" by (cases scan_fuel) (simp_all add: scan_fuel_def)
  show ?thesis
  proof (cases "hi < lo")
    case True
    moreover from True have "\<not> lo \<le> hi" by simp
    ultimately show ?thesis using None by (simp add: fuel)
  next
    case False
    let ?f = "scan_fuel - Suc (unat hi - unat lo)"
    have step: "scan_port scan_fuel used lo hi 0 = scan_port ?f used (hi + 1) hi hi"
      using False all unat_bound16[of hi] by (intro scan_port_all_used) (simp_all add: scan_fuel_def)
    show ?thesis
    proof (cases "hi = 65535")
      case hi: True
      have f: "?f = Suc (unat lo)"
        using unat_bound16[of lo] by (simp add: scan_fuel_def hi)
      show ?thesis
      proof (cases "first_free used 0 (unat lo)")
        case None2: None
        have "used p" for p
        proof -
          have "used (of_nat (unat p))"
          proof (cases "unat lo \<le> unat p")
            case True
            then show ?thesis
              using unat_bound16[of p] by (intro all[rule_format]) (simp add: hi)
          next
            case False
            then show ?thesis
              using None2[unfolded first_free_None] by (simp del: of_nat_unat)
          qed
          then show ?thesis by simp
        qed
        then show ?thesis using None None2 False hi scan_port_diverges[of used] by simp
      next
        case (Some q)
        from first_free_Some[OF Some] have "scan_port ?f used 0 hi hi = Some (of_nat q)"
          using unat_bound16[of lo] f hi by (intro scan_port_found) auto
        moreover have "hi + 1 = 0" unfolding hi by code_simp
        ultimately show ?thesis using Some None False step hi by (simp only: option.case if_True if_False option.map simp_thms)
      qed
    next
      case other: False
      then have "unat hi \<noteq> unat (65535 :: u16)"
        by (simp only: unsigned_word_eqI word_unat_eq_iff not_False_eq_True)
      then have "unat hi < 65535"
        using unat_bound16[of hi] by simp
      then have "\<not> hi + 1 \<le> hi" by (simp add: word_le_nat_alt unat_Suc16)
      moreover obtain g where "?f = Suc g"
        using unat_bound16[of hi] by (cases ?f) (simp_all add: scan_fuel_def)
      ultimately show ?thesis using None False other step by simp
    qed
  qed
qed

section \<open>The comparison of client keys\<close>

text \<open>The keys of one client are ordered by port, which is what the code wants of the map.\<close>

lemma client_key_eq_iff:
  "a = b \<longleftrightarrow> ck_clientID a = ck_clientID b \<and> ck_clientPort a = ck_clientPort b" for a b :: client_key
  by (auto intro: client_key.equality)

interpretation one_client: key_order client_less "{k. ck_clientID k = c}" for c
  by unfold_locales (auto simp: client_less_def client_key_eq_iff)

text \<open>
  \<open>ClientKey::operator <\<close> is false for keys of different clients, both ways. It is a
  strict weak order, as \<open>std::map\<close> requires, on a list of keys exactly when they all belong to
  one client, or no client has two different keys among them; a second port of one of two
  clients makes the use of the map undefined.
\<close>

theorem client_less_strict_weak:
  "strict_weak client_less ks \<longleftrightarrow>
     (\<forall>a\<in>set ks. \<forall>b\<in>set ks. ck_clientID a = ck_clientID b)
     \<or> (\<forall>a\<in>set ks. \<forall>b\<in>set ks. ck_clientID a = ck_clientID b \<longrightarrow> a = b)"
    (is "?swo \<longleftrightarrow> ?one \<or> ?single")
proof
  assume swo: ?swo
  show "?one \<or> ?single"
  proof (rule ccontr)
    assume "\<not> (?one \<or> ?single)"
    then obtain a b c d where abcd: "a \<in> set ks" "b \<in> set ks" "c \<in> set ks" "d \<in> set ks"
      "ck_clientID a = ck_clientID b" "a \<noteq> b" "ck_clientID c \<noteq> ck_clientID d"
      by blast
    then obtain e where e: "e \<in> set ks" "ck_clientID e \<noteq> ck_clientID a" by metis
    then have "equivalent client_less a e" "equivalent client_less e b"
      using abcd(5) by (auto simp: equivalent_def client_less_def)
    then have "equivalent client_less a b"
      using swo abcd(1,2) e(1) unfolding strict_weak_def by blast
    then show False
      using abcd(5,6) one_client.equivalent_iff[of a "ck_clientID a" b] by simp
  qed
next
  assume "?one \<or> ?single"
  then show ?swo
  proof
    assume ?one
    then show ?swo
    proof (cases ks)
      case (Cons k ks')
      with \<open>?one\<close> show ?thesis
        by (intro one_client.strict_weak[where c = "ck_clientID k"]) auto
    qed (simp add: strict_weak_def)
  next
    assume single: ?single
    have "\<not> client_less a b" if "a \<in> set ks" "b \<in> set ks" for a b
      using single that by (auto simp: client_less_def)
    then show ?swo unfolding strict_weak_def equivalent_def by blast
  qed
qed

section \<open>The invariant of the table\<close>

text \<open>
  Every entry of the server map leads to the connection it is the key of, at a port of the
  configured range; the client map leads to connections.
\<close>

definition napt_wf :: "'ip napt \<Rightarrow> bool" where
  "napt_wf n \<longleftrightarrow>
     (\<forall>k c. serverMap n k = Some c \<longrightarrow>
        c < length (conns n) \<and> server_key_of (conns n ! c) = k
        \<and> portFrom n \<le> sk_localPort k \<and> sk_localPort k \<le> portTo n)
     \<and> (\<forall>x\<in>set (clientMap n). snd x < length (conns n))"

lemma newNapt_wf: "napt_wf (newNapt a b)"
  by (simp add: napt_wf_def newNapt_def)

definition port_used :: "'ip napt \<Rightarrow> 'ip \<Rightarrow> u16 \<Rightarrow> u16 \<Rightarrow> bool" where
  "port_used n ip sport p \<longleftrightarrow> find_server n ip sport p \<noteq> None"

definition add_conn :: "'ip napt \<Rightarrow> u16 \<Rightarrow> u16 \<Rightarrow> 'ip \<Rightarrow> u16 \<Rightarrow> u16 \<Rightarrow> 'ip napt" where
  "add_conn n cid cport ip sport lp =
     (let conn = \<lparr>serverIP = ip, serverPort = sport, clientID = cid, clientPort = cport,
                  localPort = lp\<rparr>
      in n\<lparr>conns := conns n @ [conn],
           serverMap := (serverMap n)(server_key_of conn \<mapsto> length (conns n)),
           clientMap := smap_put client_less \<lparr>ck_clientID = cid, ck_clientPort = cport\<rparr>
             (length (conns n)) (clientMap n)\<rparr>)"

lemma pick_port_eq:
  "pick_port n ip sport =
    (case first_free (port_used n ip sport) (unat (portFrom n)) (Suc (unat (portTo n))) of
       Some q \<Rightarrow> Some (of_nat q)
     | None \<Rightarrow>
         if portTo n < portFrom n then Some 0
         else if portTo n \<noteq> 65535 then Some (portTo n)
         else map_option of_nat (first_free (port_used n ip sport) 0 (unat (portFrom n))))"
proof -
  have "(\<lambda>p. serverMap n \<lparr>sk_serverIP = ip, sk_serverPort = sport, sk_localPort = p\<rparr> \<noteq> None)
      = port_used n ip sport"
    by (simp add: fun_eq_iff port_used_def find_server_def)
  then show ?thesis by (simp only: pick_port_def scan_port_result)
qed

lemma create_conn_eq:
  "create_conn n cid cport ip sport =
    (case pick_port n ip sport of
       None \<Rightarrow> Inl Diverges
     | Some lp \<Rightarrow>
         if lp < portFrom n \<or> lp > portTo n then Inr (n, None)
         else Inr (add_conn n cid cport ip sport lp, Some (length (conns n))))"
  by (simp add: create_conn_def add_conn_def Let_def split: option.splits)

lemma add_conn_wf:
  assumes "napt_wf n" "portFrom n \<le> lp" "lp \<le> portTo n"
  shows "napt_wf (add_conn n cid cport ip sport lp)"
proof -
  let ?ck = "\<lparr>ck_clientID = cid, ck_clientPort = cport\<rparr>"
  have "snd x < Suc (length (conns n))"
    if "x \<in> set (smap_put client_less ?ck (length (conns n)) (clientMap n))" for x
    using that set_smap_put[of client_less ?ck "length (conns n)" "clientMap n"] assms(1)
    by (fastforce simp: napt_wf_def)
  with assms show ?thesis
    by (auto simp: napt_wf_def add_conn_def Let_def nth_append server_key_of_def less_Suc_eq
        split: if_splits)
qed

lemma add_conn_finds:
  "find_server (add_conn n cid cport ip sport lp) ip sport lp = Some (length (conns n))"
  "conns (add_conn n cid cport ip sport lp) ! length (conns n)
    = \<lparr>serverIP = ip, serverPort = sport, clientID = cid, clientPort = cport, localPort = lp\<rparr>"
  by (simp_all add: add_conn_def find_server_def server_key_of_def Let_def)

lemma add_conn_find_client:
  assumes "client_keys_ok n \<lparr>ck_clientID = cid, ck_clientPort = cport\<rparr>"
  shows "find_client (add_conn n cid cport ip sport lp) cid cport = Inr (Some (length (conns n)))"
proof -
  let ?n = "add_conn n cid cport ip sport lp" and ?ck = "\<lparr>ck_clientID = cid, ck_clientPort = cport\<rparr>"
  have "set (?ck # map fst (clientMap ?n)) \<subseteq> set (?ck # map fst (clientMap n))"
    using keys_smap_put[of client_less ?ck "length (conns n)" "clientMap n"]
    by (auto simp: add_conn_def Let_def)
  then have "client_keys_ok ?n ?ck"
    using assms strict_weak_subset unfolding client_keys_ok_def by blast
  moreover have "smap_find client_less ?ck (clientMap ?n) = Some (length (conns n))"
    by (simp add: add_conn_def Let_def smap_find_put_same client_less_def)
  ultimately show ?thesis by (simp add: find_client_def)
qed

section \<open>What createIfNotExist promises\<close>

text \<open>The client's map entry, if it has one, leads to another server: a connection is made.\<close>

definition needs_new :: "'ip napt \<Rightarrow> u16 \<Rightarrow> u16 \<Rightarrow> 'ip \<Rightarrow> u16 \<Rightarrow> bool" where
  "needs_new n cid cport ip sport =
     (case find_client n cid cport of
        Inl e \<Rightarrow> False
      | Inr None \<Rightarrow> True
      | Inr (Some c) \<Rightarrow> c < length (conns n)
          \<and> \<not> (serverIP (conns n ! c) = ip \<and> serverPort (conns n ! c) = sport))"

lemma find_client_wf:
  "napt_wf n \<Longrightarrow> find_client n cid cport = Inr (Some c) \<Longrightarrow> c < length (conns n)"
  by (auto simp: find_client_def Let_def napt_wf_def split: if_splits dest!: smap_find_in)

lemma createIfNotExist_cases:
  assumes "napt_wf n" "client_keys_ok n \<lparr>ck_clientID = cid, ck_clientPort = cport\<rparr>"
  shows "(needs_new n cid cport ip sport
      \<and> createIfNotExist n cid cport ip sport = create_conn n cid cport ip sport)
    \<or> (\<exists>c. find_client n cid cport = Inr (Some c) \<and> c < length (conns n)
        \<and> serverIP (conns n ! c) = ip \<and> serverPort (conns n ! c) = sport
        \<and> createIfNotExist n cid cport ip sport = Inr (n, Some c))"
proof -
  obtain r where r: "find_client n cid cport = Inr r"
    using assms(2) by (simp add: find_client_def)
  show ?thesis
  proof (cases r)
    case None
    with r show ?thesis by (simp add: needs_new_def createIfNotExist_def)
  next
    case (Some c)
    with r find_client_wf[OF assms(1), of cid cport c] show ?thesis
      by (auto simp: needs_new_def createIfNotExist_def deref_conn_def)
  qed
qed

lemma needs_new_create:
  "needs_new n cid cport ip sport \<Longrightarrow>
     createIfNotExist n cid cport ip sport = create_conn n cid cport ip sport"
  by (auto simp: needs_new_def createIfNotExist_def deref_conn_def split: sum.splits option.splits)

lemma createIfNotExist_ok:
  "createIfNotExist n cid cport ip sport = Inr r \<Longrightarrow>
     client_keys_ok n \<lparr>ck_clientID = cid, ck_clientPort = cport\<rparr>"
  by (auto simp: createIfNotExist_def find_client_def Let_def split: if_splits)

lemma create_conn_Inr:
  assumes "create_conn n cid cport ip sport = Inr (n', Some c)"
  obtains lp where "n' = add_conn n cid cport ip sport lp" "c = length (conns n)"
    "portFrom n \<le> lp" "lp \<le> portTo n"
  using assms that by (auto simp: create_conn_eq split: option.splits if_splits)

lemma create_new:
  assumes wf: "napt_wf n" and run: "createIfNotExist n cid cport ip sport = Inr (n', Some c)" and new: "n' \<noteq> n"
  shows "\<exists>lp. n' = add_conn n cid cport ip sport lp \<and> c = length (conns n) \<and> portFrom n \<le> lp \<and> lp \<le> portTo n"
  using createIfNotExist_cases[OF wf createIfNotExist_ok[OF run], of ip sport]
proof (elim disjE exE conjE)
  assume "createIfNotExist n cid cport ip sport = create_conn n cid cport ip sport"
  with run show ?thesis by (metis create_conn_Inr)
qed (use run new in auto)

text \<open>
  C37. When \<open>createIfNotExist\<close> returns a connection, it is one to the server asked for and
  \<open>find\<close> by client leads to it; if it was made by this call, it belongs to the client and
  port asked for, it is found under its server key, and its local port is one of the
  configured range. The table keeps its invariant.
\<close>

theorem createIfNotExist_returns:
  assumes wf: "napt_wf n" and run: "createIfNotExist n cid cport ip sport = Inr (n', Some c)"
  shows "napt_wf n' \<and> find_client n' cid cport = Inr (Some c)
    \<and> (\<exists>x. deref_conn n' c = Inr x \<and> serverIP x = ip \<and> serverPort x = sport
        \<and> (n' \<noteq> n \<longrightarrow> clientID x = cid \<and> clientPort x = cport
            \<and> portFrom n \<le> localPort x \<and> localPort x \<le> portTo n
            \<and> find_server n' ip sport (localPort x) = Some c))"
proof -
  have ok: "client_keys_ok n \<lparr>ck_clientID = cid, ck_clientPort = cport\<rparr>"
    using run by (rule createIfNotExist_ok)
  from createIfNotExist_cases[OF wf ok, of ip sport] show ?thesis
  proof (elim disjE exE conjE)
    fix d
    assume "find_client n cid cport = Inr (Some d)" "d < length (conns n)"
      "serverIP (conns n ! d) = ip" "serverPort (conns n ! d) = sport"
      "createIfNotExist n cid cport ip sport = Inr (n, Some d)"
    with wf run show ?thesis by (simp add: deref_conn_def)
  next
    assume "createIfNotExist n cid cport ip sport = create_conn n cid cport ip sport"
    with run obtain lp where lp: "n' = add_conn n cid cport ip sport lp" "c = length (conns n)"
      "portFrom n \<le> lp" "lp \<le> portTo n"
      by (metis create_conn_Inr)
    moreover have "length (conns n') = Suc (length (conns n))"
      using lp(1) by (simp add: add_conn_def Let_def)
    ultimately show ?thesis
      using add_conn_wf[OF wf lp(3,4)] add_conn_find_client[OF ok] add_conn_finds[of n cid cport ip sport lp]
      by (simp add: deref_conn_def)
  qed
qed

text \<open>
  As long as a port of the range is free for the server, a new connection gets the least
  free one, and no entry of the server map is lost: replies for every older connection still
  find it.
\<close>

theorem createIfNotExist_least_port:
  assumes "needs_new n cid cport ip sport"
    and "first_free (port_used n ip sport) (unat (portFrom n)) (Suc (unat (portTo n))) = Some q"
  shows "\<exists>n'. createIfNotExist n cid cport ip sport = Inr (n', Some (length (conns n)))
    \<and> localPort (conns n' ! length (conns n)) = of_nat q
    \<and> (\<forall>k c. serverMap n k = Some c \<longrightarrow> serverMap n' k = Some c)"
proof -
  from first_free_Some[OF assms(2)]
  have q: "unat (portFrom n) \<le> q" "q \<le> unat (portTo n)" "\<not> port_used n ip sport (of_nat q)"
    by auto
  then have "q < 65536" using unat_bound16[of "portTo n"] by linarith
  then have "\<not> (of_nat q < portFrom n \<or> of_nat q > portTo n)"
    using q by (simp add: word_less_nat_alt unat_of_nat)
  then have "createIfNotExist n cid cport ip sport
      = Inr (add_conn n cid cport ip sport (of_nat q), Some (length (conns n)))"
    using assms by (simp add: needs_new_create create_conn_eq pick_port_eq)
  then show ?thesis
    using q(3) add_conn_finds[of n cid cport ip sport "of_nat q"]
    by (auto simp: add_conn_def Let_def port_used_def find_server_def server_key_of_def)
qed

text \<open>
  When every port of the range is used for the server, the call does not fail: the loop
  leaves the last port in \<open>sk.localPort\<close>, which passes the test after it, and the new
  connection takes over that port's entry of the server map. Replies for the older
  connection on it then lead to the new one.
\<close>

theorem createIfNotExist_exhausted:
  assumes "napt_wf n" "needs_new n cid cport ip sport" "portFrom n \<le> portTo n" "portTo n \<noteq> 65535"
    and "\<forall>p. portFrom n \<le> p \<and> p \<le> portTo n \<longrightarrow> port_used n ip sport p"
  shows "\<exists>n' old new. createIfNotExist n cid cport ip sport = Inr (n', Some new)
    \<and> find_server n ip sport (portTo n) = Some old \<and> old \<noteq> new
    \<and> find_server n' ip sport (portTo n) = Some new"
proof -
  have "first_free (port_used n ip sport) (unat (portFrom n)) (Suc (unat (portTo n))) = None"
    unfolding first_free_None
  proof (intro allI impI)
    fix i
    assume i: "unat (portFrom n) \<le> i \<and> i < Suc (unat (portTo n))"
    then have "i < 65536" using unat_bound16[of "portTo n"] by linarith
    with i show "port_used n ip sport (of_nat i)"
      by (intro assms(5)[rule_format]) (simp add: word_le_nat_alt unat_of_nat)
  qed
  then have "createIfNotExist n cid cport ip sport
      = Inr (add_conn n cid cport ip sport (portTo n), Some (length (conns n)))"
    using assms(2-4) by (simp add: needs_new_create create_conn_eq pick_port_eq not_less)
  moreover obtain old where "find_server n ip sport (portTo n) = Some old"
    using assms(3,5) by (auto simp: port_used_def)
  moreover from this have "old \<noteq> length (conns n)"
    using assms(1) by (auto simp: napt_wf_def find_server_def)
  ultimately show ?thesis
    using add_conn_finds(1)[of n cid cport ip sport "portTo n"] by blast
qed

lemma createIfNotExist_defined:
  assumes wf: "napt_wf n" and ok: "client_keys_ok n \<lparr>ck_clientID = cid, ck_clientPort = cport\<rparr>"
    and low: "0 < portFrom n"
  shows "\<exists>n' r. createIfNotExist n cid cport ip sport = Inr (n', r) \<and> napt_wf n'
    \<and> (r = None \<longrightarrow> n' = n \<and> (portTo n < portFrom n
        \<or> portTo n = 65535 \<and> (\<forall>p. portFrom n \<le> p \<longrightarrow> port_used n ip sport p)))"
proof -
  have "find_server n ip sport 0 = None"
  proof (cases "find_server n ip sport 0")
    case (Some c)
    with wf have "portFrom n \<le> 0" by (force simp: napt_wf_def find_server_def)
    with low show ?thesis by simp
  qed
  then have free0: "\<not> port_used n ip sport (of_nat 0)" by (simp add: port_used_def)
  have "pick_port n ip sport \<noteq> None"
  proof
    assume none: "pick_port n ip sport = None"
    then have "first_free (port_used n ip sport) 0 (unat (portFrom n)) = None"
      by (auto simp: pick_port_eq split: option.splits if_splits)
    with free0 low show False by (auto simp: first_free_None word_less_nat_alt)
  qed
  then obtain lp where lp: "pick_port n ip sport = Some lp" by blast
  have null: "portTo n < portFrom n \<or> portTo n = 65535 \<and> (\<forall>p. portFrom n \<le> p \<longrightarrow> port_used n ip sport p)"
    if "lp < portFrom n \<or> lp > portTo n"
  proof (rule ccontr)
    assume c: "\<not> ?thesis"
    have in_range: False if "first_free (port_used n ip sport) (unat (portFrom n)) (Suc (unat (portTo n))) = Some q" for q
    proof -
      from first_free_Some[OF that] have "unat (portFrom n) \<le> q" "q \<le> unat (portTo n)" by auto
      moreover from this have "q < 65536" using unat_bound16[of "portTo n"] by linarith
      moreover have "lp = of_nat q" using lp that by (simp add: pick_port_eq)
      ultimately show False
        using \<open>lp < portFrom n \<or> lp > portTo n\<close> by (simp add: word_less_nat_alt unat_of_nat)
    qed
    then have none: "first_free (port_used n ip sport) (unat (portFrom n)) (Suc (unat (portTo n))) = None"
      by (cases "first_free (port_used n ip sport) (unat (portFrom n)) (Suc (unat (portTo n)))") auto
    then have "portTo n = 65535"
      using lp c that by (auto simp: pick_port_eq split: if_splits)
    moreover have "port_used n ip sport p" if "portFrom n \<le> p" for p
    proof -
      have "port_used n ip sport (of_nat (unat p))"
        using none that unat_bound16[of p] \<open>portTo n = 65535\<close>
        by (simp add: first_free_None word_le_nat_alt del: of_nat_unat)
      then show ?thesis by simp
    qed
    ultimately show False using c by blast
  qed
  from createIfNotExist_cases[OF wf ok, of ip sport] show ?thesis
  proof (elim disjE exE conjE)
    fix c
    assume "createIfNotExist n cid cport ip sport = Inr (n, Some c)"
    with wf show ?thesis by blast
  next
    assume "createIfNotExist n cid cport ip sport = create_conn n cid cport ip sport"
    then show ?thesis
      using wf lp null add_conn_wf[OF wf, of lp cid cport ip sport]
      by (auto simp: create_conn_eq not_less)
  qed
qed

text \<open>
  C38. When \<open>createIfNotExist\<close> returns, for a range that starts above 0. If the keys of the client
  map and the one asked for belong all to one client, or no client has two of them, the comparison
  of the map is defined: the call returns, although its counter wraps at 65535, keeps
  the invariant, and gives a null pointer only if the range is empty, or ends at 65535 and
  is exhausted. Otherwise the use of the map is undefined.
\<close>

theorem createIfNotExist_total:
  assumes wf: "napt_wf n" and low: "0 < portFrom n"
    and ks: "ks = \<lparr>ck_clientID = cid, ck_clientPort = cport\<rparr> # map fst (clientMap n)"
  shows "if (\<forall>a\<in>set ks. \<forall>b\<in>set ks. ck_clientID a = ck_clientID b)
      \<or> (\<forall>a\<in>set ks. \<forall>b\<in>set ks. ck_clientID a = ck_clientID b \<longrightarrow> a = b)
    then \<exists>n' r. createIfNotExist n cid cport ip sport = Inr (n', r) \<and> napt_wf n'
      \<and> (r = None \<longrightarrow> n' = n \<and> (portTo n < portFrom n
          \<or> portTo n = 65535 \<and> (\<forall>p. portFrom n \<le> p \<longrightarrow> port_used n ip sport p)))
    else createIfNotExist n cid cport ip sport = Inl InvalidOrder"
proof (cases "client_keys_ok n \<lparr>ck_clientID = cid, ck_clientPort = cport\<rparr>")
  case True
  note createIfNotExist_defined[OF wf True low, of ip sport]
  with True show ?thesis unfolding client_keys_ok_def ks[symmetric] client_less_strict_weak by simp
next
  case False
  then have "createIfNotExist n cid cport ip sport = Inl InvalidOrder"
    by (simp add: createIfNotExist_def find_client_def)
  with False show ?thesis unfolding client_keys_ok_def ks[symmetric] client_less_strict_weak by simp
qed

section \<open>Tables of one client\<close>

text \<open>
  What the code wants of the client map holds where all keys belong to one client: there the
  comparison is the order of the ports, and the map is a dictionary.
\<close>

definition one_client_table :: "u16 \<Rightarrow> 'ip napt \<Rightarrow> bool" where
  "one_client_table c n \<longleftrightarrow> smap_wf client_less {k. ck_clientID k = c} (clientMap n)"

lemma one_client_keys_ok: "one_client_table c n \<Longrightarrow> client_keys_ok n \<lparr>ck_clientID = c, ck_clientPort = p\<rparr>"
  unfolding one_client_table_def smap_wf_def client_keys_ok_def
  by (rule one_client.strict_weak) auto

lemma one_client_find:
  "one_client_table c n \<Longrightarrow>
     find_client n c p = Inr (smap_find client_less \<lparr>ck_clientID = c, ck_clientPort = p\<rparr> (clientMap n))"
  by (simp add: find_client_def one_client_keys_ok)

lemma one_client_add:
  "one_client_table c n \<Longrightarrow> one_client_table c (add_conn n c p ip sport lp)"
  using one_client.invar_update[of c "clientMap n"]
  by (simp add: one_client_table_def add_conn_def Let_def)

text \<open>
  Where a table has the connections of one client only, a call for one of the client's ports
  leaves the entries of its other ports in the client map, and all connections there are. (The
  entry of another port in the server map can be taken over, see \<open>createIfNotExist_exhausted\<close>.)
\<close>

theorem createIfNotExist_one_client:
  assumes "napt_wf n" "one_client_table c n"
    and run: "createIfNotExist n c p ip sport = Inr (n', r)"
  shows "one_client_table c n' \<and> (\<forall>q. q \<noteq> p \<longrightarrow> find_client n' c q = find_client n c q)
    \<and> (\<forall>i < length (conns n). conns n' ! i = conns n ! i)"
proof -
  note ok = one_client_keys_ok[OF assms(2), of p]
  from createIfNotExist_cases[OF assms(1) ok, of ip sport]
  consider "n' = n" | lp where "n' = add_conn n c p ip sport lp"
    using run by (fastforce simp: create_conn_eq split: option.splits if_splits)
  then show ?thesis
  proof cases
    case (2 lp)
    then have one: "one_client_table c n'" using assms(2) by (simp add: one_client_add)
    have "find_client n' c q = find_client n c q" if "q \<noteq> p" for q
      using that assms(2)
        one_client.lookup_update[of c "clientMap n" "\<lparr>ck_clientID = c, ck_clientPort = p\<rparr>"
          "\<lparr>ck_clientID = c, ck_clientPort = q\<rparr>" "length (conns n)"]
      by (simp add: one_client_find[OF one] one_client_find[OF assms(2)])
         (simp add: 2 add_conn_def Let_def one_client_table_def)
    moreover have "\<forall>i < length (conns n). conns n' ! i = conns n ! i"
      by (simp add: 2 add_conn_def Let_def nth_append)
    ultimately show ?thesis using one by blast
  qed (use assms(2) in simp)
qed

text \<open>
  C40. With two clients the table confuses them. Where the client map holds one connection of
  a client, a call for any other client and any port to the same server returns that client's
  connection, although it asks for one of its own.
\<close>

theorem createIfNotExist_confuses_clients:
  assumes "clientMap n = [(k, c)]" "ck_clientID k \<noteq> cid"
    and "c < length (conns n)" "serverIP (conns n ! c) = ip" "serverPort (conns n ! c) = sport"
  shows "createIfNotExist n cid cport ip sport = Inr (n, Some c)"
proof -
  have "client_keys_ok n \<lparr>ck_clientID = cid, ck_clientPort = cport\<rparr>"
    using assms(1,2) by (auto simp: client_keys_ok_def client_less_strict_weak)
  then have "find_client n cid cport = Inr (Some c)"
    using assms(1,2) by (simp add: find_client_def equivalent_def client_less_def)
  then show ?thesis using assms(3-5) by (simp add: createIfNotExist_def deref_conn_def)
qed

section \<open>Removing a client\<close>

lemma remove_loop_all:
  assumes "\<forall>(k, c)\<in>set it. ck_clientID k = ucast cid \<and> c < length (conns n)"
  shows "remove_loop n cid it sm = Inr (sm |` (- (\<lambda>(k, c). server_key_of (conns n ! c)) ` set it), [])"
  using assms
proof (induction it arbitrary: sm)
  case Nil
  then show ?case by (simp add: restrict_map_def)
next
  case (Cons x it)
  obtain k c where x: "x = (k, c)" by (cases x)
  with Cons.prems have "remove_loop n cid (x # it) sm
      = remove_loop n cid it (sm(server_key_of (conns n ! c) := None))"
    by (simp add: deref_conn_def)
  with Cons x show ?case
    by (auto simp: restrict_map_def fun_eq_iff)
qed

lemma take_upper: "take (length m - length (smap_upper lt k m)) m = takeWhile (\<lambda>(k', v). \<not> lt k k') m"
proof -
  let ?P = "\<lambda>(k', v). \<not> lt k k'"
  have "length (takeWhile ?P m) + length (dropWhile ?P m) = length m"
    by (metis length_append takeWhile_dropWhile_id)
  then have "length m - length (dropWhile ?P m) = length (takeWhile ?P m)" by simp
  then show ?thesis unfolding smap_upper_def by (metis takeWhile_eq_take)
qed

lemma sorted_ports:
  assumes "smap_wf client_less {k. ck_clientID k = c} m"
  shows "takeWhile (\<lambda>(k', v). \<not> client_less \<lparr>ck_clientID = c, ck_clientPort = 0\<rparr> k') m
    = filter (\<lambda>(k', v). ck_clientPort k' = 0) m"
  using assms
proof (induction m)
  case (Cons x m)
  then have "ck_clientPort (fst x) < ck_clientPort (fst y)" if "y \<in> set m" for y
    using that by (auto simp: smap_wf_def client_less_def split: if_splits)
  then have "filter (\<lambda>(k', v). ck_clientPort k' = 0) m = []"
    by (fastforce simp: filter_empty_conv)
  with Cons show ?case
    by (cases x) (auto simp: smap_wf_def client_less_def word_gt_0)
qed simp

lemma map_of_filter_key: "map_of (filter (\<lambda>(k, v). P k) m) k = (if P k then map_of m k else None)"
  by (induction m) auto

text \<open>
  On a table of one client with an id below 256, \<open>removeClient\<close> removes the connections
  of the client on every port but port 0, which \<open>upper_bound\<close> skips, erases their entries of
  the server map and no others, and keeps the invariant.
\<close>

theorem removeClient_one_client:
  assumes wf: "napt_wf n" and one: "one_client_table (ucast cid) n"
  shows "\<exists>n'. removeClient n cid = Inr n' \<and> napt_wf n' \<and> one_client_table (ucast cid) n'
    \<and> (\<forall>p. find_client n' (ucast cid) p = (if p = 0 then find_client n (ucast cid) 0 else Inr None))
    \<and> serverMap n' = serverMap n |`
        (- {server_key_of (conns n ! c) | k c. (k, c) \<in> set (clientMap n) \<and> ck_clientPort k \<noteq> 0})"
proof -
  let ?ck = "\<lparr>ck_clientID = ucast cid, ck_clientPort = 0 :: u16\<rparr>" and ?m = "clientMap n"
  let ?it = "smap_upper client_less ?ck ?m"
    and ?rest = "filter (\<lambda>(k, v). ck_clientPort k = 0) ?m"
  have keys: "\<forall>x\<in>set ?m. ck_clientID (fst x) = ucast cid" and sorted: "sorted_wrt client_less (map fst ?m)"
    using one by (auto simp: one_client_table_def smap_wf_def)
  have it: "?it = filter (\<lambda>(k, v). ck_clientPort k \<noteq> 0) ?m"
  proof -
    have "?it = filter (\<lambda>(k', v). client_less ?ck k') ?m"
      using keys sorted by (intro one_client.upper_filter[of _ "ucast cid"]) auto
    also have "\<dots> = filter (\<lambda>(k, v). ck_clientPort k \<noteq> 0) ?m"
      using keys by (intro filter_cong) (auto simp: client_less_def word_gt_0)
    finally show ?thesis .
  qed
  have "remove_loop n cid ?it (serverMap n)
      = Inr (serverMap n |` (- (\<lambda>(k, c). server_key_of (conns n ! c)) ` set ?it), [])"
    using keys wf by (intro remove_loop_all) (fastforce simp: it napt_wf_def)
  moreover have "(\<lambda>(k, c). server_key_of (conns n ! c)) ` set ?it
      = {server_key_of (conns n ! c) | k c. (k, c) \<in> set ?m \<and> ck_clientPort k \<noteq> 0}" (is "_ = ?gone")
    by (force simp: it)
  ultimately have run: "removeClient n cid = Inr (n\<lparr>serverMap := serverMap n |` (- ?gone), clientMap := ?rest\<rparr>)"
    using one by (simp add: removeClient_def one_client_keys_ok take_upper sorted_ports one_client_table_def)
  let ?n = "n\<lparr>serverMap := serverMap n |` (- ?gone), clientMap := ?rest\<rparr>"
  have "napt_wf ?n" using wf by (auto simp: napt_wf_def restrict_map_def split: if_splits)
  moreover have one': "one_client_table (ucast cid) ?n"
    using keys sorted unfolding one_client_table_def smap_wf_def
    by (auto simp: sorted_wrt_map intro: sorted_wrt_filter)
  moreover have "find_client ?n (ucast cid) p = (if p = 0 then find_client n (ucast cid) 0 else Inr None)" for p
  proof -
    have "map_of ?rest \<lparr>ck_clientID = ucast cid, ck_clientPort = p\<rparr>
        = (if p = 0 then map_of ?m ?ck else None)"
      by (simp add: map_of_filter_key)
    with one one' show ?thesis
      by (cases "p = 0"; simp add: one_client_find;
          simp add: one_client.find_map_of[of _ "ucast cid"] one_client_table_def smap_wf_def)
  qed
  ultimately show ?thesis using run by (intro exI[of _ ?n]) simp
qed

section \<open>Concrete tables\<close>

definition sample_napt :: "u32 napt" where
  "sample_napt =
     (newNapt 1000 1001)\<lparr>
       conns := [\<lparr>serverIP = 9, serverPort = 53, clientID = 7, clientPort = 80, localPort = 1000\<rparr>],
       serverMap := [\<lparr>sk_serverIP = 9, sk_serverPort = 53, sk_localPort = 1000\<rparr> \<mapsto> 0],
       clientMap := [(\<lparr>ck_clientID = 7, ck_clientPort = 80\<rparr>, 0)]\<rparr>"

lemmas sample_defs = sample_napt_def newNapt_def

lemma sample_wf: "napt_wf sample_napt"
  by (auto simp: sample_defs napt_wf_def server_key_of_def split: if_splits)

lemma sample_one_client: "one_client_table 7 sample_napt"
  by (simp add: sample_defs one_client_table_def smap_wf_def)

lemma sample_find: "find_client sample_napt 7 p = Inr (if p = 80 then Some 0 else None)"
  by (auto simp: sample_defs find_client_def client_keys_ok_def client_less_strict_weak
      equivalent_def client_less_def)

lemma sample_needs_new: "needs_new sample_napt 7 81 9 53"
  by (simp add: needs_new_def sample_find)

lemma sample_first_free:
  "first_free (port_used sample_napt 9 53) (unat (portFrom sample_napt)) (Suc (unat (portTo sample_napt)))
    = Some 1001"
  by (simp add: first_free_def port_used_def find_server_def sample_defs upt_rec)

lemma sample_create:
  "createIfNotExist sample_napt 7 81 9 53 = Inr (add_conn sample_napt 7 81 9 53 1001, Some 1)"
  by (simp add: needs_new_create[OF sample_needs_new] create_conn_eq pick_port_eq sample_first_free)
     (simp add: sample_defs)

theorem createIfNotExist_returns_witness:
  "napt_wf (add_conn sample_napt 7 81 9 53 1001)"
  using createIfNotExist_returns[OF sample_wf sample_create] by blast

theorem createIfNotExist_least_port_witness:
  "\<exists>n'. createIfNotExist sample_napt 7 81 9 53 = Inr (n', Some 1) \<and> localPort (conns n' ! 1) = 1001"
  using createIfNotExist_least_port[OF sample_needs_new sample_first_free]
  by (auto simp: sample_defs)

definition full_napt :: "u32 napt" where
  "full_napt = sample_napt\<lparr>portTo := 1000\<rparr>"

lemma full_wf: "napt_wf full_napt"
  by (auto simp: full_napt_def sample_defs napt_wf_def server_key_of_def split: if_splits)

lemma full_needs_new: "needs_new full_napt 7 81 9 53"
  by (simp add: needs_new_def full_napt_def sample_defs find_client_def client_keys_ok_def
      client_less_strict_weak equivalent_def client_less_def)

theorem createIfNotExist_exhausted_witness:
  "\<exists>n' old new. createIfNotExist full_napt 7 81 9 53 = Inr (n', Some new)
    \<and> find_server full_napt 9 53 1000 = Some old \<and> old \<noteq> new
    \<and> find_server n' 9 53 1000 = Some new"
proof -
  have "portFrom full_napt \<le> portTo full_napt" "portTo full_napt \<noteq> 65535" "portTo full_napt = 1000"
    by (simp_all add: full_napt_def sample_defs)
  moreover have "\<forall>p. portFrom full_napt \<le> p \<and> p \<le> portTo full_napt \<longrightarrow> port_used full_napt 9 53 p"
    by (auto simp: full_napt_def sample_defs port_used_def find_server_def)
  ultimately show ?thesis
    using createIfNotExist_exhausted[OF full_wf full_needs_new] by simp
qed

theorem createIfNotExist_total_witness:
  "\<exists>n' r. createIfNotExist sample_napt 7 81 9 53 = Inr (n', r) \<and> napt_wf n'"
proof -
  let ?ks = "\<lparr>ck_clientID = 7, ck_clientPort = 81\<rparr> # map fst (clientMap sample_napt)"
  have "0 < portFrom sample_napt" "\<forall>a\<in>set ?ks. \<forall>b\<in>set ?ks. ck_clientID a = ck_clientID b"
    by (auto simp: sample_defs)
  from createIfNotExist_total[OF sample_wf this(1) HOL.refl, of 7 81 9 53, unfolded if_P[OF disjI1[OF this(2)]]]
  show ?thesis by blast
qed

theorem createIfNotExist_one_client_witness:
  "find_client (add_conn sample_napt 7 81 9 53 1001) 7 80 = Inr (Some 0)"
  using createIfNotExist_one_client[OF sample_wf sample_one_client sample_create]
  by (simp add: sample_find)

theorem createIfNotExist_confuses_clients_witness:
  "createIfNotExist sample_napt 8 4000 9 53 = Inr (sample_napt, Some 0)"
  using createIfNotExist_confuses_clients[of sample_napt "\<lparr>ck_clientID = 7, ck_clientPort = 80\<rparr>" 0 8 9 53 4000]
  by (simp add: sample_defs)

theorem removeClient_one_client_witness:
  "\<exists>n'. removeClient sample_napt 7 = Inr n' \<and> find_client n' 7 80 = Inr None"
  using removeClient_one_client[OF sample_wf, of 7] sample_one_client by force

theorem client_less_strict_weak_witness:
  "\<not> strict_weak client_less
     [\<lparr>ck_clientID = 1, ck_clientPort = 80\<rparr>, \<lparr>ck_clientID = 1, ck_clientPort = 81\<rparr>,
      \<lparr>ck_clientID = 2, ck_clientPort = 80\<rparr>]"
  unfolding client_less_strict_weak by simp

end
