(* ===== verification/Cryptor.thy ===== *)
theory Cryptor
  imports Memory
begin

text \<open>
  \<^verbatim>\<open>libtun/include/libtun/transmission/Cryptor.h\<close>: the two cipher objects of a session. The
  ciphers are Crypto++'s \<open>CFB_Mode<AES>\<close>, which is not part of the repository; the model takes
  them as a parameter, a record of the three member functions the code calls.
\<close>

section \<open>The cipher library\<close>

text \<open>
  One cipher object: \<open>SetKeyWithIV\<close> and \<open>Resynchronize\<close>, which may throw (\<open>None\<close>), and
  \<open>ProcessData\<close>, which returns the new state of the object and the output.
\<close>

record 'c cipher =
  setKey :: "bytes \<Rightarrow> bytes \<Rightarrow> 'c option"
  process :: "'c \<Rightarrow> bytes \<Rightarrow> 'c \<times> bytes"
  resync :: "'c \<Rightarrow> bytes \<Rightarrow> 'c option"

record 'c cryptopp =
  lib_encryption :: "'c cipher"
  lib_decryption :: "'c cipher"

section \<open>The class\<close>

record 'c cryptor =
  c_key :: bytes
  c_iv :: bytes
  c_encryption :: 'c
  c_decryption :: 'c

text \<open>
  \<open>SetKeyWithIV\<close> with a pointer to the initialisation vector reads a block of 16 bytes there,
  however long the string is; \<open>data()\<close> has one byte more than \<open>size()\<close>, which is 0.
\<close>

definition iv_block :: "bytes \<Rightarrow> bytes res" where
  "iv_block v = (if length v + 1 < 16 then Inl OutOfBounds else Inr (take 16 (v @ [0])))"

definition newCryptor :: "'c cryptopp \<Rightarrow> bytes \<Rightarrow> bytes \<Rightarrow> 'c cryptor res" where
  "newCryptor lib k v =
     rbind (iv_block v) (\<lambda>blk.
       case setKey (lib_encryption lib) k blk of
         None \<Rightarrow> Inl LibraryException
       | Some e \<Rightarrow>
           (case setKey (lib_decryption lib) k blk of
              None \<Rightarrow> Inl LibraryException
            | Some d \<Rightarrow> Inr \<lparr>c_key = k, c_iv = v, c_encryption = e, c_decryption = d\<rparr>))"

text \<open>
  The default constructor draws the key and the vector from the library's random pool:
  \<open>gen\<close> is \<open>GenerateBlock\<close> for a state \<open>r\<close> of the pool and a length.
\<close>

definition randomCryptor :: "'c cryptopp \<Rightarrow> ('r \<Rightarrow> nat \<Rightarrow> bytes \<times> 'r) \<Rightarrow> 'r \<Rightarrow> ('c cryptor \<times> 'r) res" where
  "randomCryptor lib gen r =
     (let (k, r1) = gen r 16;
          (v, r2) = gen r1 16
      in rbind (newCryptor lib k v) (\<lambda>c. Inr (c, r2)))"

definition copyCryptor :: "'c cryptopp \<Rightarrow> 'c cryptor \<Rightarrow> 'c cryptor res" where
  "copyCryptor lib other = newCryptor lib (c_key other) (c_iv other)"

definition encryptTo :: "'c cryptopp \<Rightarrow> heap \<Rightarrow> 'c cryptor \<Rightarrow> ptr \<Rightarrow> ptr \<Rightarrow> u32 \<Rightarrow> (heap \<times> 'c cryptor) res" where
  "encryptTo lib h c src dest len =
     rbind (load_bytes h src (unat len)) (\<lambda>xs.
       let (e, ys) = process (lib_encryption lib) (c_encryption c) xs
       in rbind (store_bytes h dest ys) (\<lambda>h'.
            case resync (lib_encryption lib) e (c_iv c) of
              None \<Rightarrow> Inl LibraryException
            | Some e' \<Rightarrow> Inr (h', c\<lparr>c_encryption := e'\<rparr>)))"

definition encrypt :: "'c cryptopp \<Rightarrow> heap \<Rightarrow> 'c cryptor \<Rightarrow> ptr \<Rightarrow> u32 \<Rightarrow> (heap \<times> 'c cryptor) res" where
  "encrypt lib h c data len = encryptTo lib h c data data len"

definition decryptTo :: "'c cryptopp \<Rightarrow> heap \<Rightarrow> 'c cryptor \<Rightarrow> ptr \<Rightarrow> ptr \<Rightarrow> u32 \<Rightarrow> (heap \<times> 'c cryptor) res" where
  "decryptTo lib h c src dest len =
     rbind (load_bytes h src (unat len)) (\<lambda>xs.
       let (d, ys) = process (lib_decryption lib) (c_decryption c) xs
       in rbind (store_bytes h dest ys) (\<lambda>h'.
            case resync (lib_decryption lib) d (c_iv c) of
              None \<Rightarrow> Inl LibraryException
            | Some d' \<Rightarrow> Inr (h', c\<lparr>c_decryption := d'\<rparr>)))"

definition decrypt :: "'c cryptopp \<Rightarrow> heap \<Rightarrow> 'c cryptor \<Rightarrow> ptr \<Rightarrow> u32 \<Rightarrow> (heap \<times> 'c cryptor) res" where
  "decrypt lib h c data len = decryptTo lib h c data data len"

section \<open>What the code relies on\<close>

text \<open>
  The documented behaviour of a cipher mode, for one key and vector: a freshly keyed object
  transforms data without changing its length, the decryption of a freshly keyed object
  undoes the encryption of another, and \<open>Resynchronize\<close> with the same vector takes an object
  that has processed data back to the state it was keyed to.
\<close>

definition resets :: "'c cipher \<Rightarrow> 'c \<Rightarrow> bytes \<Rightarrow> bool" where
  "resets m s v \<longleftrightarrow>
     (\<forall>xs. length (snd (process m s xs)) = length xs \<and> resync m (fst (process m s xs)) v = Some s)"

definition cipher_ok :: "'c cryptopp \<Rightarrow> bytes \<Rightarrow> bytes \<Rightarrow> bool" where
  "cipher_ok lib k v \<longleftrightarrow> length v = 16
     \<and> (\<exists>e d. setKey (lib_encryption lib) k v = Some e \<and> setKey (lib_decryption lib) k v = Some d
        \<and> resets (lib_encryption lib) e v \<and> resets (lib_decryption lib) d v
        \<and> (\<forall>xs. snd (process (lib_decryption lib) d (snd (process (lib_encryption lib) e xs))) = xs))"

section \<open>Every message stands alone\<close>

text \<open>
  The state of a cryptor between two calls: both objects as they were keyed.
\<close>

definition ready :: "'c cryptopp \<Rightarrow> bytes \<Rightarrow> bytes \<Rightarrow> 'c cryptor \<Rightarrow> bool" where
  "ready lib k v c \<longleftrightarrow> cipher_ok lib k v \<and> c_key c = k \<and> c_iv c = v
     \<and> setKey (lib_encryption lib) k v = Some (c_encryption c)
     \<and> setKey (lib_decryption lib) k v = Some (c_decryption c)"

definition seal :: "'c cryptopp \<Rightarrow> 'c cryptor \<Rightarrow> bytes \<Rightarrow> bytes" where
  "seal lib c xs = snd (process (lib_encryption lib) (c_encryption c) xs)"

definition unseal :: "'c cryptopp \<Rightarrow> 'c cryptor \<Rightarrow> bytes \<Rightarrow> bytes" where
  "unseal lib c ys = snd (process (lib_decryption lib) (c_decryption c) ys)"

lemma ready_lengths [simp]:
  "ready lib k v c \<Longrightarrow> length (seal lib c xs) = length xs"
  "ready lib k v c \<Longrightarrow> length (unseal lib c xs) = length xs"
  by (auto simp: ready_def cipher_ok_def resets_def seal_def unseal_def)

lemma unseal_seal: "ready lib k v c \<Longrightarrow> ready lib k v c' \<Longrightarrow> unseal lib c' (seal lib c xs) = xs"
  by (auto simp: ready_def cipher_ok_def seal_def unseal_def)

lemma newCryptor_ready:
  "cipher_ok lib k v \<Longrightarrow> \<exists>c. newCryptor lib k v = Inr c \<and> ready lib k v c"
  by (auto simp: newCryptor_def iv_block_def cipher_ok_def ready_def)

lemma ready_resync:
  assumes "ready lib k v c"
  shows "resync (lib_encryption lib) (fst (process (lib_encryption lib) (c_encryption c) xs)) v
      = Some (c_encryption c)"
    and "resync (lib_decryption lib) (fst (process (lib_decryption lib) (c_decryption c) xs)) v
      = Some (c_decryption c)"
  using assms by (auto simp: ready_def cipher_ok_def resets_def)

lemma ready_iv: "ready lib k v c \<Longrightarrow> c_iv c = v"
  by (simp add: ready_def)

lemma encryptTo_ready:
  "ready lib k v c \<Longrightarrow> encryptTo lib h c src dest len =
     rbind (load_bytes h src (unat len)) (\<lambda>xs.
     rbind (store_bytes h dest (seal lib c xs)) (\<lambda>h'. Inr (h', c)))"
  by (simp add: encryptTo_def split_beta ready_iv ready_resync seal_def)

lemma decryptTo_ready:
  "ready lib k v c \<Longrightarrow> decryptTo lib h c src dest len =
     rbind (load_bytes h src (unat len)) (\<lambda>xs.
     rbind (store_bytes h dest (unseal lib c xs)) (\<lambda>h'. Inr (h', c)))"
  by (simp add: decryptTo_def split_beta ready_iv ready_resync unseal_def)

lemma encrypt_spec:
  assumes "ready lib k v c" "load_bytes h p (unat len) = Inr xs"
  shows "\<exists>h'. encrypt lib h c p len = Inr (h', c) \<and> store_bytes h p (seal lib c xs) = Inr h'
    \<and> load_bytes h' p (unat len) = Inr (seal lib c xs)"
proof -
  have l: "length (seal lib c xs) = unat len" using assms by (simp add: load_bytes_length)
  moreover have "in_bounds h p (unat len)" using assms(2) by (auto simp: load_bytes_ok)
  ultimately obtain h' where h': "store_bytes h p (seal lib c xs) = Inr h'"
    using store_bytes_ok[of h p "seal lib c xs"] by auto
  then show ?thesis
    using assms l load_store_same[OF h'] by (simp add: encrypt_def encryptTo_ready)
qed

lemma decrypt_spec:
  assumes "ready lib k v c" "load_bytes h p (unat len) = Inr ys"
  shows "\<exists>h'. decrypt lib h c p len = Inr (h', c) \<and> store_bytes h p (unseal lib c ys) = Inr h'
    \<and> load_bytes h' p (unat len) = Inr (unseal lib c ys)"
proof -
  have l: "length (unseal lib c ys) = unat len" using assms by (simp add: load_bytes_length)
  moreover have "in_bounds h p (unat len)" using assms(2) by (auto simp: load_bytes_ok)
  ultimately obtain h' where h': "store_bytes h p (unseal lib c ys) = Inr h'"
    using store_bytes_ok[of h p "unseal lib c ys"] by auto
  then show ?thesis
    using assms l load_store_same[OF h'] by (simp add: decrypt_def decryptTo_ready)
qed

text \<open>A history of calls of one cryptor.\<close>

datatype crypt_op = Encrypt ptr u32 | Decrypt ptr u32 | EncryptTo ptr ptr u32 | DecryptTo ptr ptr u32

fun crypt_step :: "'c cryptopp \<Rightarrow> heap \<times> 'c cryptor \<Rightarrow> crypt_op \<Rightarrow> (heap \<times> 'c cryptor) res" where
  "crypt_step lib (h, c) (Encrypt p n) = encrypt lib h c p n"
| "crypt_step lib (h, c) (Decrypt p n) = decrypt lib h c p n"
| "crypt_step lib (h, c) (EncryptTo p q n) = encryptTo lib h c p q n"
| "crypt_step lib (h, c) (DecryptTo p q n) = decryptTo lib h c p q n"

fun crypt_run :: "'c cryptopp \<Rightarrow> heap \<times> 'c cryptor \<Rightarrow> crypt_op list \<Rightarrow> (heap \<times> 'c cryptor) res" where
  "crypt_run lib s [] = Inr s"
| "crypt_run lib s (x # xs) = rbind (crypt_step lib s x) (\<lambda>s'. crypt_run lib s' xs)"

lemma crypt_step_same: "ready lib k v c \<Longrightarrow> crypt_step lib (h, c) x = Inr (h', c') \<Longrightarrow> c' = c"
  by (cases x) (auto simp: encrypt_def decrypt_def encryptTo_ready decryptTo_ready res_iffs)

lemma crypt_run_same: "ready lib k v c \<Longrightarrow> crypt_run lib (h, c) xs = Inr (h', c') \<Longrightarrow> c' = c"
  by (induction xs arbitrary: h) (auto simp: res_iffs dest: crypt_step_same)

text \<open>
  C30. Messages are independent: of two cryptors constructed with the same key and vector,
  after any calls on each, what one encrypts in place the other decrypts to the original
  bytes, wherever they have arrived, and without touching other memory. Datagrams may
  be lost, repeated or reordered.
\<close>

theorem cryptor_messages_independent:
  assumes ok: "cipher_ok lib k v" and a: "newCryptor lib k v = Inr a" and b: "newCryptor lib k v = Inr b"
    and run_a: "crypt_run lib (ha, a) xs = Inr (h1, a')" and run_b: "crypt_run lib (hb, b) ys = Inr (h2, b')"
    and plain: "load_bytes h1 p (unat n) = Inr msg"
  shows "\<exists>h1' a'' wire. encrypt lib h1 a' p n = Inr (h1', a'') \<and> load_bytes h1' p (unat n) = Inr wire
    \<and> (\<forall>h q. load_bytes h q (unat n) = Inr wire \<longrightarrow>
        (\<exists>h' b''. decrypt lib h b' q n = Inr (h', b'') \<and> load_bytes h' q (unat n) = Inr msg
          \<and> (\<forall>r m. disjoint_ranges q (unat n) r m \<longrightarrow> load_bytes h' r m = load_bytes h r m)))"
proof -
  have ra: "ready lib k v a" and rb: "ready lib k v b"
    using newCryptor_ready[OF ok] a b by auto
  have [simp]: "a' = a" "b' = b"
    using crypt_run_same[OF ra run_a] crypt_run_same[OF rb run_b] by auto
  obtain h1' where enc: "encrypt lib h1 a p n = Inr (h1', a)" "load_bytes h1' p (unat n) = Inr (seal lib a msg)"
    using encrypt_spec[OF ra plain] by blast
  have "\<exists>h' b''. decrypt lib h b q n = Inr (h', b'') \<and> load_bytes h' q (unat n) = Inr msg
      \<and> (\<forall>r m. disjoint_ranges q (unat n) r m \<longrightarrow> load_bytes h' r m = load_bytes h r m)"
    if "load_bytes h q (unat n) = Inr (seal lib a msg)" for h q
  proof -
    from decrypt_spec[OF rb that] obtain h' where h': "decrypt lib h b q n = Inr (h', b)"
      "store_bytes h q msg = Inr h'" "load_bytes h' q (unat n) = Inr msg"
      using unseal_seal[OF ra rb, of msg] by auto
    then show ?thesis
      using load_store_disjoint[OF h'(2)] load_bytes_length[OF plain] by auto
  qed
  with enc show ?thesis by auto
qed

section \<open>A cipher with feedback\<close>

text \<open>
  A small cipher of the same kind, byte-wise with cipher feedback: its state changes with
  every byte, so that it satisfies the contract only through \<open>Resynchronize\<close>.
\<close>

fun feedback_enc :: "u8 \<Rightarrow> u8 \<Rightarrow> bytes \<Rightarrow> u8 \<times> bytes" where
  "feedback_enc k r [] = (r, [])"
| "feedback_enc k r (x # xs) = (let y = x XOR (k + r); (r', ys) = feedback_enc k y xs in (r', y # ys))"

fun feedback_dec :: "u8 \<Rightarrow> u8 \<Rightarrow> bytes \<Rightarrow> u8 \<times> bytes" where
  "feedback_dec k r [] = (r, [])"
| "feedback_dec k r (y # ys) = (let (r', xs) = feedback_dec k y ys in (r', (y XOR (k + r)) # xs))"

definition feedback_cipher :: "(u8 \<Rightarrow> u8 \<Rightarrow> bytes \<Rightarrow> u8 \<times> bytes) \<Rightarrow> (u8 \<times> u8) cipher" where
  "feedback_cipher f =
     \<lparr>setKey = (\<lambda>k v. if length k = 16 \<and> v \<noteq> [] then Some (hd k, hd v) else None),
      process = (\<lambda>(k, r) xs. let (r', ys) = f k r xs in ((k, r'), ys)),
      resync = (\<lambda>(k, r) v. if length v = 16 then Some (k, hd v) else None)\<rparr>"

definition feedback_lib :: "(u8 \<times> u8) cryptopp" where
  "feedback_lib = \<lparr>lib_encryption = feedback_cipher feedback_enc, lib_decryption = feedback_cipher feedback_dec\<rparr>"

lemma feedback_length:
  "length (snd (feedback_enc k r xs)) = length xs" "length (snd (feedback_dec k r xs)) = length xs"
  by (induction xs arbitrary: r) (auto simp: Let_def split_beta)

lemma feedback_inverse: "snd (feedback_dec k r (snd (feedback_enc k r xs))) = xs"
  by (induction xs arbitrary: r) (auto simp: Let_def split_beta xor.assoc)

lemma feedback_ok: "length k = 16 \<Longrightarrow> length v = 16 \<Longrightarrow> cipher_ok feedback_lib k v"
  by (cases v) (auto simp: cipher_ok_def resets_def feedback_lib_def feedback_cipher_def split_beta
      feedback_length feedback_inverse Let_def)

definition demo_key :: bytes where
  "demo_key = [1, 2, 3, 4, 5, 6, 7, 8, 9, 10, 11, 12, 13, 14, 15, 16]"

lemma demo_cipher_ok: "cipher_ok feedback_lib demo_key demo_key"
  by (rule feedback_ok) (simp_all add: demo_key_def)

definition demo_cryptor :: "(u8 \<times> u8) cryptor" where
  "demo_cryptor = \<lparr>c_key = demo_key, c_iv = demo_key, c_encryption = (1, 1), c_decryption = (1, 1)\<rparr>"

lemma demo_newCryptor: "newCryptor feedback_lib demo_key demo_key = Inr demo_cryptor"
  by (simp add: newCryptor_def iv_block_def feedback_lib_def feedback_cipher_def demo_cryptor_def demo_key_def)

definition message_heap :: "bytes \<Rightarrow> heap" where
  "message_heap bs = \<lparr>blocks = [0 \<mapsto> bs], next_block = 1, junk = (\<lambda>_. 0)\<rparr>"

theorem cryptor_messages_independent_witness:
  "\<exists>h1 c1 wire h2 c2. encrypt feedback_lib (message_heap [7, 8, 9]) demo_cryptor (Ptr 0 0) 3 = Inr (h1, c1)
    \<and> load_bytes h1 (Ptr 0 0) 3 = Inr wire
    \<and> decrypt feedback_lib h1 demo_cryptor (Ptr 0 0) 3 = Inr (h2, c2)
    \<and> load_bytes h2 (Ptr 0 0) 3 = Inr [7, 8, 9]"
proof -
  have run: "crypt_run feedback_lib s [] = Inr s" for s by simp
  have "load_bytes (message_heap [7, 8, 9]) (Ptr 0 0) (unat (3 :: u32)) = Inr [7, 8, 9]"
    by (simp add: message_heap_def load_bytes_def in_bounds_def slice_def)
  from cryptor_messages_independent[OF demo_cipher_ok demo_newCryptor demo_newCryptor run run this]
  show ?thesis by simp blast
qed

end
