(* ===== verification/Constants.thy ===== *)
theory Constants
  imports Prelude
begin

text \<open>
  \<^verbatim>\<open>libtun/include/libtun/transmission/constant.h\<close>. The commands, call types and error codes
  travel in packets and are compared with raw bytes, so they are numbers; the status of a
  session never leaves the process.
\<close>

definition REQUEST :: u8 where "REQUEST = 0"
definition REPLY :: u8 where "REPLY = 1"
definition TRANSMIT :: u8 where "TRANSMIT = 2"

definition CONNECT :: u8 where "CONNECT = 0"
definition PING :: u8 where "PING = 1"
definition DISCONNECT :: u8 where "DISCONNECT = 2"

definition SUCCESS :: u8 where "SUCCESS = 0"
definition INVALID_INPUT :: u8 where "INVALID_INPUT = 1"
definition WRONG_CREDENTIAL :: u8 where "WRONG_CREDENTIAL = 2"
definition TOO_MANY_CONNECTION :: u8 where "TOO_MANY_CONNECTION = 3"
definition NOT_CONNECTED :: u8 where "NOT_CONNECTED = 4"
definition NETWORK_ISSUE :: u8 where "NETWORK_ISSUE = 5"

datatype session_status = IDLE | CONNECTED | DISCONNECTED | ERROR

lemmas command_defs = REQUEST_def REPLY_def TRANSMIT_def
lemmas rpc_type_defs = CONNECT_def PING_def DISCONNECT_def
lemmas rpc_error_defs = SUCCESS_def INVALID_INPUT_def WRONG_CREDENTIAL_def
  TOO_MANY_CONNECTION_def NOT_CONNECTED_def NETWORK_ISSUE_def

end
