(* ===== verification/Session.thy ===== *)
theory Session
  imports Cryptor Constants
begin

text \<open>
  \<^verbatim>\<open>libtun/include/libtun/transmission/Session.h\<close>: what the server keeps for one client. The
  clock, which the code reads with \<open>system_clock::now()\<close>, is an argument.
\<close>

record ('ep, 'c) session =
  s_cryptor :: "'c cryptor"
  s_endpoint :: 'ep
  s_clientId :: u16
  s_lastActiveAt :: nat
  s_transmittedBytes :: u64
  s_status :: session_status
  s_error :: u8

text \<open>
  The constructor leaves \<open>clientId\<close> and \<open>error\<close> as they are in memory (\<open>cid\<close>, \<open>err\<close> here); its
  cryptor is a random one and its endpoint the default one.
\<close>

definition newSession :: "'c cryptor \<Rightarrow> 'ep \<Rightarrow> u16 \<Rightarrow> u8 \<Rightarrow> nat \<Rightarrow> ('ep, 'c) session" where
  "newSession c ep cid err now =
     \<lparr>s_cryptor = c, s_endpoint = ep, s_clientId = cid, s_lastActiveAt = now,
      s_transmittedBytes = 0, s_status = IDLE, s_error = err\<rparr>"

definition isConnected :: "('ep, 'c) session \<Rightarrow> bool" where
  "isConnected s \<longleftrightarrow> s_status s = CONNECTED"

definition isIdle :: "('ep, 'c) session \<Rightarrow> bool" where
  "isIdle s \<longleftrightarrow> s_status s = IDLE"

text \<open>\<open>c\<close> is the new random cryptor, from \<open>randomCryptor\<close>.\<close>

definition resetSession :: "'c cryptor \<Rightarrow> nat \<Rightarrow> ('ep, 'c) session \<Rightarrow> u16 \<Rightarrow> 'ep \<Rightarrow> ('ep, 'c) session" where
  "resetSession c now s cid peer =
     s\<lparr>s_clientId := cid, s_cryptor := c, s_endpoint := peer, s_lastActiveAt := now,
       s_status := CONNECTED, s_transmittedBytes := 0, s_error := SUCCESS\<rparr>"

text \<open>The \<open>int\<close> length is added to a \<open>uint64_t\<close>: a negative one is sign-extended.\<close>

definition updateTransmit :: "nat \<Rightarrow> ('ep, 'c) session \<Rightarrow> i32 \<Rightarrow> ('ep, 'c) session" where
  "updateTransmit now s len =
     s\<lparr>s_lastActiveAt := now, s_transmittedBytes := s_transmittedBytes s + scast len\<rparr>"

end
