(* ===== verification/Rpc.thy ===== *)
theory Rpc
  imports BufferPool Cryptor Constants StdMap
begin

text \<open>
  \<^verbatim>\<open>libtun/include/libtun/transmission/Rpc.h\<close>: remote calls over datagrams, with retries. The
  object is driven by events: a datagram handed to \<open>feed\<close>, a call of \<open>send\<close>, and the
  completions of the asynchronous sends and timers it has started. The event loop runs one
  handler at a time, so each event is one step on the state below.
\<close>

section \<open>State\<close>

text \<open>\<open>boost::system::error_code\<close>: success, the two codes the class makes, and any other.\<close>

datatype error_code = NoError | NoBufferSpace | TimedOut | OtherError nat

definition failed :: "error_code \<Rightarrow> bool" where
  "failed e \<longleftrightarrow> e \<noteq> NoError"

text \<open>
  \<open>ControlBlock\<close>. The completion callback is a value of a type \<open>'k\<close> of callbacks, \<open>None\<close> the
  empty \<open>std::function\<close>. The timer of the block is the pending \<open>task\<close> on it, below.
\<close>

record ('ep, 'k) control =
  cb_remain :: i8
  cb_endpoint :: 'ep
  cb_id :: u16
  cb_buffer :: buffer
  cb_onComplete :: "'k option"

text \<open>\<open>IDWithEndpoint\<close>, the key of the requests being replied to, with its order.\<close>

datatype 'ep id_endpoint = IdEndpoint (ie_endpoint: 'ep) (ie_id: u16)

definition endpoint_less :: "'ep::linorder id_endpoint \<Rightarrow> 'ep id_endpoint \<Rightarrow> bool" where
  "endpoint_less a b = (if ie_id a \<noteq> ie_id b then ie_id a < ie_id b else ie_endpoint a < ie_endpoint b)"

instantiation id_endpoint :: (linorder) linorder
begin

definition less_id_endpoint :: "'a id_endpoint \<Rightarrow> 'a id_endpoint \<Rightarrow> bool" where
  "less_id_endpoint = endpoint_less"

definition less_eq_id_endpoint :: "'a id_endpoint \<Rightarrow> 'a id_endpoint \<Rightarrow> bool" where
  "less_eq_id_endpoint a b \<longleftrightarrow> a < b \<or> a = b"

instance
proof
  fix x y z :: "'a id_endpoint"
  show "x < y \<longleftrightarrow> x \<le> y \<and> \<not> y \<le> x"
    by (auto simp: less_id_endpoint_def endpoint_less_def less_eq_id_endpoint_def split: if_splits)
  show "x \<le> x" by (simp add: less_eq_id_endpoint_def)
  show "x \<le> y \<Longrightarrow> y \<le> z \<Longrightarrow> x \<le> z"
    by (auto simp: less_id_endpoint_def endpoint_less_def less_eq_id_endpoint_def split: if_splits)
  show "x \<le> y \<Longrightarrow> y \<le> x \<Longrightarrow> x = y"
    by (auto simp: less_id_endpoint_def endpoint_less_def less_eq_id_endpoint_def split: if_splits)
  show "x \<le> y \<or> y \<le> x"
    by (cases x; cases y) (auto simp: less_id_endpoint_def endpoint_less_def less_eq_id_endpoint_def)
qed

end

interpretation ordered: key_order "(<) :: 'k::linorder \<Rightarrow> 'k \<Rightarrow> bool" UNIV
  by unfold_locales auto

text \<open>An asynchronous operation in progress, on the control block of an index.\<close>

datatype task =
    ReplySend (task_block: nat)
  | ReplyTimer (task_block: nat)
  | RequestSend (task_block: nat)
  | RequestTimer (task_block: nat)

text \<open>
  The object. \<open>r_blocks\<close> is the \<open>object_pool\<close> of control blocks: a \<open>ControlBlock*\<close> is an
  index, a freed block is \<open>None\<close> and its index is not used again. \<open>r_sent\<close> records the
  datagrams handed to the socket, with the bytes of their buffers at that time. The memory
  and the state \<open>'s\<close> of the callbacks' owner are shared with the outside.
\<close>

record ('ep, 'c, 'k, 's) rpc =
  r_heap :: heap
  r_cryptor :: "'c cryptor"
  r_client :: 's
  r_nextId :: u16
  r_retry :: u16
  r_blocks :: "('ep, 'k) control option list"
  r_replying :: "('ep id_endpoint, nat) smap"
  r_requesting :: "(u16, nat) smap"
  r_pending :: "task list"
  r_sent :: "('ep \<times> bytes) list"

text \<open>
  The callbacks: \<open>onRequest\<close>, which may be empty, gets the content and the control block and
  may change the block; a completion callback gets an error, a buffer (\<open>None\<close> for the
  default-constructed \<open>Buffer()\<close>, whose fields are indeterminate) and the block (\<open>None\<close> for
  a null pointer). Both may change memory and the owner's state. The private members of the
  class are out of their reach; that one of them calls \<open>send\<close> itself is not modelled.
\<close>

record ('ep, 'k, 's) callbacks =
  onRequest :: "(buffer \<Rightarrow> ('ep, 'k) control \<Rightarrow> heap \<times> 's \<Rightarrow> (bool \<times> ('ep, 'k) control \<times> heap \<times> 's) res) option"
  onComplete :: "'k \<Rightarrow> error_code \<Rightarrow> buffer option \<Rightarrow> ('ep, 'k) control option \<Rightarrow> heap \<times> 's \<Rightarrow> (heap \<times> 's) res"

definition newRpc :: "heap \<Rightarrow> 'c cryptor \<Rightarrow> 's \<Rightarrow> u16 \<Rightarrow> ('ep, 'c, 'k, 's) rpc" where
  "newRpc h c s retry =
     \<lparr>r_heap = h, r_cryptor = c, r_client = s, r_nextId = 1, r_retry = retry, r_blocks = [],
      r_replying = [], r_requesting = [], r_pending = [], r_sent = []\<rparr>"

section \<open>Control blocks\<close>

definition get_control :: "('ep, 'c, 'k, 's) rpc \<Rightarrow> nat \<Rightarrow> ('ep, 'k) control res" where
  "get_control r i =
     (if i < length (r_blocks r)
      then case r_blocks r ! i of None \<Rightarrow> Inl UseAfterFree | Some c \<Rightarrow> Inr c
      else Inl OutOfBounds)"

definition put_control :: "('ep, 'c, 'k, 's) rpc \<Rightarrow> nat \<Rightarrow> ('ep, 'k) control \<Rightarrow> ('ep, 'c, 'k, 's) rpc" where
  "put_control r i c = r\<lparr>r_blocks := (r_blocks r)[i := Some c]\<rparr>"

definition malloc_control :: "('ep, 'c, 'k, 's) rpc \<Rightarrow> ('ep, 'k) control \<Rightarrow> ('ep, 'c, 'k, 's) rpc \<times> nat" where
  "malloc_control r c = (r\<lparr>r_blocks := r_blocks r @ [Some c]\<rparr>, length (r_blocks r))"

definition free_control :: "('ep, 'c, 'k, 's) rpc \<Rightarrow> nat \<Rightarrow> ('ep, 'c, 'k, 's) rpc res" where
  "free_control r i =
     (if i < length (r_blocks r)
      then case r_blocks r ! i of
             None \<Rightarrow> Inl DoubleFree
           | Some c \<Rightarrow> Inr (r\<lparr>r_blocks := (r_blocks r)[i := None]\<rparr>)
      else Inl OutOfBounds)"

lemma get_control_frame [simp]:
  "get_control (r\<lparr>r_heap := h\<rparr>) i = get_control r i" "get_control (r\<lparr>r_client := s\<rparr>) i = get_control r i"
  "get_control (r\<lparr>r_pending := P\<rparr>) i = get_control r i" "get_control (r\<lparr>r_sent := x\<rparr>) i = get_control r i"
  "get_control (r\<lparr>r_cryptor := k\<rparr>) i = get_control r i" "get_control (r\<lparr>r_nextId := n\<rparr>) i = get_control r i"
  "get_control (r\<lparr>r_requesting := q\<rparr>) i = get_control r i" "get_control (r\<lparr>r_replying := m\<rparr>) i = get_control r i"
  by (simp_all add: get_control_def)

section \<open>Packets\<close>

text \<open>
  \<open>_nextId\<close>: the identifiers run from 1 to 65535 and round again, never 0.
\<close>

definition nextId :: "('ep, 'c, 'k, 's) rpc \<Rightarrow> u16 \<times> ('ep, 'c, 'k, 's) rpc" where
  "nextId r =
     (if r_nextId r = 0xffff then (0xffff, r\<lparr>r_nextId := 1\<rparr>)
      else (r_nextId r, r\<lparr>r_nextId := r_nextId r + 1\<rparr>))"

text \<open>The three header bytes of a packet in its buffer, and the encryption of all but the first.\<close>

definition seal_packet :: "'c cryptopp \<Rightarrow> ('ep, 'c, 'k, 's) rpc \<Rightarrow> buffer \<Rightarrow> u8 \<Rightarrow> u16 \<Rightarrow> ('ep, 'c, 'k, 's) rpc res" where
  "seal_packet lib r b cmd pid =
     rbind (store8 (r_heap r) (b_data b) cmd) (\<lambda>h1.
     rbind (store16 h1 (padd (b_data b) 1) pid) (\<lambda>h2.
     rbind (encrypt lib h2 (r_cryptor r) (padd (b_data b) 1) (b_size b - 1)) (\<lambda>(h3, c).
       Inr (r\<lparr>r_heap := h3, r_cryptor := c\<rparr>))))"

definition call_complete :: "('ep, 'k, 's) callbacks \<Rightarrow> ('ep, 'c, 'k, 's) rpc \<Rightarrow> 'k option \<Rightarrow> error_code \<Rightarrow>
    buffer option \<Rightarrow> ('ep, 'k) control option \<Rightarrow> ('ep, 'c, 'k, 's) rpc res" where
  "call_complete cbs r f err b ctl =
     (case f of
        None \<Rightarrow> Inl BadFunctionCall
      | Some k \<Rightarrow>
          rbind (onComplete cbs k err b ctl (r_heap r, r_client r)) (\<lambda>(h, s).
            Inr (r\<lparr>r_heap := h, r_client := s\<rparr>)))"

definition async_send :: "('ep, 'c, 'k, 's) rpc \<Rightarrow> ('ep, 'k) control \<Rightarrow> task \<Rightarrow> ('ep, 'c, 'k, 's) rpc res" where
  "async_send r c t =
     rbind (load_bytes (r_heap r) (b_data (cb_buffer c)) (unat (b_size (cb_buffer c)))) (\<lambda>bs.
       Inr (r\<lparr>r_sent := r_sent r @ [(cb_endpoint c, bs)], r_pending := r_pending r @ [t]\<rparr>))"

section \<open>The retry timers\<close>

definition onReplyTimer :: "('ep::linorder, 'k, 's) callbacks \<Rightarrow> ('ep, 'c, 'k, 's) rpc \<Rightarrow> error_code \<Rightarrow> nat \<Rightarrow>
    ('ep, 'c, 'k, 's) rpc res" where
  "onReplyTimer cbs r err i =
     rbind (get_control r i) (\<lambda>c.
       let c1 = c\<lparr>cb_remain := cb_remain c - 1\<rparr>; r1 = put_control r i c1 in
       if sint (cb_remain c1) \<le> 0 \<or> failed err then
         rbind (call_complete cbs r1 (cb_onComplete c1) err (Some (cb_buffer c1)) (Some c1)) (\<lambda>r2.
           free_control
             (r2\<lparr>r_replying := smap_erase (<) (IdEndpoint (cb_endpoint c1) (cb_id c1)) (r_replying r2)\<rparr>) i)
       else async_send r1 c1 (ReplySend i))"

definition onRequestTimer :: "('ep, 'k, 's) callbacks \<Rightarrow> ('ep, 'c, 'k, 's) rpc \<Rightarrow> error_code \<Rightarrow> nat \<Rightarrow>
    ('ep, 'c, 'k, 's) rpc res" where
  "onRequestTimer cbs r err i =
     rbind (get_control r i) (\<lambda>c.
       let c1 = c\<lparr>cb_remain := cb_remain c - 1\<rparr>; r1 = put_control r i c1 in
       if sint (cb_remain c1) \<le> 0 \<or> failed err then
         rbind (if cb_remain c1 = 0 then call_complete cbs r1 (cb_onComplete c1) TimedOut None (Some c1)
                else if failed err then call_complete cbs r1 (cb_onComplete c1) err None (Some c1)
                else Inr r1) (\<lambda>r2.
           free_control (r2\<lparr>r_requesting := smap_erase (<) (cb_id c1) (r_requesting r2)\<rparr>) i)
       else async_send r1 c1 (RequestSend i))"

section \<open>feed\<close>

text \<open>
  The rest of a new request, after \<open>onRequest\<close> has returned and left the control block \<open>c\<close>: the
  block is freed, or the reply sent for the first time.
\<close>

definition finish_request :: "'c cryptopp \<Rightarrow> ('ep::linorder, 'k, 's) callbacks \<Rightarrow> ('ep, 'c, 'k, 's) rpc \<Rightarrow>
    'ep \<Rightarrow> u16 \<Rightarrow> nat \<Rightarrow> bool \<Rightarrow> ('ep, 'k) control \<Rightarrow> ('ep, 'c, 'k, 's) rpc res" where
  "finish_request lib cbs r peer pid i accepted c =
     (if \<not> accepted then free_control r i
      else if prefixSpace (cb_buffer c) < 3 then
        rbind (call_complete cbs r (cb_onComplete c) NoBufferSpace None None) (\<lambda>r1. free_control r1 i)
      else
        let b = moveFrontBoundary (cb_buffer c) (- 3);
            r1 = put_control r i (c\<lparr>cb_buffer := b\<rparr>)
        in rbind (seal_packet lib r1 b REPLY (cb_id c)) (\<lambda>r2.
             onReplyTimer cbs
               (r2\<lparr>r_replying := smap_put (<) (IdEndpoint peer pid) i (r_replying r2)\<rparr>) NoError i))"

text \<open>A new request: the block is made and the owner asked.\<close>

definition feed_request :: "'c cryptopp \<Rightarrow> ('ep::linorder, 'k, 's) callbacks \<Rightarrow> ('ep, 'c, 'k, 's) rpc \<Rightarrow>
    'ep \<Rightarrow> u16 \<Rightarrow> buffer \<Rightarrow> ('ep, 'c, 'k, 's) rpc res" where
  "feed_request lib cbs r peer pid buf =
     (let c = \<lparr>cb_remain = ucast (r_retry r), cb_endpoint = peer, cb_id = pid, cb_buffer = buf,
               cb_onComplete = None\<rparr>;
          (r1, i) = malloc_control r c
      in case onRequest cbs of
           None \<Rightarrow> Inl BadFunctionCall
         | Some f \<Rightarrow>
             rbind (f buf c (r_heap r1, r_client r1)) (\<lambda>(accepted, c', h, s).
               finish_request lib cbs ((put_control r1 i c')\<lparr>r_heap := h, r_client := s\<rparr>)
                 peer pid i accepted c'))"

text \<open>A reply: the iterator \<open>it\<close> stays at the node of the identifier during the callback.\<close>

definition feed_reply :: "('ep, 'k, 's) callbacks \<Rightarrow> ('ep, 'c, 'k, 's) rpc \<Rightarrow> nat \<Rightarrow> buffer \<Rightarrow>
    ('ep, 'c, 'k, 's) rpc res" where
  "feed_reply cbs r i buf =
     rbind (get_control r i) (\<lambda>c.
     rbind (call_complete cbs r (cb_onComplete c) NoError (Some buf) (Some c)) (\<lambda>r1.
       Inr (put_control r1 i (c\<lparr>cb_remain := 0\<rparr>))))"

text \<open>What a packet of a kind and an identifier does.\<close>

definition feed_dispatch :: "'c cryptopp \<Rightarrow> ('ep::linorder, 'k, 's) callbacks \<Rightarrow> ('ep, 'c, 'k, 's) rpc \<Rightarrow>
    'ep \<Rightarrow> u8 \<Rightarrow> u16 \<Rightarrow> buffer \<Rightarrow> ('ep, 'c, 'k, 's) rpc res" where
  "feed_dispatch lib cbs r peer cmd pid buf =
     (if cmd = REQUEST \<and> smap_find (<) (IdEndpoint peer pid) (r_replying r) = None
      then feed_request lib cbs r peer pid buf
      else if cmd = REPLY
      then case smap_find (<) pid (r_requesting r) of
             None \<Rightarrow> Inr r
           | Some i \<Rightarrow> feed_reply cbs r i buf
      else Inr r)"

definition feed :: "'c cryptopp \<Rightarrow> ('ep::linorder, 'k, 's) callbacks \<Rightarrow> ('ep, 'c, 'k, 's) rpc \<Rightarrow>
    'ep \<Rightarrow> buffer \<Rightarrow> ('ep, 'c, 'k, 's) rpc res" where
  "feed lib cbs r peer buf =
     rbind (decrypt lib (r_heap r) (r_cryptor r) (padd (b_data buf) 1) (b_size buf - 1)) (\<lambda>(h, cr).
     rbind (load8 h (b_data buf)) (\<lambda>cmd.
     rbind (load16 h (padd (b_data buf) 1)) (\<lambda>pid.
       feed_dispatch lib cbs (r\<lparr>r_heap := h, r_cryptor := cr\<rparr>) peer cmd pid (moveFrontBoundary buf 3))))"

section \<open>send\<close>

definition send :: "'c cryptopp \<Rightarrow> ('ep, 'k, 's) callbacks \<Rightarrow> ('ep, 'c, 'k, 's) rpc \<Rightarrow>
    'ep \<Rightarrow> buffer \<Rightarrow> 'k \<Rightarrow> ('ep, 'c, 'k, 's) rpc res" where
  "send lib cbs r peer buf k =
     (if prefixSpace buf < 3 then call_complete cbs r (Some k) NoBufferSpace None None
      else
        let (pid, r0) = nextId r; b = moveFrontBoundary buf (- 3) in
        rbind (seal_packet lib r0 b REQUEST pid) (\<lambda>r1.
          let (r2, i) = malloc_control r1
                \<lparr>cb_remain = ucast (r_retry r1), cb_endpoint = peer, cb_id = pid, cb_buffer = b,
                 cb_onComplete = Some k\<rparr>
          in onRequestTimer cbs (r2\<lparr>r_requesting := smap_put (<) pid i (r_requesting r2)\<rparr>) NoError i))"

section \<open>Events\<close>

text \<open>
  The completion of a pending task. A send that succeeded starts the one-second timer of its
  block, one that failed acts as a timer that failed.
\<close>

definition complete_task :: "('ep::linorder, 'k, 's) callbacks \<Rightarrow> ('ep, 'c, 'k, 's) rpc \<Rightarrow> task \<Rightarrow> error_code \<Rightarrow>
    ('ep, 'c, 'k, 's) rpc res" where
  "complete_task cbs r t err =
     (case t of
        ReplyTimer i \<Rightarrow> onReplyTimer cbs r err i
      | RequestTimer i \<Rightarrow> onRequestTimer cbs r err i
      | ReplySend i \<Rightarrow>
          if failed err then onReplyTimer cbs r err i
          else rbind (get_control r i) (\<lambda>c. Inr (r\<lparr>r_pending := r_pending r @ [ReplyTimer i]\<rparr>))
      | RequestSend i \<Rightarrow>
          if failed err then onRequestTimer cbs r err i
          else rbind (get_control r i) (\<lambda>c. Inr (r\<lparr>r_pending := r_pending r @ [RequestTimer i]\<rparr>)))"

text \<open>
  \<open>Owner\<close> is whatever happens outside between two events of the object: memory and the
  owner's state change.
\<close>

datatype ('ep, 'k, 's) rpc_event =
    Feed 'ep buffer
  | Send 'ep buffer 'k
  | Complete task error_code
  | Owner heap 's

fun rpc_step :: "'c cryptopp \<Rightarrow> ('ep::linorder, 'k, 's) callbacks \<Rightarrow> ('ep, 'c, 'k, 's) rpc \<Rightarrow>
    ('ep, 'k, 's) rpc_event \<Rightarrow> ('ep, 'c, 'k, 's) rpc res" where
  "rpc_step lib cbs r (Feed peer buf) = feed lib cbs r peer buf"
| "rpc_step lib cbs r (Send peer buf k) = send lib cbs r peer buf k"
| "rpc_step lib cbs r (Complete t err) =
     (if t \<in> set (r_pending r)
      then complete_task cbs (r\<lparr>r_pending := remove1 t (r_pending r)\<rparr>) t err
      else Inr r)"
| "rpc_step lib cbs r (Owner h s) = Inr (r\<lparr>r_heap := h, r_client := s\<rparr>)"

inductive rpc_reach :: "'c cryptopp \<Rightarrow> ('ep::linorder, 'k, 's) callbacks \<Rightarrow> ('ep, 'c, 'k, 's) rpc \<Rightarrow>
    ('ep, 'c, 'k, 's) rpc \<Rightarrow> bool" for lib cbs r0 where
  start: "rpc_reach lib cbs r0 r0"
| step: "rpc_reach lib cbs r0 r \<Longrightarrow> rpc_step lib cbs r e = Inr r' \<Longrightarrow> rpc_reach lib cbs r0 r'"

section \<open>The invariant of the control blocks\<close>

fun is_reply :: "task \<Rightarrow> bool" where
  "is_reply (ReplySend i) = True"
| "is_reply (ReplyTimer i) = True"
| "is_reply (RequestSend i) = False"
| "is_reply (RequestTimer i) = False"

text \<open>The block of an index, and the kind of the operation pending on it: \<open>True\<close> for a reply.\<close>

definition block_at :: "('ep, 'k) control option list \<Rightarrow> nat \<Rightarrow> ('ep, 'k) control option" where
  "block_at B i = (if i < length B then B ! i else None)"

definition kind :: "task list \<Rightarrow> nat \<Rightarrow> bool option" where
  "kind P = map_of (map (\<lambda>t. (task_block t, is_reply t)) P)"

definition control_key :: "('ep, 'k) control \<Rightarrow> 'ep id_endpoint" where
  "control_key c = IdEndpoint (cb_endpoint c) (cb_id c)"

text \<open>
  The live blocks are those with an operation pending, one each, and have a callback. An entry
  of \<open>_requesting\<close> leads to a live block with its identifier, whose pending operation is one of
  a request; the entries of \<open>_replying\<close> are exactly the blocks with a pending operation of a
  reply, under their own keys.
\<close>

definition blocks_inv :: "(nat \<Rightarrow> ('ep, 'k) control option) \<Rightarrow> ('ep id_endpoint \<rightharpoonup> nat) \<Rightarrow> (u16 \<rightharpoonup> nat) \<Rightarrow>
    (nat \<Rightarrow> bool option) \<Rightarrow> bool" where
  "blocks_inv B rep req K \<longleftrightarrow>
     (\<forall>i. B i = None \<longleftrightarrow> K i = None)
     \<and> (\<forall>i c. B i = Some c \<longrightarrow> cb_onComplete c \<noteq> None)
     \<and> (\<forall>k i. rep k = Some i \<longleftrightarrow> K i = Some True \<and> map_option control_key (B i) = Some k)
     \<and> (\<forall>k i. req k = Some i \<longrightarrow> K i = Some False \<and> map_option cb_id (B i) = Some k)"

definition rpc_wf :: "('ep::linorder, 'c, 'k, 's) rpc \<Rightarrow> bool" where
  "rpc_wf r \<longleftrightarrow> smap_wf (<) UNIV (r_replying r) \<and> smap_wf (<) UNIV (r_requesting r)
     \<and> distinct (map task_block (r_pending r))
     \<and> blocks_inv (block_at (r_blocks r)) (map_of (r_replying r)) (map_of (r_requesting r))
         (kind (r_pending r))"

lemma block_at_simps:
  "block_at (B @ [x]) = (block_at B)(length B := x)"
  "i < length B \<Longrightarrow> block_at (B[i := x]) = (block_at B)(i := x)"
  by (auto simp: block_at_def fun_eq_iff nth_append nth_list_update)

lemma block_at_length: "block_at B i = Some c \<Longrightarrow> i < length B"
  by (simp add: block_at_def split: if_splits)

lemma block_at_new [simp]: "block_at B (length B) = None"
  by (simp add: block_at_def)

lemma kind_Cons: "kind (t # P) = (kind P)(task_block t \<mapsto> is_reply t)"
  by (simp add: kind_def)

lemma kind_iff:
  "distinct (map task_block P) \<Longrightarrow> kind P i = Some b \<longleftrightarrow> (\<exists>t\<in>set P. task_block t = i \<and> is_reply t = b)"
  by (auto simp: kind_def comp_def image_iff map_of_eq_Some_iff)

lemma kind_None: "kind P i = None \<longleftrightarrow> i \<notin> task_block ` set P"
  by (simp add: kind_def map_of_eq_None_iff image_image)

lemma kind_perm:
  assumes "distinct (map task_block P)" "distinct (map task_block Q)"
    and "(\<lambda>t. (task_block t, is_reply t)) ` set P = (\<lambda>t. (task_block t, is_reply t)) ` set Q"
  shows "kind P = kind Q"
proof
  fix i
  have "kind P i = Some b \<longleftrightarrow> kind Q i = Some b" for b
  proof -
    have "(\<exists>t\<in>set X. task_block t = i \<and> is_reply t = b) \<longleftrightarrow> (i, b) \<in> (\<lambda>t. (task_block t, is_reply t)) ` set X" for X
      by auto
    then show ?thesis using assms by (simp only: kind_iff)
  qed
  then show "kind P i = kind Q i" by (metis option.exhaust)
qed

lemma blocks_invI:
  assumes "\<And>i. B i = None \<longleftrightarrow> K i = None"
    and "\<And>i c. B i = Some c \<Longrightarrow> cb_onComplete c \<noteq> None"
    and "\<And>k i. rep k = Some i \<Longrightarrow> K i = Some True \<and> (\<exists>c. B i = Some c \<and> control_key c = k)"
    and "\<And>i c. K i = Some True \<Longrightarrow> B i = Some c \<Longrightarrow> rep (control_key c) = Some i"
    and "\<And>k i. req k = Some i \<Longrightarrow> K i = Some False \<and> (\<exists>c. B i = Some c \<and> cb_id c = k)"
  shows "blocks_inv B rep req K"
  unfolding blocks_inv_def
proof (intro conjI allI impI iffI)
  fix k i
  assume "K i = Some True \<and> map_option control_key (B i) = Some k"
  then show "rep k = Some i" using assms(4) by blast
qed (use assms in fastforce)+

lemma blocks_invD:
  assumes "blocks_inv B rep req K"
  shows "B i = None \<longleftrightarrow> K i = None"
    and "B i = Some c \<Longrightarrow> cb_onComplete c \<noteq> None"
    and "rep k = Some i \<Longrightarrow> K i = Some True \<and> (\<exists>c. B i = Some c \<and> control_key c = k)"
    and "K i = Some True \<Longrightarrow> B i = Some c \<Longrightarrow> rep (control_key c) = Some i"
    and "req x = Some i \<Longrightarrow> K i = Some False \<and> (\<exists>c. B i = Some c \<and> cb_id c = x)"
  using assms unfolding blocks_inv_def by auto

lemma blocks_inv_update:
  assumes "blocks_inv B rep req K" "B i = Some c" "control_key c' = control_key c" "cb_onComplete c' \<noteq> None"
  shows "blocks_inv (B(i \<mapsto> c')) rep req K"
proof (rule blocks_invI)
  note d = blocks_invD[OF assms(1)]
  have id: "cb_id c' = cb_id c" using assms(3) by (simp add: control_key_def)
  show "(B(i \<mapsto> c')) j = None \<longleftrightarrow> K j = None" for j
    using d(1)[of j] d(1)[of i] assms(2) by auto
  show "(B(i \<mapsto> c')) j = Some e \<Longrightarrow> cb_onComplete e \<noteq> None" for j e
    using d(2)[of j e] assms(4) by (auto split: if_splits)
  show "rep k = Some j \<Longrightarrow> K j = Some True \<and> (\<exists>c. (B(i \<mapsto> c')) j = Some c \<and> control_key c = k)" for k j
    using d(3)[of k j] assms(2,3) by auto
  show "K j = Some True \<Longrightarrow> (B(i \<mapsto> c')) j = Some e \<Longrightarrow> rep (control_key e) = Some j" for j e
    by (metis assms(2,3) d(4) fun_upd_apply option.inject)
  show "req k = Some j \<Longrightarrow> K j = Some False \<and> (\<exists>c. (B(i \<mapsto> c')) j = Some c \<and> cb_id c = k)" for k j
    using d(5)[of k j] assms(2) id by auto
qed

lemma blocks_inv_free_reply:
  assumes "blocks_inv B rep req (K(i \<mapsto> True))" "K i = None" "B i = Some c"
  shows "blocks_inv (B(i := None)) (rep(control_key c := None)) req K"
proof (rule blocks_invI)
  note d = blocks_invD[OF assms(1)]
  have own: "rep (control_key c) = Some i" using d(4)[of i c] assms(3) by simp
  show "(B(i := None)) j = None \<longleftrightarrow> K j = None" for j
    using d(1)[of j] assms(2) by auto
  show "(B(i := None)) j = Some e \<Longrightarrow> cb_onComplete e \<noteq> None" for j e
    using d(2)[of j e] by (auto split: if_splits)
  show "(rep(control_key c := None)) k = Some j \<Longrightarrow>
      K j = Some True \<and> (\<exists>e. (B(i := None)) j = Some e \<and> control_key e = k)" for k j
    using d(3)[of k j] assms(3) by (cases "j = i") (auto split: if_splits)
  show "K j = Some True \<Longrightarrow> (B(i := None)) j = Some e \<Longrightarrow> (rep(control_key c := None)) (control_key e) = Some j" for j e
    using d(4)[of j e] own by (auto split: if_splits)
  show "req k = Some j \<Longrightarrow> K j = Some False \<and> (\<exists>c. (B(i := None)) j = Some c \<and> cb_id c = k)" for k j
    using d(5)[of k j] by (auto split: if_splits)
qed

lemma blocks_inv_free_request:
  assumes "blocks_inv B rep req (K(i \<mapsto> False))" "K i = None" "B i = Some c"
  shows "blocks_inv (B(i := None)) rep (req(cb_id c := None)) K"
proof (rule blocks_invI)
  note d = blocks_invD[OF assms(1)]
  show "(B(i := None)) j = None \<longleftrightarrow> K j = None" for j
    using d(1)[of j] assms(2) by auto
  show "(B(i := None)) j = Some e \<Longrightarrow> cb_onComplete e \<noteq> None" for j e
    using d(2)[of j e] by (auto split: if_splits)
  show "rep k = Some j \<Longrightarrow> K j = Some True \<and> (\<exists>e. (B(i := None)) j = Some e \<and> control_key e = k)" for k j
    using d(3)[of k j] by (auto split: if_splits)
  show "K j = Some True \<Longrightarrow> (B(i := None)) j = Some e \<Longrightarrow> rep (control_key e) = Some j" for j e
    using d(4)[of j e] by (auto split: if_splits)
  show "(req(cb_id c := None)) k = Some j \<Longrightarrow>
      K j = Some False \<and> (\<exists>c. (B(i := None)) j = Some c \<and> cb_id c = k)" for k j
    using d(5)[of k j] assms(3) by (cases "j = i") (auto split: if_splits)
qed

lemma blocks_inv_new_reply:
  assumes "blocks_inv B rep req K" "rep (control_key c) = None" "B i = None" "cb_onComplete c \<noteq> None"
  shows "blocks_inv (B(i \<mapsto> c)) (rep(control_key c \<mapsto> i)) req (K(i \<mapsto> True))"
proof (rule blocks_invI)
  note d = blocks_invD[OF assms(1)]
  have new: "K i = None" using d(1)[of i] assms(3) by simp
  show "(B(i \<mapsto> c)) j = None \<longleftrightarrow> (K(i \<mapsto> True)) j = None" for j
    using d(1)[of j] by auto
  show "(B(i \<mapsto> c)) j = Some e \<Longrightarrow> cb_onComplete e \<noteq> None" for j e
    using d(2)[of j e] assms(4) by (auto split: if_splits)
  show "(rep(control_key c \<mapsto> i)) k = Some j \<Longrightarrow>
      (K(i \<mapsto> True)) j = Some True \<and> (\<exists>e. (B(i \<mapsto> c)) j = Some e \<and> control_key e = k)" for k j
    using d(3)[of k j] new by (auto split: if_splits)
  show "(K(i \<mapsto> True)) j = Some True \<Longrightarrow> (B(i \<mapsto> c)) j = Some e \<Longrightarrow>
      (rep(control_key c \<mapsto> i)) (control_key e) = Some j" for j e
    using d(4)[of j e] assms(2) by (auto split: if_splits)
  show "req k = Some j \<Longrightarrow> (K(i \<mapsto> True)) j = Some False \<and> (\<exists>e. (B(i \<mapsto> c)) j = Some e \<and> cb_id e = k)" for k j
    using d(5)[of k j] new by (auto split: if_splits)
qed

lemma blocks_inv_new_request:
  assumes "blocks_inv B rep req K" "B i = None" "cb_onComplete c \<noteq> None"
  shows "blocks_inv (B(i \<mapsto> c)) rep (req(cb_id c \<mapsto> i)) (K(i \<mapsto> False))"
proof (rule blocks_invI)
  note d = blocks_invD[OF assms(1)]
  have new: "K i = None" using d(1)[of i] assms(2) by simp
  show "(B(i \<mapsto> c)) j = None \<longleftrightarrow> (K(i \<mapsto> False)) j = None" for j
    using d(1)[of j] by auto
  show "(B(i \<mapsto> c)) j = Some e \<Longrightarrow> cb_onComplete e \<noteq> None" for j e
    using d(2)[of j e] assms(3) by (auto split: if_splits)
  show "rep k = Some j \<Longrightarrow> (K(i \<mapsto> False)) j = Some True \<and> (\<exists>e. (B(i \<mapsto> c)) j = Some e \<and> control_key e = k)" for k j
    using d(3)[of k j] new by (auto split: if_splits)
  show "(K(i \<mapsto> False)) j = Some True \<Longrightarrow> (B(i \<mapsto> c)) j = Some e \<Longrightarrow> rep (control_key e) = Some j" for j e
    using d(4)[of j e] by (auto split: if_splits)
  show "(req(cb_id c \<mapsto> i)) k = Some j \<Longrightarrow>
      (K(i \<mapsto> False)) j = Some False \<and> (\<exists>e. (B(i \<mapsto> c)) j = Some e \<and> cb_id e = k)" for k j
    using d(5)[of k j] new by (auto split: if_splits)
qed

section \<open>No dangling control block\<close>

text \<open>
  The result is as said, or the call faulted in another way than by using or freeing a
  control block that is gone.
\<close>

definition ensures :: "('a \<Rightarrow> bool) \<Rightarrow> 'a res \<Rightarrow> bool" where
  "ensures P m \<longleftrightarrow> (case m of Inl e \<Rightarrow> e \<noteq> UseAfterFree \<and> e \<noteq> DoubleFree | Inr x \<Rightarrow> P x)"

named_theorems ensures_intros

lemma ensures_simps [simp]:
  "ensures P (Inr x) = P x"
  "ensures P (Inl e) \<longleftrightarrow> e \<noteq> UseAfterFree \<and> e \<noteq> DoubleFree"
  by (simp_all add: ensures_def)

lemma ensures_rbind [ensures_intros]:
  "ensures Q m \<Longrightarrow> (\<And>x. Q x \<Longrightarrow> ensures P (f x)) \<Longrightarrow> ensures P (rbind m f)"
  by (cases m) simp_all

lemma ensures_mono: "ensures Q m \<Longrightarrow> (\<And>x. Q x \<Longrightarrow> P x) \<Longrightarrow> ensures P m"
  by (cases m) simp_all

lemma ensures_memory [ensures_intros]:
  "ensures (\<lambda>_. True) (load_bytes h p n)"
  "ensures (\<lambda>_. True) (store_bytes h p bs)"
  by (simp_all add: load_bytes_def store_bytes_def)

lemma ensures_fields [ensures_intros]:
  "ensures (\<lambda>_. True) (load8 h p)" "ensures (\<lambda>_. True) (load16 h p)"
  "ensures (\<lambda>_. True) (store8 h p b)" "ensures (\<lambda>_. True) (store16 h p w)"
  by (auto simp: load8_def load16_def store8_def store16_def intro!: ensures_intros)

lemma ensures_crypt [ensures_intros]:
  "ensures (\<lambda>_. True) (encrypt lib h c p n)" "ensures (\<lambda>_. True) (decrypt lib h c p n)"
  by (auto simp: encrypt_def encryptTo_def decrypt_def decryptTo_def split_beta
      split: option.splits intro!: ensures_intros)

lemma rpc_wf_frame [simp]:
  "rpc_wf (r\<lparr>r_heap := h\<rparr>) = rpc_wf r" "rpc_wf (r\<lparr>r_client := s\<rparr>) = rpc_wf r"
  "rpc_wf (r\<lparr>r_cryptor := c\<rparr>) = rpc_wf r" "rpc_wf (r\<lparr>r_sent := x\<rparr>) = rpc_wf r"
  "rpc_wf (r\<lparr>r_nextId := n\<rparr>) = rpc_wf r"
  by (simp_all add: rpc_wf_def)

text \<open>A state in the middle of a handler: the block of \<open>t\<close> is held by the handler.\<close>

definition holding :: "('ep::linorder, 'c, 'k, 's) rpc \<Rightarrow> task \<Rightarrow> bool" where
  "holding r t \<longleftrightarrow> rpc_wf (r\<lparr>r_pending := t # r_pending r\<rparr>)"

lemma holding_frame [simp]:
  "holding (r\<lparr>r_heap := h\<rparr>) t = holding r t" "holding (r\<lparr>r_client := s\<rparr>) t = holding r t"
  "holding (r\<lparr>r_cryptor := c\<rparr>) t = holding r t" "holding (r\<lparr>r_sent := x\<rparr>) t = holding r t"
  "holding (r\<lparr>r_nextId := n\<rparr>) t = holding r t"
  by (simp_all add: holding_def rpc_wf_def)

lemma wf_pending_perm:
  assumes "rpc_wf r" "distinct (map task_block Q)"
    and "(\<lambda>t. (task_block t, is_reply t)) ` set (r_pending r) = (\<lambda>t. (task_block t, is_reply t)) ` set Q"
  shows "rpc_wf (r\<lparr>r_pending := Q\<rparr>)"
  using assms kind_perm[of "r_pending r" Q] by (simp add: rpc_wf_def)

lemma holding_take:
  assumes "rpc_wf r" "t \<in> set (r_pending r)"
  shows "holding (r\<lparr>r_pending := remove1 t (r_pending r)\<rparr>) t"
proof -
  have m: "mset (t # remove1 t (r_pending r)) = mset (r_pending r)"
    using assms(2) by simp
  then have "distinct (map task_block (t # remove1 t (r_pending r)))"
    using assms(1) unfolding rpc_wf_def by (metis mset_eq_imp_distinct_iff mset_map)
  moreover have "set (t # remove1 t (r_pending r)) = set (r_pending r)"
    using m by (metis set_mset_mset)
  ultimately show ?thesis
    using wf_pending_perm[OF assms(1), of "t # remove1 t (r_pending r)"] by (simp add: holding_def)
qed

lemma holding_put:
  assumes "holding r t" "task_block t' = task_block t" "is_reply t' = is_reply t"
  shows "rpc_wf (r\<lparr>r_pending := r_pending r @ [t']\<rparr>)"
proof -
  have d: "distinct (map task_block (t # r_pending r))"
    using assms(1) by (simp add: holding_def rpc_wf_def)
  show ?thesis
    using assms d wf_pending_perm[of "r\<lparr>r_pending := t # r_pending r\<rparr>" "r_pending r @ [t']"]
    by (simp add: holding_def)
qed

lemma holding_fresh: "holding r t \<Longrightarrow> kind (r_pending r) (task_block t) = None"
  by (simp add: holding_def rpc_wf_def kind_None)

lemma holding_block:
  assumes "holding r t"
  obtains c where "block_at (r_blocks r) (task_block t) = Some c" "cb_onComplete c \<noteq> None"
    "get_control r (task_block t) = Inr c" "task_block t < length (r_blocks r)"
proof -
  let ?i = "task_block t"
  have inv: "blocks_inv (block_at (r_blocks r)) (map_of (r_replying r)) (map_of (r_requesting r))
      ((kind (r_pending r))(?i \<mapsto> is_reply t))"
    using assms by (simp add: holding_def rpc_wf_def kind_Cons)
  then obtain c where c: "block_at (r_blocks r) ?i = Some c"
    using blocks_invD(1)[OF inv, of ?i] by auto
  moreover have "get_control r ?i = Inr c"
    using c by (simp add: get_control_def block_at_def split: if_splits)
  ultimately show ?thesis
    using that blocks_invD(2)[OF inv c] block_at_length[OF c] by blast
qed

lemma holding_update:
  assumes "holding r t" "block_at (r_blocks r) i = Some c" "control_key c' = control_key c" "cb_onComplete c' \<noteq> None"
  shows "holding (put_control r i c') t"
  using assms(1) block_at_length[OF assms(2)]
    blocks_inv_update[of "block_at (r_blocks r)" _ _ _ i c c', OF _ assms(2-4)]
  by (simp add: holding_def rpc_wf_def put_control_def block_at_simps)

text \<open>Steps that leave the blocks, the maps and the pending operations alone.\<close>

definition same_core :: "('ep, 'c, 'k, 's) rpc \<Rightarrow> ('ep, 'c, 'k, 's) rpc \<Rightarrow> bool" where
  "same_core r r' \<longleftrightarrow> r_blocks r' = r_blocks r \<and> r_replying r' = r_replying r
     \<and> r_requesting r' = r_requesting r \<and> r_pending r' = r_pending r"

lemma same_core_wf: "same_core r r' \<Longrightarrow> rpc_wf r' = rpc_wf r" "same_core r r' \<Longrightarrow> holding r' t = holding r t"
  by (simp_all add: same_core_def rpc_wf_def holding_def)

lemma free_control_live:
  "block_at (r_blocks r) i = Some c \<Longrightarrow> free_control r i = Inr (r\<lparr>r_blocks := (r_blocks r)[i := None]\<rparr>)"
  by (auto simp: free_control_def block_at_def split: if_splits)

lemma free_reply_wf:
  assumes "holding r t" "is_reply t" "task_block t = i" "block_at (r_blocks r) i = Some c"
  shows "ensures rpc_wf (free_control
    (r\<lparr>r_replying := smap_erase (<) (control_key c) (r_replying r)\<rparr>) i)"
proof -
  have k: "kind (r_pending r) i = None" using holding_fresh[OF assms(1)] assms(3) by simp
  have w: "smap_wf (<) UNIV (r_replying r)" "smap_wf (<) UNIV (r_requesting r)"
      "distinct (map task_block (r_pending r))"
      "blocks_inv (block_at (r_blocks r)) (map_of (r_replying r)) (map_of (r_requesting r))
        ((kind (r_pending r))(i \<mapsto> True))"
    using assms(1-3) by (simp_all add: holding_def rpc_wf_def kind_Cons)
  show ?thesis
    using w blocks_inv_free_reply[where K = "kind (r_pending r)" and i = i, OF w(4) k assms(4)]
      block_at_length[OF assms(4)] ordered.invar_delete[OF w(1)]
    by (simp add: rpc_wf_def free_control_live[of _ i c] assms(4) block_at_simps ordered.map_of_erase)
qed

lemma free_request_wf:
  assumes "holding r t" "\<not> is_reply t" "task_block t = i" "block_at (r_blocks r) i = Some c"
  shows "ensures rpc_wf (free_control (r\<lparr>r_requesting := smap_erase (<) (cb_id c) (r_requesting r)\<rparr>) i)"
proof -
  have k: "kind (r_pending r) i = None" using holding_fresh[OF assms(1)] assms(3) by simp
  have w: "smap_wf (<) UNIV (r_replying r)" "smap_wf (<) UNIV (r_requesting r)"
      "distinct (map task_block (r_pending r))"
      "blocks_inv (block_at (r_blocks r)) (map_of (r_replying r)) (map_of (r_requesting r))
        ((kind (r_pending r))(i \<mapsto> False))"
    using assms(1-3) by (simp_all add: holding_def rpc_wf_def kind_Cons)
  show ?thesis
    using w blocks_inv_free_request[where K = "kind (r_pending r)" and i = i, OF w(4) k assms(4)]
      block_at_length[OF assms(4)] ordered.invar_delete[OF w(2)]
    by (simp add: rpc_wf_def free_control_live[of _ i c] assms(4) block_at_simps ordered.map_of_erase)
qed

lemma async_send_ensures:
  assumes "holding r t" "task_block t' = task_block t" "is_reply t' = is_reply t"
  shows "ensures rpc_wf (async_send r c t')"
  unfolding async_send_def
proof (rule ensures_rbind[OF ensures_memory(1)])
  fix bs
  have "holding (r\<lparr>r_sent := r_sent r @ [(cb_endpoint c, bs)]\<rparr>) t" using assms(1) by simp
  from holding_put[OF this assms(2,3)]
  show "ensures rpc_wf (Inr (r\<lparr>r_sent := r_sent r @ [(cb_endpoint c, bs)], r_pending := r_pending r @ [t']\<rparr>))"
    by simp
qed

lemma holding_decrement:
  assumes "holding r t"
  obtains c where "get_control r (task_block t) = Inr c"
    "holding (put_control r (task_block t) (c\<lparr>cb_remain := n c\<rparr>)) t"
    "block_at (r_blocks (put_control r (task_block t) (c\<lparr>cb_remain := n c\<rparr>))) (task_block t)
      = Some (c\<lparr>cb_remain := n c\<rparr>)"
proof -
  let ?i = "task_block t"
  obtain c where c: "block_at (r_blocks r) ?i = Some c" "cb_onComplete c \<noteq> None"
    "get_control r ?i = Inr c" "?i < length (r_blocks r)"
    using assms(1) by (rule holding_block)
  have "holding (put_control r ?i (c\<lparr>cb_remain := n c\<rparr>)) t"
    using c by (intro holding_update[OF assms(1)]) (simp_all add: control_key_def)
  moreover have "block_at (r_blocks (put_control r ?i (c\<lparr>cb_remain := n c\<rparr>))) ?i = Some (c\<lparr>cb_remain := n c\<rparr>)"
    using c(4) by (simp add: put_control_def block_at_simps)
  ultimately show ?thesis using c(3) that by blast
qed

lemma seal_packet_ensures: "ensures (same_core r) (seal_packet lib r b cmd pid)"
  unfolding seal_packet_def
  by (rule ensures_rbind, rule ensures_fields, rule ensures_rbind, rule ensures_fields,
      rule ensures_rbind, rule ensures_crypt) (auto simp: same_core_def)

lemma find_ordered: "smap_find (<) k m = map_of m k" for k :: "'k::linorder"
  by (rule ordered.find_map_of) simp_all

lemma wf_dead_block: "rpc_wf r \<Longrightarrow> r_blocks r' = r_blocks r @ [None] \<Longrightarrow> r_replying r' = r_replying r \<Longrightarrow>
    r_requesting r' = r_requesting r \<Longrightarrow> r_pending r' = r_pending r \<Longrightarrow> rpc_wf r'"
  by (simp add: rpc_wf_def block_at_simps fun_upd_idem)

lemma free_last:
  "r_blocks r = B @ [Some c] \<Longrightarrow> free_control r (length B) = Inr (r\<lparr>r_blocks := B @ [None]\<rparr>)"
  by (simp add: free_control_def)

lemma wf_kind_new: "rpc_wf r \<Longrightarrow> kind (r_pending r) (length (r_blocks r)) = None"
  unfolding rpc_wf_def
  using blocks_invD(1)[of "block_at (r_blocks r)" _ _ "kind (r_pending r)" "length (r_blocks r)"] by auto

lemma holding_new_reply:
  assumes "rpc_wf r" "map_of (r_replying r) (control_key c) = None" "cb_onComplete c \<noteq> None"
    and "r_blocks r' = r_blocks r @ [Some c]" "r_replying r' = r_replying r"
    "r_requesting r' = r_requesting r" "r_pending r' = r_pending r"
  shows "holding (r'\<lparr>r_replying := smap_put (<) (control_key c) (length (r_blocks r)) (r_replying r')\<rparr>)
    (ReplySend (length (r_blocks r)))"
proof -
  have w: "smap_wf (<) UNIV (r_replying r)" using assms(1) by (simp add: rpc_wf_def)
  show ?thesis
    using assms wf_kind_new[OF assms(1)] ordered.invar_update[OF w, of "control_key c" "length (r_blocks r)"]
      blocks_inv_new_reply[where i = "length (r_blocks r)" and c = c, of "block_at (r_blocks r)"
        "map_of (r_replying r)" "map_of (r_requesting r)" "kind (r_pending r)"]
    by (simp add: holding_def rpc_wf_def block_at_simps kind_Cons kind_None smap_wf_def ordered.map_of_put)
qed

lemma holding_new_request:
  assumes "rpc_wf r" "cb_onComplete c \<noteq> None"
    and "r_blocks r' = r_blocks r @ [Some c]" "r_replying r' = r_replying r"
    "r_requesting r' = r_requesting r" "r_pending r' = r_pending r"
  shows "holding (r'\<lparr>r_requesting := smap_put (<) (cb_id c) (length (r_blocks r)) (r_requesting r')\<rparr>)
    (RequestSend (length (r_blocks r)))"
proof -
  have w: "smap_wf (<) UNIV (r_requesting r)" using assms(1) by (simp add: rpc_wf_def)
  show ?thesis
    using assms wf_kind_new[OF assms(1)] ordered.invar_update[OF w, of "cb_id c" "length (r_blocks r)"]
      blocks_inv_new_request[where i = "length (r_blocks r)" and c = c, of "block_at (r_blocks r)"
        "map_of (r_replying r)" "map_of (r_requesting r)" "kind (r_pending r)"]
    by (simp add: holding_def rpc_wf_def block_at_simps kind_Cons kind_None smap_wf_def ordered.map_of_put)
qed

lemma wf_update_live:
  assumes "rpc_wf r" "block_at (r_blocks r) i = Some c" "control_key c' = control_key c" "cb_onComplete c' \<noteq> None"
  shows "rpc_wf (put_control r i c')"
  using assms(1) block_at_length[OF assms(2)]
    blocks_inv_update[of "block_at (r_blocks r)" _ _ _ i c c', OF _ assms(2-4)]
  by (simp add: rpc_wf_def put_control_def block_at_simps)

text \<open>
  What the class relies on in its owner's callbacks: the request callback leaves the identity
  of the block alone and, when it accepts, sets the completion callback; neither uses or
  frees control blocks on its own.
\<close>

locale rpc_owner =
  fixes cbs :: "('ep::linorder, 'k, 's) callbacks"
  assumes request_keeps: "onRequest cbs = Some f \<Longrightarrow>
      ensures (\<lambda>(acc, c', hs'). control_key c' = control_key c \<and> (acc \<longrightarrow> cb_onComplete c' \<noteq> None)) (f buf c hs)"
    and complete_keeps: "ensures (\<lambda>_. True) (onComplete cbs k err b ctl hs)"
begin

lemma call_complete_ensures: "ensures (same_core r) (call_complete cbs r f err b ctl)"
proof (cases f)
  case (Some k)
  then show ?thesis
    by (auto simp: call_complete_def same_core_def intro!: ensures_rbind[OF complete_keeps])
qed (simp add: call_complete_def)

lemma onReplyTimer_ensures:
  assumes "holding r t" "is_reply t"
  shows "ensures rpc_wf (onReplyTimer cbs r err (task_block t))"
proof -
  let ?i = "task_block t"
  obtain c where c: "get_control r ?i = Inr c"
    "holding (put_control r ?i (c\<lparr>cb_remain := cb_remain c - 1\<rparr>)) t"
    "block_at (r_blocks (put_control r ?i (c\<lparr>cb_remain := cb_remain c - 1\<rparr>))) ?i = Some (c\<lparr>cb_remain := cb_remain c - 1\<rparr>)"
    by (rule holding_decrement[OF assms(1), of "\<lambda>c. cb_remain c - 1"])
  let ?c = "c\<lparr>cb_remain := cb_remain c - 1\<rparr>"
  show ?thesis
  proof (cases "sint (cb_remain ?c) \<le> 0 \<or> failed err")
    case True
    have "ensures rpc_wf (free_control
        (r2\<lparr>r_replying := smap_erase (<) (control_key ?c) (r_replying r2)\<rparr>) ?i)"
      if "same_core (put_control r ?i ?c) r2" for r2
      using that c(2,3) assms(2) by (intro free_reply_wf) (simp_all add: same_core_wf, simp add: same_core_def)
    with True c(1) show ?thesis
      by (auto simp: onReplyTimer_def Let_def control_key_def intro!: ensures_rbind[OF call_complete_ensures])
  next
    case False
    then show ?thesis
      using async_send_ensures[OF c(2), of "ReplySend ?i" ?c] assms(2) c(1)
      by (simp add: onReplyTimer_def Let_def)
  qed
qed

lemma onRequestTimer_ensures:
  assumes "holding r t" "\<not> is_reply t"
  shows "ensures rpc_wf (onRequestTimer cbs r err (task_block t))"
proof -
  let ?i = "task_block t"
  obtain c where c: "get_control r ?i = Inr c"
    "holding (put_control r ?i (c\<lparr>cb_remain := cb_remain c - 1\<rparr>)) t"
    "block_at (r_blocks (put_control r ?i (c\<lparr>cb_remain := cb_remain c - 1\<rparr>))) ?i = Some (c\<lparr>cb_remain := cb_remain c - 1\<rparr>)"
    by (rule holding_decrement[OF assms(1), of "\<lambda>c. cb_remain c - 1"])
  let ?c = "c\<lparr>cb_remain := cb_remain c - 1\<rparr>"
  show ?thesis
  proof (cases "sint (cb_remain ?c) \<le> 0 \<or> failed err")
    case True
    have free: "ensures rpc_wf (free_control
        (r2\<lparr>r_requesting := smap_erase (<) (cb_id ?c) (r_requesting r2)\<rparr>) ?i)"
      if "same_core (put_control r ?i ?c) r2" for r2
      using that c(2,3) assms(2) by (intro free_request_wf) (simp_all add: same_core_wf, simp add: same_core_def)
    have "ensures (same_core (put_control r ?i ?c)) (if cb_remain ?c = 0
        then call_complete cbs (put_control r ?i ?c) (cb_onComplete ?c) TimedOut None (Some ?c)
        else if failed err then call_complete cbs (put_control r ?i ?c) (cb_onComplete ?c) err None (Some ?c)
        else Inr (put_control r ?i ?c))"
      using call_complete_ensures by (auto simp: same_core_def)
    from ensures_rbind[OF this free] True c(1) show ?thesis
      by (auto simp: onRequestTimer_def Let_def)
  next
    case False
    then show ?thesis
      using async_send_ensures[OF c(2), of "RequestSend ?i" ?c] assms(2) c(1)
      by (simp add: onRequestTimer_def Let_def)
  qed
qed

lemma feed_reply_ensures:
  assumes "rpc_wf r" "map_of (r_requesting r) pid = Some i"
  shows "ensures rpc_wf (feed_reply cbs r i buf)"
proof -
  have inv: "blocks_inv (block_at (r_blocks r)) (map_of (r_replying r)) (map_of (r_requesting r)) (kind (r_pending r))"
    using assms(1) by (simp add: rpc_wf_def)
  obtain c where c: "block_at (r_blocks r) i = Some c"
    using blocks_invD(5)[OF inv assms(2)] by blast
  then have get: "get_control r i = Inr c"
    by (simp add: get_control_def block_at_def split: if_splits)
  have "rpc_wf (put_control r1 i (c\<lparr>cb_remain := 0\<rparr>))" if "same_core r r1" for r1
    using that assms(1) c blocks_invD(2)[OF inv c]
    by (intro wf_update_live[where c = c]) (simp_all add: same_core_wf control_key_def, simp add: same_core_def)
  then show ?thesis
    by (auto simp: feed_reply_def get intro!: ensures_rbind[OF call_complete_ensures])
qed

lemma finish_request_ensures:
  assumes wf: "rpc_wf r" and free: "map_of (r_replying r) (control_key c) = None"
    and acc: "acc \<longrightarrow> cb_onComplete c \<noteq> None" and key: "control_key c = IdEndpoint peer pid"
    and r2: "r_blocks r2 = r_blocks r @ [Some c]" "r_replying r2 = r_replying r"
      "r_requesting r2 = r_requesting r" "r_pending r2 = r_pending r"
  shows "ensures rpc_wf (finish_request lib cbs r2 peer pid (length (r_blocks r)) acc c)"
proof -
  let ?i = "length (r_blocks r)"
  have dead: "ensures rpc_wf (free_control r3 ?i)" if "same_core r2 r3" for r3
    using that r2 wf_dead_block[OF wf, of "r3\<lparr>r_blocks := r_blocks r @ [None]\<rparr>"]
    by (simp add: free_last[of _ _ c] same_core_def)
  have refused: "ensures rpc_wf (rbind (call_complete cbs r2 (cb_onComplete c) NoBufferSpace None None)
      (\<lambda>r3. free_control r3 ?i))"
    by (rule ensures_rbind[OF call_complete_ensures dead])
  let ?b = "moveFrontBoundary (cb_buffer c) (- 3)"
  let ?c = "c\<lparr>cb_buffer := ?b\<rparr>"
  let ?r3 = "put_control r2 ?i ?c"
  have k: "control_key ?c = control_key c" by (simp add: control_key_def)
  have accepted: "ensures rpc_wf (rbind (seal_packet lib ?r3 ?b REPLY (cb_id c)) (\<lambda>r4. onReplyTimer cbs
      (r4\<lparr>r_replying := smap_put (<) (control_key c) ?i (r_replying r4)\<rparr>) NoError ?i))"
    if acc
  proof (rule ensures_rbind[OF seal_packet_ensures])
    fix r4
    assume "same_core ?r3 r4"
    then have "holding (r4\<lparr>r_replying := smap_put (<) (control_key ?c) ?i (r_replying r4)\<rparr>) (ReplySend ?i)"
      using acc \<open>acc\<close> free r2
      by (intro holding_new_reply[OF wf]) (simp_all add: same_core_def put_control_def k)
    from onReplyTimer_ensures[OF this]
    show "ensures rpc_wf (onReplyTimer cbs
        (r4\<lparr>r_replying := smap_put (<) (control_key c) ?i (r_replying r4)\<rparr>) NoError ?i)"
      by (simp add: k)
  qed
  show ?thesis
    using refused accepted dead[of r2] by (simp add: finish_request_def Let_def key same_core_def)
qed

lemma feed_request_ensures:
  assumes wf: "rpc_wf r" and free: "map_of (r_replying r) (IdEndpoint peer pid) = None"
  shows "ensures rpc_wf (feed_request lib cbs r peer pid buf)"
proof (cases "onRequest cbs")
  case (Some f)
  let ?i = "length (r_blocks r)"
  let ?c = "\<lparr>cb_remain = ucast (r_retry r), cb_endpoint = peer, cb_id = pid, cb_buffer = buf, cb_onComplete = None\<rparr>"
  have "ensures rpc_wf (finish_request lib cbs
      ((put_control (r\<lparr>r_blocks := r_blocks r @ [Some ?c]\<rparr>) ?i c')\<lparr>r_heap := h, r_client := s\<rparr>) peer pid ?i acc c')"
    if "control_key c' = control_key ?c" "acc \<longrightarrow> cb_onComplete c' \<noteq> None" for acc c' h s
    using that free by (intro finish_request_ensures[OF wf]) (simp_all add: put_control_def control_key_def)
  then show ?thesis
    unfolding feed_request_def malloc_control_def Let_def prod.case Some option.case
    by (intro ensures_rbind[OF request_keeps[OF Some]]) (auto simp: split_beta)
qed (simp add: feed_request_def malloc_control_def)

lemma feed_ensures: "rpc_wf r \<Longrightarrow> ensures rpc_wf (feed lib cbs r peer buf)"
  unfolding feed_def
  by (rule ensures_rbind, rule ensures_crypt, clarify, rule ensures_rbind, rule ensures_fields,
      rule ensures_rbind, rule ensures_fields)
     (auto simp: feed_dispatch_def find_ordered split: option.split intro: feed_request_ensures feed_reply_ensures)

lemma send_ensures:
  assumes "rpc_wf r"
  shows "ensures rpc_wf (send lib cbs r peer buf k)"
proof (cases "prefixSpace buf < 3")
  case True
  then show ?thesis
    using assms call_complete_ensures[of r "Some k" NoBufferSpace None None]
    by (auto simp: send_def same_core_wf intro: ensures_mono)
next
  case False
  obtain pid r0 where id: "nextId r = (pid, r0)" by (cases "nextId r")
  then have r0: "rpc_wf r0" using assms by (auto simp: nextId_def split: if_splits)
  let ?b = "moveFrontBoundary buf (- 3)"
  have "ensures rpc_wf (onRequestTimer cbs
      ((r1\<lparr>r_blocks := r_blocks r1 @ [Some \<lparr>cb_remain = ucast (r_retry r1), cb_endpoint = peer, cb_id = pid,
          cb_buffer = ?b, cb_onComplete = Some k\<rparr>]\<rparr>)
        \<lparr>r_requesting := smap_put (<) pid (length (r_blocks r1)) (r_requesting r1)\<rparr>) NoError (length (r_blocks r1)))"
    if "same_core r0 r1" for r1
  proof -
    let ?c = "\<lparr>cb_remain = ucast (r_retry r1), cb_endpoint = peer, cb_id = pid, cb_buffer = ?b, cb_onComplete = Some k\<rparr>"
    let ?r2 = "r1\<lparr>r_blocks := r_blocks r1 @ [Some ?c]\<rparr>"
    have "holding (?r2\<lparr>r_requesting := smap_put (<) (cb_id ?c) (length (r_blocks r1)) (r_requesting ?r2)\<rparr>)
        (RequestSend (length (r_blocks r1)))"
      using r0 that by (intro holding_new_request) (simp_all add: same_core_wf)
    from onRequestTimer_ensures[OF this] show ?thesis by simp
  qed
  with False show ?thesis
    by (auto simp: send_def id Let_def malloc_control_def intro!: ensures_rbind[OF seal_packet_ensures])
qed

lemma complete_task_ensures:
  assumes "holding r t"
  shows "ensures rpc_wf (complete_task cbs r t err)"
proof -
  obtain c where c: "get_control r (task_block t) = Inr c"
    using holding_block[OF assms] by blast
  show ?thesis
    using onReplyTimer_ensures[OF assms, of err] onRequestTimer_ensures[OF assms, of err] c
      holding_put[OF assms]
    by (cases t) (auto simp: complete_task_def)
qed

lemma rpc_step_ensures: "rpc_wf r \<Longrightarrow> ensures rpc_wf (rpc_step lib cbs r e)"
  by (cases e) (auto simp: feed_ensures send_ensures complete_task_ensures holding_take)

lemma rpc_reach_wf: "rpc_reach lib cbs r0 r \<Longrightarrow> rpc_wf r0 \<Longrightarrow> rpc_wf r"
proof (induction rule: rpc_reach.induct)
  case (step r e r')
  then show ?case using rpc_step_ensures[of r lib e] by simp
qed

end

lemma newRpc_wf: "rpc_wf (newRpc h c s retry)"
  by (simp add: newRpc_def rpc_wf_def smap_wf_def blocks_inv_def block_at_def kind_def)

end
