(* ===== verification/RpcPackets.thy ===== *)
theory RpcPackets
  imports Rpc
begin

text \<open>
  The wire format of the calls: one byte for the kind of packet, then, encrypted, two for the
  identifier and the content. What \<open>seal_packet\<close> writes, \<open>feed\<close> of an object with the same key
  reads back.
\<close>

section \<open>Sealing\<close>

definition packet :: "'c cryptopp \<Rightarrow> 'c cryptor \<Rightarrow> u8 \<Rightarrow> u16 \<Rightarrow> bytes \<Rightarrow> bytes" where
  "packet lib c cmd pid xs = cmd # seal lib c (bytes16 pid @ xs)"

lemma length_packet: "ready lib k v c \<Longrightarrow> length (packet lib c cmd pid xs) = length xs + 3"
  by (simp add: packet_def)

lemma unat_pred: "n = Suc m \<Longrightarrow> unat w = n \<Longrightarrow> unat (w - 1) = m" for w :: u32
  by (subst unat_minus_one) auto

lemma encrypt_tail:
  assumes "ready lib k v c" "load_bytes h p (Suc m) = Inr (x # xs)" "unat n = m"
  shows "\<exists>h'. encrypt lib h c (padd p 1) n = Inr (h', c)
    \<and> load_bytes h' p (Suc m) = Inr (x # seal lib c xs)
    \<and> (\<forall>q l. disjoint_ranges p (Suc m) q l \<longrightarrow> load_bytes h' q l = load_bytes h q l)
    \<and> (\<forall>q l. in_bounds h' q l = in_bounds h q l) \<and> (heap_wf h \<longrightarrow> heap_wf h')"
proof -
  have len: "length xs = m" using load_bytes_length[OF assms(2)] by simp
  have "load_bytes h (padd p 1) m = Inr xs"
    using load_bytes_sub[OF assms(2), of 1 m] len by (simp add: slice_def)
  then obtain h' where h': "encrypt lib h c (padd p 1) n = Inr (h', c)"
      "store_bytes h (padd p (int 1)) (seal lib c xs) = Inr h'"
    using encrypt_spec[OF assms(1), of h "padd p 1" n xs] assms(3) by auto
  have "load_bytes h' p (Suc m) = Inr (patch 1 (seal lib c xs) (x # xs))"
    using assms(1) len by (intro load_store_patch[OF assms(2) h'(2)]) simp
  moreover have "patch 1 (seal lib c xs) (x # xs) = x # seal lib c xs"
    using assms(1) by (simp add: patch_def)
  moreover have "load_bytes h' q l = load_bytes h q l" if "disjoint_ranges p (Suc m) q l" for q l
    using that assms(1) len
    by (intro load_store_disjoint[OF h'(2)]) (auto simp: disjoint_ranges_def)
  ultimately show ?thesis using h' in_bounds_store[OF h'(2)] store_bytes_wf[OF _ h'(2)] by simp
qed

lemma decrypt_tail:
  assumes "ready lib k v c" "load_bytes h p (Suc m) = Inr (x # ys)" "unat n = m"
  shows "\<exists>h'. decrypt lib h c (padd p 1) n = Inr (h', c)
    \<and> load_bytes h' p (Suc m) = Inr (x # unseal lib c ys)
    \<and> (\<forall>q l. disjoint_ranges p (Suc m) q l \<longrightarrow> load_bytes h' q l = load_bytes h q l)
    \<and> (\<forall>q l. in_bounds h' q l = in_bounds h q l) \<and> (heap_wf h \<longrightarrow> heap_wf h')"
proof -
  have len: "length ys = m" using load_bytes_length[OF assms(2)] by simp
  have "load_bytes h (padd p 1) m = Inr ys"
    using load_bytes_sub[OF assms(2), of 1 m] len by (simp add: slice_def)
  then obtain h' where h': "decrypt lib h c (padd p 1) n = Inr (h', c)"
      "store_bytes h (padd p (int 1)) (unseal lib c ys) = Inr h'"
    using decrypt_spec[OF assms(1), of h "padd p 1" n ys] assms(3) by auto
  have "load_bytes h' p (Suc m) = Inr (patch 1 (unseal lib c ys) (x # ys))"
    using assms(1) len by (intro load_store_patch[OF assms(2) h'(2)]) simp
  moreover have "patch 1 (unseal lib c ys) (x # ys) = x # unseal lib c ys"
    using assms(1) by (simp add: patch_def)
  moreover have "load_bytes h' q l = load_bytes h q l" if "disjoint_ranges p (Suc m) q l" for q l
    using that assms(1) len
    by (intro load_store_disjoint[OF h'(2)]) (auto simp: disjoint_ranges_def)
  ultimately show ?thesis using h' in_bounds_store[OF h'(2)] store_bytes_wf[OF _ h'(2)] by simp
qed

lemma seal_packet_spec:
  assumes rdy: "ready lib k v (r_cryptor r)" and c: "content (r_heap r) b = Inr (x # y # z # xs)"
  shows "\<exists>h. seal_packet lib r b cmd pid = Inr (r\<lparr>r_heap := h\<rparr>)
    \<and> content h b = Inr (packet lib (r_cryptor r) cmd pid xs)
    \<and> (\<forall>q l. disjoint_ranges (b_data b) (unat (b_size b)) q l \<longrightarrow> load_bytes h q l = load_bytes (r_heap r) q l)
    \<and> (\<forall>q l. in_bounds h q l = in_bounds (r_heap r) q l) \<and> (heap_wf (r_heap r) \<longrightarrow> heap_wf h)"
proof -
  let ?h = "r_heap r" and ?p = "b_data b" and ?m = "length xs + 2"
  have n: "unat (b_size b) = Suc ?m"
    using c load_bytes_length[of ?h ?p "unat (b_size b)"] by (fastforce simp: content_def)
  have l: "load_bytes ?h ?p (Suc ?m) = Inr (x # y # z # xs)"
    using c n by (simp add: content_def)
  then have ib: "in_bounds ?h ?p (Suc ?m)" by (auto simp: load_bytes_ok)
  then have "in_bounds ?h ?p 1" using in_bounds_part[of ?h ?p "Suc ?m" 0 1] by simp
  then obtain h1 where h1: "store8 ?h ?p cmd = Inr h1" using byte.st_ok by blast
  have l1: "load_bytes h1 ?p (Suc ?m) = Inr (cmd # y # z # xs)"
    using byte.st_patch[OF l, of 0 cmd h1] h1 by (simp add: patch_def)
  have "in_bounds h1 (padd ?p 1) 2"
    using byte.in_bounds_st[OF h1] in_bounds_part[OF ib, of 1 2] by simp
  then obtain h2 where h2: "store16 h1 (padd ?p 1) pid = Inr h2" using half.st_ok by blast
  have l2: "load_bytes h2 ?p (Suc ?m) = Inr (cmd # bytes16 pid @ xs)"
    using half.st_patch[OF l1, of 1 pid h2] h2 by (simp add: patch_def)
  obtain h3 where h3: "encrypt lib h2 (r_cryptor r) (padd ?p 1) (b_size b - 1) = Inr (h3, r_cryptor r)"
      "load_bytes h3 ?p (Suc ?m) = Inr (cmd # seal lib (r_cryptor r) (bytes16 pid @ xs))"
      "\<forall>q l. disjoint_ranges ?p (Suc ?m) q l \<longrightarrow> load_bytes h3 q l = load_bytes h2 q l"
      "\<forall>q l. in_bounds h3 q l = in_bounds h2 q l" "heap_wf h2 \<longrightarrow> heap_wf h3"
    using encrypt_tail[OF rdy l2 unat_pred[OF refl n]] by blast
  have "load_bytes h3 q l = load_bytes ?h q l" if "disjoint_ranges ?p (Suc ?m) q l" for q l
  proof -
    have "load_bytes h2 q l = load_bytes h1 q l"
      using that by (intro half.load_bytes_st_disjoint[OF h2]) (auto simp: disjoint_ranges_def)
    moreover have "load_bytes h1 q l = load_bytes ?h q l"
      using that by (intro byte.load_bytes_st_disjoint[OF h1]) (auto simp: disjoint_ranges_def)
    ultimately show ?thesis using h3(3) that by simp
  qed
  moreover have "heap_wf ?h \<longrightarrow> heap_wf h3"
    using h1 h2 h3(5) by (auto simp: byte.st_eq half.st_eq dest: store_bytes_wf)
  ultimately show ?thesis
    using h1 h2 h3
    by (intro exI[of _ h3])
      (simp add: seal_packet_def content_def packet_def n byte.in_bounds_st[OF h1] half.in_bounds_st[OF h2])
qed

lemma feed_packet:
  assumes rdy: "ready lib k v (r_cryptor r)" and snd: "ready lib k v c"
    and wf: "buf_wf buf" and mem: "buf_in (r_heap r) buf"
    and wire: "content (r_heap r) buf = Inr (packet lib c cmd pid xs)"
  shows "\<exists>h. feed lib cbs r peer buf
      = feed_dispatch lib cbs (r\<lparr>r_heap := h\<rparr>) peer cmd pid (moveFrontBoundary buf 3)
    \<and> content h (moveFrontBoundary buf 3) = Inr xs \<and> buf_wf (moveFrontBoundary buf 3)
    \<and> buf_in h (moveFrontBoundary buf 3)
    \<and> (\<forall>q l. disjoint_ranges (b_data buf) (unat (b_size buf)) q l \<longrightarrow> load_bytes h q l = load_bytes (r_heap r) q l)
    \<and> (\<forall>q l. in_bounds h q l = in_bounds (r_heap r) q l) \<and> (heap_wf (r_heap r) \<longrightarrow> heap_wf h)"
proof -
  let ?h = "r_heap r" and ?p = "b_data buf" and ?m = "length xs + 2"
  have n: "unat (b_size buf) = Suc ?m"
    using wire length_packet[OF snd, of cmd pid xs] load_bytes_length[of ?h ?p "unat (b_size buf)"]
    by (fastforce simp: content_def)
  have "load_bytes ?h ?p (Suc ?m) = Inr (cmd # seal lib c (bytes16 pid @ xs))"
    using wire n by (simp add: content_def packet_def)
  from decrypt_tail[OF rdy this unat_pred[OF refl n]]
  obtain h where h: "decrypt lib ?h (r_cryptor r) (padd ?p 1) (b_size buf - 1) = Inr (h, r_cryptor r)"
      "load_bytes h ?p (Suc ?m) = Inr (cmd # bytes16 pid @ xs)"
      "\<forall>q l. disjoint_ranges ?p (Suc ?m) q l \<longrightarrow> load_bytes h q l = load_bytes ?h q l"
      "\<forall>q l. in_bounds h q l = in_bounds ?h q l" "heap_wf ?h \<longrightarrow> heap_wf h"
    using unseal_seal[OF snd rdy] by auto
  have cmd: "load8 h ?p = Inr cmd"
    using byte.ld_sub[OF h(2), of 0] by (simp add: slice_def)
  have pid: "load16 h (padd ?p 1) = Inr pid"
    using half.ld_sub[OF h(2), of 1] half.dec_enc[of pid] by (simp add: slice_def nth_append)
  have "content h buf = Inr ((cmd # bytes16 pid) @ xs)"
    using h(2) n by (simp add: content_def)
  moreover have "buf_in h buf" using mem h(4) by (simp add: buf_in_def)
  ultimately show ?thesis
    using moveFront_content[OF wf, of h "cmd # bytes16 pid" xs 3] h cmd pid n
    by (auto simp: feed_def)
qed

section \<open>Making room for the header\<close>

lemma room_for_header:
  assumes wf: "buf_wf b" and mem: "buf_in h b" and c: "content h b = Inr xs" and pre: "3 \<le> w_pre (win b)"
  shows "\<exists>x y z. content h (moveFrontBoundary b (- 3)) = Inr (x # y # z # xs)
    \<and> buf_wf (moveFrontBoundary b (- 3)) \<and> buf_in h (moveFrontBoundary b (- 3))
    \<and> \<not> prefixSpace b < 3"
proof -
  let ?b = "moveFrontBoundary b (- 3)"
  have ok: "op_ok (MoveFront (- 3))" by simp
  have w: "win ?b = (win b)\<lparr>w_pre := w_pre (win b) - 3, w_len := w_len (win b) + 3\<rparr>"
    using win_buf_step[OF wf ok] buf_wf_numbers[OF wf] pre by simp
  have wf': "buf_wf ?b" using buf_step_wf[OF wf ok] by simp
  have mem': "buf_in h ?b" using mem buf_step_frame[of b "MoveFront (- 3)"] by (simp add: buf_in_def)
  obtain bs where bs: "content h ?b = Inr bs" "length bs = unat (b_size ?b)"
    using content_ok[OF wf' mem'] by blast
  have lx: "length xs = unat (b_size b)" using content_ok[OF wf mem] c by auto
  have "int (unat (b_size ?b)) = int (unat (b_size b)) + 3"
    using w by (simp add: win_def)
  then have sz: "unat (b_size ?b) = unat (b_size b) + 3" by linarith
  have "off (b_data ?b) = off (b_data b) - 3"
    using w buf_step_frame(1)[of b "MoveFront (- 3)"] by (simp add: win_def)
  then have p: "padd (b_data ?b) 3 = b_data b"
    using buf_step_frame(3)[of b "MoveFront (- 3)"] by (simp add: padd_def ptr.expand)
  have "load_bytes h (b_data b) (unat (b_size b)) = Inr (slice 3 (unat (b_size b)) bs)"
    using load_bytes_sub[of h "b_data ?b" "unat (b_size ?b)" bs 3 "unat (b_size b)"] bs(1) sz
    by (simp add: content_def p)
  then have xs: "xs = drop 3 bs"
    using c bs(2) sz by (simp add: content_def slice_def)
  have "length bs = length xs + 3" using bs(2) sz lx by simp
  then obtain x y z ys where "bs = x # y # z # ys"
    by (cases bs; cases "tl bs"; cases "tl (tl bs)") auto
  moreover have "\<not> prefixSpace b < 3"
    using uint_spaces(1)[OF wf] pre by (simp add: word_less_def)
  ultimately show ?thesis using bs(1) xs wf' mem' by simp
qed

section \<open>A request on the wire\<close>

lemma retry_counts: "1 < sint (ucast (n :: u16) :: i8) \<Longrightarrow> 0 < sint (ucast n - 1 :: i8)"
  by (simp add: sint_pred8)

lemma send_first:
  assumes rdy: "ready lib k v (r_cryptor r)"
    and buf: "buf_wf buf" "buf_in (r_heap r) buf" "content (r_heap r) buf = Inr xs" "3 \<le> w_pre (win buf)"
    and retry: "0 < sint (ucast (r_retry r) - 1 :: i8)"
    and pid: "nextId r = (pid, r0)"
  shows "\<exists>h. send lib cbs r peer buf f = Inr (r0\<lparr>r_heap := h,
      r_blocks := r_blocks r @ [Some \<lparr>cb_remain = ucast (r_retry r) - 1, cb_endpoint = peer, cb_id = pid,
        cb_buffer = moveFrontBoundary buf (- 3), cb_onComplete = Some f\<rparr>],
      r_requesting := smap_put (<) pid (length (r_blocks r)) (r_requesting r),
      r_pending := r_pending r @ [RequestSend (length (r_blocks r))],
      r_sent := r_sent r @ [(peer, packet lib (r_cryptor r) REQUEST pid xs)]\<rparr>)
    \<and> content h (moveFrontBoundary buf (- 3)) = Inr (packet lib (r_cryptor r) REQUEST pid xs)
    \<and> (\<forall>q l. in_bounds h q l = in_bounds (r_heap r) q l) \<and> (heap_wf (r_heap r) \<longrightarrow> heap_wf h)"
proof -
  have r0: "r_heap r0 = r_heap r" "r_cryptor r0 = r_cryptor r" "r_blocks r0 = r_blocks r"
      "r_requesting r0 = r_requesting r" "r_pending r0 = r_pending r" "r_sent r0 = r_sent r" "r_retry r0 = r_retry r"
    using pid by (auto simp: nextId_def split: if_splits)
  let ?b = "moveFrontBoundary buf (- 3)"
  obtain x y z where b: "content (r_heap r0) ?b = Inr (x # y # z # xs)" "\<not> prefixSpace buf < 3"
    using room_for_header[OF buf] r0 by auto
  have "ready lib k v (r_cryptor r0)" using rdy r0 by simp
  from seal_packet_spec[OF this b(1), of REQUEST pid]
  obtain h where h: "seal_packet lib r0 ?b REQUEST pid = Inr (r0\<lparr>r_heap := h\<rparr>)"
      "content h ?b = Inr (packet lib (r_cryptor r) REQUEST pid xs)"
      "\<forall>q l. in_bounds h q l = in_bounds (r_heap r) q l" "heap_wf (r_heap r) \<longrightarrow> heap_wf h"
    using r0 by auto
  show ?thesis
    using b(2) h r0 retry
    by (intro exI[of _ h]) (simp add: send_def pid Let_def malloc_control_def onRequestTimer_def failed_def
        get_control_def put_control_def async_send_def content_def)
qed

lemmas send_spec = send_first[OF _ _ _ _ _ retry_counts]

lemma feed_request_packet:
  assumes rdy: "ready lib k v (r_cryptor r)" and snd: "ready lib k v c"
    and i: "buf_wf inb" "buf_in (r_heap r) inb" "content (r_heap r) inb = Inr (packet lib c REQUEST pid xs)"
    and new: "smap_find (<) (IdEndpoint caller pid) (r_replying r) = None" and f: "onRequest cbs = Some f"
  shows "\<exists>h b d. content h b = Inr xs \<and> buf_wf b \<and> buf_in h b
    \<and> d = \<lparr>cb_remain = ucast (r_retry r), cb_endpoint = caller, cb_id = pid, cb_buffer = b, cb_onComplete = None\<rparr>
    \<and> (\<forall>q l. in_bounds h q l = in_bounds (r_heap r) q l) \<and> (heap_wf (r_heap r) \<longrightarrow> heap_wf h)
    \<and> feed lib cbs r caller inb = rbind (f b d (h, r_client r)) (\<lambda>(accepted, c', h', t).
        finish_request lib cbs (r\<lparr>r_blocks := r_blocks r @ [Some c'], r_heap := h', r_client := t\<rparr>)
          caller pid (length (r_blocks r)) accepted c')"
proof -
  obtain h where h: "feed lib cbs r caller inb
      = feed_dispatch lib cbs (r\<lparr>r_heap := h\<rparr>) caller REQUEST pid (moveFrontBoundary inb 3)"
      "content h (moveFrontBoundary inb 3) = Inr xs" "buf_wf (moveFrontBoundary inb 3)"
      "buf_in h (moveFrontBoundary inb 3)"
      "\<forall>q l. in_bounds h q l = in_bounds (r_heap r) q l" "heap_wf (r_heap r) \<longrightarrow> heap_wf h"
    using feed_packet[OF rdy snd i, of cbs caller] by blast
  let ?c = "\<lparr>cb_remain = ucast (r_retry r), cb_endpoint = caller, cb_id = pid,
      cb_buffer = moveFrontBoundary inb 3, cb_onComplete = None\<rparr>"
  have "feed lib cbs r caller inb = rbind (f (cb_buffer ?c) ?c (h, r_client r)) (\<lambda>(accepted, c', h', t).
      finish_request lib cbs (r\<lparr>r_blocks := r_blocks r @ [Some c'], r_heap := h', r_client := t\<rparr>)
        caller pid (length (r_blocks r)) accepted c')"
    using new f by (simp add: h(1) feed_dispatch_def feed_request_def malloc_control_def put_control_def)
  with h show ?thesis
    by (intro exI[of _ h] exI[of _ "cb_buffer ?c"] exI[of _ ?c]) simp
qed

lemma finish_request_spec:
  assumes rdy: "ready lib k v (r_cryptor s)"
    and block: "block_at (r_blocks s) i = Some c" "cb_id c = pid" "cb_endpoint c = caller"
    and buf: "buf_wf (cb_buffer c)" "buf_in (r_heap s) (cb_buffer c)" "content (r_heap s) (cb_buffer c) = Inr ys"
      "3 \<le> w_pre (win (cb_buffer c))"
    and remain: "1 < sint (cb_remain c)"
  shows "\<exists>s'. finish_request lib cbs s caller pid i True c = Inr s'
    \<and> r_sent s' = r_sent s @ [(caller, packet lib (r_cryptor s) REPLY pid ys)]
    \<and> r_replying s' = smap_put (<) (IdEndpoint caller pid) i (r_replying s) \<and> r_client s' = r_client s"
proof -
  let ?b = "moveFrontBoundary (cb_buffer c) (- 3)" and ?wire = "packet lib (r_cryptor s) REPLY pid ys"
  let ?s1 = "put_control s i (c\<lparr>cb_buffer := ?b\<rparr>)"
  have s1: "r_heap ?s1 = r_heap s" "r_cryptor ?s1 = r_cryptor s"
    by (simp_all add: put_control_def)
  obtain x y z where b: "content (r_heap ?s1) ?b = Inr (x # y # z # ys)" "\<not> prefixSpace (cb_buffer c) < 3"
    using room_for_header[OF buf] s1 by auto
  have "ready lib k v (r_cryptor ?s1)" using rdy s1 by simp
  from seal_packet_spec[OF this b(1), of REPLY pid]
  obtain h where h: "seal_packet lib ?s1 ?b REPLY pid = Inr (?s1\<lparr>r_heap := h\<rparr>)" "content h ?b = Inr ?wire"
    using s1 by auto
  have rem: "\<not> sint (cb_remain c - 1) \<le> 0" using remain by (simp add: sint_pred8)
  have len: "i < length (r_blocks s)" using block_at_length[OF block(1)] .
  show ?thesis
    using b(2) h rem len block(2,3)
    by (auto simp: finish_request_def Let_def onReplyTimer_def failed_def get_control_def put_control_def
        async_send_def content_def)
qed

lemma feed_reply_packet:
  assumes rdy: "ready lib k v (r_cryptor r)" and snd: "ready lib k v c"
    and i: "buf_wf inb" "buf_in (r_heap r) inb" "content (r_heap r) inb = Inr (packet lib c REPLY pid ys)"
    and j: "smap_find (<) pid (r_requesting r) = Some j" "get_control r j = Inr d" "cb_onComplete d = Some g"
  shows "\<exists>h b. content h b = Inr ys \<and> buf_wf b \<and> buf_in h b
    \<and> feed lib cbs r peer inb = rbind (onComplete cbs g NoError (Some b) (Some d) (h, r_client r)) (\<lambda>(h', t).
        Inr (put_control (r\<lparr>r_heap := h', r_client := t\<rparr>) j (d\<lparr>cb_remain := 0\<rparr>)))"
proof -
  obtain h where h: "feed lib cbs r peer inb
      = feed_dispatch lib cbs (r\<lparr>r_heap := h\<rparr>) peer REPLY pid (moveFrontBoundary inb 3)"
      "content h (moveFrontBoundary inb 3) = Inr ys" "buf_wf (moveFrontBoundary inb 3)"
      "buf_in h (moveFrontBoundary inb 3)"
    using feed_packet[OF rdy snd i, of cbs peer] by blast
  have "feed lib cbs r peer inb = rbind (onComplete cbs g NoError (Some (moveFrontBoundary inb 3)) (Some d)
      (h, r_client r)) (\<lambda>(h', t). Inr (put_control (r\<lparr>r_heap := h', r_client := t\<rparr>) j (d\<lparr>cb_remain := 0\<rparr>)))"
    using j by (simp add: h(1) feed_dispatch_def command_defs feed_reply_def call_complete_def rbind_assoc split_def)
  with h show ?thesis by blast
qed

text \<open>
  C27. A request arrives as it was sent. \<open>send\<close> puts one datagram on the wire for the call; fed
  to an object with the same key, from any buffer it has been received into, it makes that
  object's \<open>onRequest\<close> be called with the content that was sent, and with a control block that
  carries the caller's identifier and endpoint, unless the call is already being replied to.
\<close>

theorem request_arrives:
  assumes rdy: "ready lib k v (r_cryptor s)" and rdy': "ready lib k v (r_cryptor r)"
    and buf: "buf_wf buf" "buf_in (r_heap s) buf" "content (r_heap s) buf = Inr xs" "3 \<le> w_pre (win buf)"
    and retry: "1 < sint (ucast (r_retry s) :: i8)" and pid: "pid = fst (nextId s)"
  shows "(\<exists>s'. send lib cbs s peer buf g = Inr s'
      \<and> r_sent s' = r_sent s @ [(peer, packet lib (r_cryptor s) REQUEST pid xs)]
      \<and> smap_find (<) pid (r_requesting s') = Some (length (r_blocks s)))
    \<and> (\<forall>inb caller f. buf_wf inb \<and> buf_in (r_heap r) inb
        \<and> content (r_heap r) inb = Inr (packet lib (r_cryptor s) REQUEST pid xs)
        \<and> smap_find (<) (IdEndpoint caller pid) (r_replying r) = None \<and> onRequest cbs' = Some f \<longrightarrow>
        (\<exists>h b c. content h b = Inr xs \<and> cb_id c = pid \<and> cb_endpoint c = caller \<and> cb_buffer c = b
          \<and> feed lib cbs' r caller inb = rbind (f b c (h, r_client r)) (\<lambda>(accepted, c', h', t).
              finish_request lib cbs' (r\<lparr>r_blocks := r_blocks r @ [Some c'], r_heap := h', r_client := t\<rparr>)
                caller pid (length (r_blocks r)) accepted c')))"
proof -
  obtain s0 where id: "nextId s = (pid, s0)" using pid by (cases "nextId s") simp
  from send_spec[OF rdy buf retry id, of cbs peer g]
  obtain s' where send: "send lib cbs s peer buf g = Inr s'"
      "r_sent s' = r_sent s @ [(peer, packet lib (r_cryptor s) REQUEST pid xs)]"
      "r_requesting s' = smap_put (<) pid (length (r_blocks s)) (r_requesting s)"
    by auto
  then have "smap_find (<) pid (r_requesting s') = Some (length (r_blocks s))"
    by (simp add: smap_find_put_same)
  moreover have "\<exists>h b c. content h b = Inr xs \<and> cb_id c = pid \<and> cb_endpoint c = caller \<and> cb_buffer c = b
      \<and> feed lib cbs' r caller inb = rbind (f b c (h, r_client r)) (\<lambda>(accepted, c', h', t).
          finish_request lib cbs' (r\<lparr>r_blocks := r_blocks r @ [Some c'], r_heap := h', r_client := t\<rparr>)
            caller pid (length (r_blocks r)) accepted c')"
    if "buf_wf inb" "buf_in (r_heap r) inb" "content (r_heap r) inb = Inr (packet lib (r_cryptor s) REQUEST pid xs)"
      "smap_find (<) (IdEndpoint caller pid) (r_replying r) = None" "onRequest cbs' = Some f" for inb caller f
    using feed_request_packet[OF rdy' rdy that] by (elim exE conjE) (intro exI conjI, assumption, simp_all)
  ultimately show ?thesis using send by blast
qed

text \<open>
  C28. A reply arrives as it was written. When the owner has accepted a request and put a
  content with room for the header into the block's buffer, one datagram goes to the caller;
  fed to the caller, from any buffer, while the identifier's call is under way, it makes the
  completion callback of that call be called, without error, with the content of the reply.
\<close>

theorem reply_arrives:
  assumes rdy: "ready lib k v (r_cryptor s)" and rdy': "ready lib k v (r_cryptor r)"
    and block: "block_at (r_blocks s) i = Some c" "cb_id c = pid" "cb_endpoint c = caller"
    and buf: "buf_wf (cb_buffer c)" "buf_in (r_heap s) (cb_buffer c)" "content (r_heap s) (cb_buffer c) = Inr ys"
      "3 \<le> w_pre (win (cb_buffer c))"
    and remain: "1 < sint (cb_remain c)"
  shows "(\<exists>s'. finish_request lib cbs s caller pid i True c = Inr s'
      \<and> r_sent s' = r_sent s @ [(caller, packet lib (r_cryptor s) REPLY pid ys)]
      \<and> smap_find (<) (IdEndpoint caller pid) (r_replying s') = Some i)
    \<and> (\<forall>inb peer j d g. buf_wf inb \<and> buf_in (r_heap r) inb
        \<and> content (r_heap r) inb = Inr (packet lib (r_cryptor s) REPLY pid ys)
        \<and> smap_find (<) pid (r_requesting r) = Some j \<and> get_control r j = Inr d \<and> cb_onComplete d = Some g \<longrightarrow>
        (\<exists>h b. content h b = Inr ys
          \<and> feed lib cbs' r peer inb = rbind (onComplete cbs' g NoError (Some b) (Some d) (h, r_client r)) (\<lambda>(h', t).
              Inr (put_control (r\<lparr>r_heap := h', r_client := t\<rparr>) j (d\<lparr>cb_remain := 0\<rparr>)))))"
proof -
  from finish_request_spec[OF rdy block buf remain, of cbs]
  obtain s' where "finish_request lib cbs s caller pid i True c = Inr s'"
      "r_sent s' = r_sent s @ [(caller, packet lib (r_cryptor s) REPLY pid ys)]"
      "r_replying s' = smap_put (<) (IdEndpoint caller pid) i (r_replying s)"
    by blast
  moreover from this have "smap_find (<) (IdEndpoint caller pid) (r_replying s') = Some i"
    by (simp add: smap_find_put_same)
  moreover have "\<exists>h b. content h b = Inr ys
      \<and> feed lib cbs' r peer inb = rbind (onComplete cbs' g NoError (Some b) (Some d) (h, r_client r)) (\<lambda>(h', t).
          Inr (put_control (r\<lparr>r_heap := h', r_client := t\<rparr>) j (d\<lparr>cb_remain := 0\<rparr>)))"
    if "buf_wf inb" "buf_in (r_heap r) inb" "content (r_heap r) inb = Inr (packet lib (r_cryptor s) REPLY pid ys)"
      "smap_find (<) pid (r_requesting r) = Some j" "get_control r j = Inr d" "cb_onComplete d = Some g"
    for inb peer j d g
    using feed_reply_packet[OF rdy' rdy that] by blast
  ultimately show ?thesis by blast
qed

section \<open>A concrete call\<close>

text \<open>A caller with a content of two bytes in a buffer of 20, and a server that has received it.\<close>

definition call_heap :: heap where
  "call_heap = message_heap [0, 0, 0, 0, 0, 0, 0, 0, 0, 0, 104, 105, 0, 0, 0, 0, 0, 0, 0, 0]"

definition call_buffer :: buffer where
  "call_buffer = \<lparr>b_internal = Ptr 0 0, b_internalSize = 20, b_data = Ptr 0 10, b_size = 2\<rparr>"

type_synonym demo_rpc = "(nat, u8 \<times> u8, unit, nat) rpc"

definition demo_caller :: demo_rpc where
  "demo_caller = newRpc call_heap demo_cryptor 0 10"

definition received :: "bytes \<Rightarrow> demo_rpc" where
  "received bs = newRpc (message_heap bs) demo_cryptor 0 10"

definition demo_callbacks :: "(nat, unit, nat) callbacks" where
  "demo_callbacks = \<lparr>onRequest = Some (\<lambda>b c hs. Inr (True, c\<lparr>cb_onComplete := Some ()\<rparr>, hs)),
     onComplete = (\<lambda>g e b c (h, s). Inr (h, Suc s))\<rparr>"

lemma demo_ready: "ready feedback_lib demo_key demo_key demo_cryptor"
  using newCryptor_ready[OF demo_cipher_ok] demo_newCryptor by auto

lemma call_buffer_ok:
  "buf_wf call_buffer" "buf_in call_heap call_buffer" "content call_heap call_buffer = Inr [104, 105]"
  "w_pre (win call_buffer) = 10"
  by (simp_all add: call_buffer_def call_heap_def message_heap_def buf_wf_def win_ok_def win_def buf_in_def
      in_bounds_def content_def load_bytes_def slice_def)

lemma received_ok:
  assumes "length bs < 2147483648"
  shows "buf_wf (mkBuffer (Ptr 0 0) (of_nat (length bs)))"
    "buf_in (message_heap bs) (mkBuffer (Ptr 0 0) (of_nat (length bs)))"
    "content (message_heap bs) (mkBuffer (Ptr 0 0) (of_nat (length bs))) = Inr bs"
proof -
  have "unat (of_nat (length bs) :: u32) = length bs" using assms by (simp add: unat_of_nat)
  moreover from this have "uint (of_nat (length bs) :: u32) = int (length bs)" by (simp add: uint_nat del: of_nat_unat)
  ultimately show "buf_wf (mkBuffer (Ptr 0 0) (of_nat (length bs)))"
    "buf_in (message_heap bs) (mkBuffer (Ptr 0 0) (of_nat (length bs)))"
    "content (message_heap bs) (mkBuffer (Ptr 0 0) (of_nat (length bs))) = Inr bs"
    using assms by (simp_all add: mkBuffer_def message_heap_def buf_wf_def win_ok_def win_def buf_in_def
      in_bounds_def content_def load_bytes_def slice_def)
qed

theorem request_arrives_witness:
  "\<exists>h b c. content h b = Inr [104, 105] \<and> cb_id c = 1 \<and> cb_endpoint c = 5
    \<and> feed feedback_lib demo_callbacks (received (packet feedback_lib demo_cryptor REQUEST 1 [104, 105])) 5
        (mkBuffer (Ptr 0 0) (of_nat (length (packet feedback_lib demo_cryptor REQUEST 1 [104, 105]))))
      = finish_request feedback_lib demo_callbacks
          ((received (packet feedback_lib demo_cryptor REQUEST 1 [104, 105]))
            \<lparr>r_blocks := [Some (c\<lparr>cb_onComplete := Some ()\<rparr>)], r_heap := h\<rparr>)
          5 1 0 True (c\<lparr>cb_onComplete := Some ()\<rparr>)"
proof -
  let ?w = "packet feedback_lib demo_cryptor REQUEST 1 [104, 105]"
  have s: "ready feedback_lib demo_key demo_key (r_cryptor demo_caller)"
    "buf_in (r_heap demo_caller) call_buffer" "content (r_heap demo_caller) call_buffer = Inr [104, 105]"
    "1 < sint (ucast (r_retry demo_caller) :: i8)" "1 = fst (nextId demo_caller)" "3 \<le> w_pre (win call_buffer)"
    "r_cryptor demo_caller = demo_cryptor"
    using demo_ready call_buffer_ok by (simp_all add: demo_caller_def newRpc_def nextId_def)
  have r: "ready feedback_lib demo_key demo_key (r_cryptor (received ?w))" "r_heap (received ?w) = message_heap ?w"
      "r_blocks (received ?w) = []" "r_replying (received ?w) = []" "r_client (received ?w) = 0"
    using demo_ready by (simp_all add: received_def newRpc_def)
  have len: "length ?w < 2147483648" using length_packet[OF demo_ready] by simp
  note arrives = request_arrives[OF s(1) r(1) call_buffer_ok(1) s(2,3,6,4,5), THEN conjunct2, of demo_callbacks]
  show ?thesis
    using arrives[rule_format, of "mkBuffer (Ptr 0 0) (of_nat (length ?w))" 5] received_ok[OF len] s(7) r(2-5)
    by (fastforce simp: demo_callbacks_def received_def newRpc_def)
qed

definition demo_block :: "(nat, unit) control" where
  "demo_block = \<lparr>cb_remain = 10, cb_endpoint = 5, cb_id = 1, cb_buffer = call_buffer, cb_onComplete = Some ()\<rparr>"

text \<open>The caller while its call with identifier 1 is under way, its timer running.\<close>

definition demo_waiting :: "bytes \<Rightarrow> demo_rpc" where
  "demo_waiting bs = (newRpc (message_heap bs) demo_cryptor 0 10)\<lparr>r_nextId := 2, r_blocks := [Some demo_block],
     r_requesting := [(1, 0)], r_pending := [RequestTimer 0]\<rparr>"

theorem reply_arrives_witness:
  "\<exists>h b. content h b = Inr [104, 105]
    \<and> feed feedback_lib demo_callbacks (demo_waiting (packet feedback_lib demo_cryptor REPLY 1 [104, 105])) 6
        (mkBuffer (Ptr 0 0) (of_nat (length (packet feedback_lib demo_cryptor REPLY 1 [104, 105]))))
      = Inr (put_control ((demo_waiting (packet feedback_lib demo_cryptor REPLY 1 [104, 105]))
          \<lparr>r_heap := h, r_client := 1\<rparr>) 0 (demo_block\<lparr>cb_remain := 0\<rparr>))"
proof -
  let ?w = "packet feedback_lib demo_cryptor REPLY 1 [104, 105]"
  let ?s = "demo_caller\<lparr>r_blocks := [Some demo_block]\<rparr>" and ?r = "demo_waiting ?w"
  have s: "ready feedback_lib demo_key demo_key (r_cryptor ?s)" "block_at (r_blocks ?s) 0 = Some demo_block"
    "cb_id demo_block = 1" "cb_endpoint demo_block = 5" "buf_wf (cb_buffer demo_block)"
    "buf_in (r_heap ?s) (cb_buffer demo_block)" "content (r_heap ?s) (cb_buffer demo_block) = Inr [104, 105]"
    "3 \<le> w_pre (win (cb_buffer demo_block))" "1 < sint (cb_remain demo_block)" "r_cryptor ?s = demo_cryptor"
    using demo_ready call_buffer_ok by (simp_all add: demo_caller_def newRpc_def block_at_def demo_block_def)
  have r: "ready feedback_lib demo_key demo_key (r_cryptor ?r)" "r_heap ?r = message_heap ?w"
      "smap_find (<) 1 (r_requesting ?r) = Some 0" "get_control ?r 0 = Inr demo_block" "r_client ?r = 0"
      "cb_onComplete demo_block = Some ()"
    using demo_ready by (simp_all add: demo_waiting_def newRpc_def equivalent_def get_control_def demo_block_def)
  have len: "length ?w < 2147483648" using length_packet[OF demo_ready] by simp
  note arrives = reply_arrives[OF s(1) r(1) s(2-9), THEN conjunct2, of demo_callbacks]
  show ?thesis
    using arrives[rule_format, of "mkBuffer (Ptr 0 0) (of_nat (length ?w))" 0 demo_block "()" 6] received_ok[OF len]
      s(10) r(2-6)
    by (fastforce simp: demo_callbacks_def)
qed

end
