(* ===== verification/RpcRetry.thy ===== *)
theory RpcRetry
  imports RpcPackets
begin

text \<open>
  How often a packet is sent and when its callback is called: the counter \<open>remain\<close> of a
  control block through the events of its own request.
\<close>

section \<open>The counter\<close>

lemma sint_small8: "j < 128 \<Longrightarrow> sint (of_nat j :: i8) = int j"
  by (simp add: signed_of_nat signed_take_bit_int_eq_self)

fun rpc_run :: "'c cryptopp \<Rightarrow> ('ep::linorder, 'k, 's) callbacks \<Rightarrow> ('ep, 'c, 'k, 's) rpc \<Rightarrow>
    ('ep, 'k, 's) rpc_event list \<Rightarrow> ('ep, 'c, 'k, 's) rpc res" where
  "rpc_run lib cbs r [] = Inr r"
| "rpc_run lib cbs r (e # es) = rbind (rpc_step lib cbs r e) (\<lambda>r'. rpc_run lib cbs r' es)"

lemma rpc_run_append:
  "rpc_run lib cbs r (es @ fs) = rbind (rpc_run lib cbs r es) (\<lambda>r'. rpc_run lib cbs r' fs)"
  by (induction es arbitrary: r) (simp_all add: rbind_assoc)

text \<open>One round of a request without an answer: its send succeeds, and its timer ends.\<close>

fun rounds :: "nat \<Rightarrow> nat \<Rightarrow> ('ep, 'k, 's) rpc_event list" where
  "rounds i 0 = []"
| "rounds i (Suc n) = Complete (RequestSend i) NoError # Complete (RequestTimer i) NoError # rounds i n"

text \<open>A request at the end of the pending operations, whose packet is in its buffer.\<close>

definition in_flight :: "('ep, 'c, 'k, 's) rpc \<Rightarrow> nat \<Rightarrow> ('ep, 'k) control \<Rightarrow> bytes \<Rightarrow> task list \<Rightarrow> bool" where
  "in_flight r i c wire P \<longleftrightarrow> block_at (r_blocks r) i = Some c \<and> r_pending r = P @ [RequestSend i]
     \<and> RequestSend i \<notin> set P \<and> RequestTimer i \<notin> set P
     \<and> load_bytes (r_heap r) (b_data (cb_buffer c)) (unat (b_size (cb_buffer c))) = Inr wire"

lemma in_flight_get: "in_flight r i c wire P \<Longrightarrow> get_control r i = Inr c"
  by (auto simp: in_flight_def get_control_def block_at_def split: if_splits)

lemma send_done:
  assumes "in_flight r i c wire P"
  shows "rpc_step lib cbs r (Complete (RequestSend i) NoError) = Inr (r\<lparr>r_pending := P @ [RequestTimer i]\<rparr>)"
  using assms in_flight_get[OF assms]
  by (simp add: in_flight_def complete_task_def failed_def remove1_append)

lemma timer_again:
  assumes "in_flight r i c wire P" "cb_remain c = of_nat (Suc (Suc j))" "j < 126"
  shows "rpc_step lib cbs (r\<lparr>r_pending := P @ [RequestTimer i]\<rparr>) (Complete (RequestTimer i) NoError)
    = Inr ((put_control r i (c\<lparr>cb_remain := of_nat (Suc j)\<rparr>))
        \<lparr>r_sent := r_sent r @ [(cb_endpoint c, wire)]\<rparr>)"
  using assms in_flight_get[OF assms(1)] sint_small8[of "Suc j"]
  by (simp add: in_flight_def complete_task_def failed_def remove1_append onRequestTimer_def
      put_control_def async_send_def Let_def)

lemma timer_last:
  assumes "in_flight r i c wire P" "cb_remain c = 1" "cb_onComplete c = Some k"
  shows "rpc_step lib cbs (r\<lparr>r_pending := P @ [RequestTimer i]\<rparr>) (Complete (RequestTimer i) NoError)
    = rbind (onComplete cbs k TimedOut None (Some (c\<lparr>cb_remain := 0\<rparr>)) (r_heap r, r_client r)) (\<lambda>(h, s).
        Inr (r\<lparr>r_heap := h, r_client := s, r_blocks := (r_blocks r)[i := None],
               r_requesting := smap_erase (<) (cb_id c) (r_requesting r), r_pending := P\<rparr>))"
  using assms in_flight_get[OF assms(1)] block_at_length[of "r_blocks r" i c]
  by (simp add: in_flight_def complete_task_def failed_def remove1_append onRequestTimer_def
      put_control_def call_complete_def free_control_def Let_def rbind_assoc split_def)
    (cases r, simp)

text \<open>
  From a counter at \<open>j + 1\<close>: \<open>j\<close> more sends, one a round, and in one round more the only call
  of the callback.
\<close>

lemma rounds_time_out:
  assumes "in_flight r i c wire P" "cb_remain c = of_nat (Suc j)" "j < 127" "cb_onComplete c = Some k"
  shows "rpc_run lib cbs r (rounds i (Suc j))
    = rbind (onComplete cbs k TimedOut None (Some (c\<lparr>cb_remain := 0\<rparr>)) (r_heap r, r_client r)) (\<lambda>(h, s).
        Inr (r\<lparr>r_heap := h, r_client := s, r_blocks := (r_blocks r)[i := None],
               r_requesting := smap_erase (<) (cb_id c) (r_requesting r), r_pending := P,
               r_sent := r_sent r @ replicate j (cb_endpoint c, wire)\<rparr>))"
  using assms
proof (induction j arbitrary: r c)
  case 0
  then have "rpc_run lib cbs r (rounds i (Suc 0))
      = rpc_step lib cbs (r\<lparr>r_pending := P @ [RequestTimer i]\<rparr>) (Complete (RequestTimer i) NoError)"
    by (simp only: rounds.simps rpc_run.simps send_done[OF 0(1)] rbind_Inr rbind_return)
  also have "\<dots> = rbind (onComplete cbs k TimedOut None (Some (c\<lparr>cb_remain := 0\<rparr>)) (r_heap r, r_client r)) (\<lambda>(h, s).
        Inr (r\<lparr>r_heap := h, r_client := s, r_blocks := (r_blocks r)[i := None],
               r_requesting := smap_erase (<) (cb_id c) (r_requesting r), r_pending := P\<rparr>))"
    using 0 by (intro timer_last) simp_all
  finally show ?case by (cases r) (simp add: split_def)
next
  case (Suc j)
  let ?c = "c\<lparr>cb_remain := of_nat (Suc j)\<rparr>"
  let ?r = "(put_control r i ?c)\<lparr>r_sent := r_sent r @ [(cb_endpoint c, wire)]\<rparr>"
  have len: "i < length (r_blocks r)"
    using Suc.prems(1) by (auto simp: in_flight_def dest: block_at_length)
  have fl: "in_flight ?r i ?c wire P"
    using Suc.prems(1) len by (simp add: in_flight_def put_control_def block_at_simps)
  have "rpc_run lib cbs r (rounds i (Suc (Suc j))) = rpc_run lib cbs ?r (rounds i (Suc j))"
    using Suc.prems(3) by (simp only: rounds.simps rpc_run.simps send_done[OF Suc.prems(1)] rbind_Inr
        timer_again[OF Suc.prems(1,2)])
  also note Suc.IH[OF fl]
  finally show ?case
    using Suc.prems by (cases r) (simp add: put_control_def split_def)
qed

section \<open>A request without an answer\<close>

lemma request_expires:
  assumes wf: "rpc_wf r" and rdy: "ready lib k v (r_cryptor r)"
    and buf: "buf_wf buf" "buf_in (r_heap r) buf" "content (r_heap r) buf = Inr xs" "3 \<le> w_pre (win buf)"
    and retry: "ucast (r_retry r) = (of_nat m :: i8)" "2 \<le> m" "m \<le> 128"
  shows "\<exists>r1 wire c. send lib cbs r peer buf g = Inr r1 \<and> r_client r1 = r_client r
    \<and> cb_buffer c = moveFrontBoundary buf (- 3)
    \<and> (\<forall>q l. in_bounds (r_heap r1) q l = in_bounds (r_heap r) q l) \<and> (heap_wf (r_heap r) \<longrightarrow> heap_wf (r_heap r1)) \<and>
    rpc_run lib cbs r1 (rounds (length (r_blocks r)) (m - 1))
      = rbind (onComplete cbs g TimedOut None (Some c) (r_heap r1, r_client r)) (\<lambda>(h, t).
          Inr (r1\<lparr>r_heap := h, r_client := t, r_blocks := r_blocks r @ [None],
                  r_requesting := smap_erase (<) (cb_id c) (r_requesting r1), r_pending := r_pending r,
                  r_sent := r_sent r @ replicate (m - 1) (peer, wire)\<rparr>))"
proof -
  obtain pid r0 where pid: "nextId r = (pid, r0)" by (cases "nextId r")
  have r0: "r_client r0 = r_client r" using pid by (auto simp: nextId_def split: if_splits)
  obtain j where j: "m = Suc (Suc j)" "j < 127" using retry(2,3) by (cases m; cases "m - 1") auto
  have "(ucast (r_retry r) - 1 :: i8) = of_nat (Suc j)" using retry(1) j(1) by simp
  then have "0 < sint (ucast (r_retry r) - 1 :: i8)"
    using j(2) sint_small8[of "Suc j"] by (simp del: of_nat_Suc)
  note sent = send_first[OF rdy buf this pid, of cbs peer g]
  let ?i = "length (r_blocks r)" and ?wire = "packet lib (r_cryptor r) REQUEST pid xs"
  let ?b = "moveFrontBoundary buf (- 3)"
  let ?c = "\<lparr>cb_remain = ucast (r_retry r) - 1, cb_endpoint = peer, cb_id = pid, cb_buffer = ?b, cb_onComplete = Some g\<rparr>"
  from sent obtain h where h: "send lib cbs r peer buf g = Inr (r0\<lparr>r_heap := h, r_blocks := r_blocks r @ [Some ?c],
      r_requesting := smap_put (<) pid ?i (r_requesting r), r_pending := r_pending r @ [RequestSend ?i],
      r_sent := r_sent r @ [(peer, ?wire)]\<rparr>)" "content h ?b = Inr ?wire"
      "\<forall>q l. in_bounds h q l = in_bounds (r_heap r) q l" "heap_wf (r_heap r) \<longrightarrow> heap_wf h"
    by blast
  let ?r1 = "r0\<lparr>r_heap := h, r_blocks := r_blocks r @ [Some ?c],
      r_requesting := smap_put (<) pid ?i (r_requesting r), r_pending := r_pending r @ [RequestSend ?i],
      r_sent := r_sent r @ [(peer, ?wire)]\<rparr>"
  have fresh: "RequestSend ?i \<notin> set (r_pending r)" "RequestTimer ?i \<notin> set (r_pending r)"
    using wf_kind_new[OF wf] by (force simp: kind_None)+
  then have fl: "in_flight ?r1 ?i ?c ?wire (r_pending r)"
    using h(2) by (simp add: in_flight_def content_def block_at_simps)
  have rem: "cb_remain ?c = of_nat (Suc j)" using retry(1) j by simp
  from rounds_time_out[OF fl rem, of g lib cbs] j(2) have
    "rpc_run lib cbs ?r1 (rounds ?i (m - 1))
      = rbind (onComplete cbs g TimedOut None (Some (?c\<lparr>cb_remain := 0\<rparr>)) (r_heap ?r1, r_client r)) (\<lambda>(h, t).
          Inr (?r1\<lparr>r_heap := h, r_client := t, r_blocks := r_blocks r @ [None],
                  r_requesting := smap_erase (<) (cb_id (?c\<lparr>cb_remain := 0\<rparr>)) (r_requesting ?r1), r_pending := r_pending r,
                  r_sent := r_sent r @ replicate (m - 1) (peer, ?wire)\<rparr>))"
    by (simp add: j r0 replicate_append_same[symmetric] split_def)
  with h(1,3,4) r0 show ?thesis by (intro exI[of _ ?r1] exI[of _ ?wire] exI[of _ "?c\<lparr>cb_remain := 0\<rparr>"]) simp
qed

section \<open>Retry counts the counter cannot hold\<close>

lemma sint_neg8: "128 \<le> n \<Longrightarrow> n < 256 \<Longrightarrow> sint (of_nat n :: i8) = int n - 256"
proof -
  assume n: "128 \<le> n" "n < 256"
  have "(of_nat n :: i8) = word_of_int (int n - 256)"
    by (simp add: word_of_int_eq_iff take_bit_eq_mod)
  then show ?thesis using n by (simp only: sint_of_int8)
qed

text \<open>
  The retry count is a \<open>uint16_t\<close>, the counter an \<open>int8_t\<close>. With a count whose low byte is 0
  or above 128, \<open>send\<close> ends at once: nothing is sent, the callback is not called, and the
  control block is gone, so that the caller waits for ever.
\<close>

lemma send_dropped:
  assumes rdy: "ready lib k v (r_cryptor r)"
    and buf: "buf_wf buf" "buf_in (r_heap r) buf" "content (r_heap r) buf = Inr xs" "3 \<le> w_pre (win buf)"
    and retry: "unat (r_retry r) mod 256 = 0 \<or> 128 < unat (r_retry r) mod 256"
  shows "\<exists>r1. send lib cbs r peer buf g = Inr r1 \<and> r_sent r1 = r_sent r \<and> r_client r1 = r_client r
    \<and> r_pending r1 = r_pending r \<and> r_blocks r1 = r_blocks r @ [None]
    \<and> smap_find (<) (fst (nextId r)) (r_requesting r1) = None"
proof -
  obtain pid r0 where pid: "nextId r = (pid, r0)" by (cases "nextId r")
  have r0: "r_heap r0 = r_heap r" "r_cryptor r0 = r_cryptor r" "r_blocks r0 = r_blocks r" "r_client r0 = r_client r"
      "r_requesting r0 = r_requesting r" "r_pending r0 = r_pending r" "r_sent r0 = r_sent r" "r_retry r0 = r_retry r"
    using pid by (auto simp: nextId_def split: if_splits)
  let ?b = "moveFrontBoundary buf (- 3)" and ?n = "unat (r_retry r) mod 256"
  obtain x y z where b: "content (r_heap r0) ?b = Inr (x # y # z # xs)" "\<not> prefixSpace buf < 3"
    using room_for_header[OF buf] r0 by auto
  have "ready lib k v (r_cryptor r0)" using rdy r0 by simp
  from seal_packet_spec[OF this b(1), of REQUEST pid]
  obtain h where h: "seal_packet lib r0 ?b REQUEST pid = Inr (r0\<lparr>r_heap := h\<rparr>)" by blast
  have w: "ucast (r_retry r) = (of_nat ?n :: i8)"
    by (simp add: word_unat_eq_iff unsigned_ucast_eq take_bit_eq_mod unat_of_nat)
  have neg: "sint (ucast (r_retry r) - 1 :: i8) \<le> 0 \<and> (ucast (r_retry r) - 1 :: i8) \<noteq> 0"
  proof (cases "?n = 0")
    case True
    then have "(ucast (r_retry r) :: i8) = 0" using w by simp
    then show ?thesis by simp
  next
    case False
    then have n: "128 < ?n" "?n < 256" using retry by auto
    then have "sint (ucast (r_retry r) - 1 :: i8) = int ?n - 257"
      using sint_neg8[of ?n] w by (subst sint_pred8) simp_all
    then have "sint (ucast (r_retry r) - 1 :: i8) < 0" using n by simp
    then show ?thesis by force
  qed
  show ?thesis
    using b(2) h neg r0
    by (auto simp: send_def pid Let_def malloc_control_def onRequestTimer_def failed_def get_control_def
        put_control_def free_control_def find_ordered ordered.map_of_erase)
qed

lemma send_not_tried:
  assumes rdy: "ready lib k v (r_cryptor r)"
    and buf: "buf_wf buf" "buf_in (r_heap r) buf" "content (r_heap r) buf = Inr xs" "3 \<le> w_pre (win buf)"
    and retry: "unat (r_retry r) mod 256 = 1"
  shows "\<exists>r1 c. send lib cbs r peer buf g = rbind (onComplete cbs g TimedOut None (Some c) (r_heap r1, r_client r)) (\<lambda>(h, t).
      Inr (r1\<lparr>r_heap := h, r_client := t, r_blocks := r_blocks r @ [None],
              r_requesting := smap_erase (<) (cb_id c) (r_requesting r1)\<rparr>))
    \<and> r_sent r1 = r_sent r \<and> r_pending r1 = r_pending r"
proof -
  obtain pid r0 where pid: "nextId r = (pid, r0)" by (cases "nextId r")
  have r0: "r_heap r0 = r_heap r" "r_cryptor r0 = r_cryptor r" "r_blocks r0 = r_blocks r" "r_client r0 = r_client r"
      "r_requesting r0 = r_requesting r" "r_pending r0 = r_pending r" "r_sent r0 = r_sent r" "r_retry r0 = r_retry r"
    using pid by (auto simp: nextId_def split: if_splits)
  let ?b = "moveFrontBoundary buf (- 3)" and ?i = "length (r_blocks r)"
  let ?c = "\<lparr>cb_remain = 0, cb_endpoint = peer, cb_id = pid, cb_buffer = ?b, cb_onComplete = Some g\<rparr>"
  obtain x y z where b: "content (r_heap r0) ?b = Inr (x # y # z # xs)" "\<not> prefixSpace buf < 3"
    using room_for_header[OF buf] r0 by auto
  have "ready lib k v (r_cryptor r0)" using rdy r0 by simp
  from seal_packet_spec[OF this b(1), of REQUEST pid]
  obtain h where h: "seal_packet lib r0 ?b REQUEST pid = Inr (r0\<lparr>r_heap := h\<rparr>)" by blast
  have "ucast (r_retry r) = (of_nat 1 :: i8)"
    using retry by (simp add: word_unat_eq_iff unsigned_ucast_eq take_bit_eq_mod)
  then have w: "ucast (r_retry r) = (1 :: i8)" by simp
  let ?r1 = "r0\<lparr>r_heap := h, r_blocks := r_blocks r @ [Some ?c], r_requesting := smap_put (<) pid ?i (r_requesting r)\<rparr>"
  have "send lib cbs r peer buf g = rbind (onComplete cbs g TimedOut None (Some ?c) (r_heap ?r1, r_client r)) (\<lambda>(h, t).
      Inr (?r1\<lparr>r_heap := h, r_client := t, r_blocks := r_blocks r @ [None],
              r_requesting := smap_erase (<) (cb_id ?c) (r_requesting ?r1)\<rparr>))"
    using b(2) h r0 w
    by (simp add: send_def pid Let_def malloc_control_def onRequestTimer_def failed_def get_control_def
        put_control_def free_control_def call_complete_def rbind_assoc split_def) (cases r0, simp)
  then show ?thesis using r0 by (intro exI[of _ ?r1] exI[of _ ?c]) simp
qed

text \<open>
  C26. A request to which no answer comes, by its retry count, of which only the low byte
  \<open>m\<close> is looked at. From 2 to 128: it is sent \<open>m - 1\<close> times with the same datagram, when its
  sends succeed and its timers end without error; then its callback is called once, with
  \<open>timed_out\<close>, and its control block, its identifier and its timer are released. 1: it is
  not sent, and \<open>send\<close> itself calls the callback with \<open>timed_out\<close>. 0 or above 128: nothing
  is sent, the callback is not called, and the control block is gone, so that the caller
  waits for ever.
\<close>

theorem request_times_out:
  assumes wf: "rpc_wf r" and rdy: "ready lib k v (r_cryptor r)"
    and buf: "buf_wf buf" "buf_in (r_heap r) buf" "content (r_heap r) buf = Inr xs" "3 \<le> w_pre (win buf)"
    and m: "m = unat (r_retry r) mod 256"
  shows "if m = 0 \<or> 128 < m then
      \<exists>r1. send lib cbs r peer buf g = Inr r1 \<and> r_sent r1 = r_sent r \<and> r_client r1 = r_client r
        \<and> r_pending r1 = r_pending r \<and> r_blocks r1 = r_blocks r @ [None]
        \<and> smap_find (<) (fst (nextId r)) (r_requesting r1) = None
    else if m = 1 then
      \<exists>r1 c. send lib cbs r peer buf g = rbind (onComplete cbs g TimedOut None (Some c) (r_heap r1, r_client r)) (\<lambda>(h, t).
          Inr (r1\<lparr>r_heap := h, r_client := t, r_blocks := r_blocks r @ [None],
                  r_requesting := smap_erase (<) (cb_id c) (r_requesting r1)\<rparr>))
        \<and> r_sent r1 = r_sent r \<and> r_pending r1 = r_pending r
    else
      \<exists>r1 wire c. send lib cbs r peer buf g = Inr r1 \<and> r_client r1 = r_client r \<and>
        rpc_run lib cbs r1 (rounds (length (r_blocks r)) (m - 1))
          = rbind (onComplete cbs g TimedOut None (Some c) (r_heap r1, r_client r)) (\<lambda>(h, t).
              Inr (r1\<lparr>r_heap := h, r_client := t, r_blocks := r_blocks r @ [None],
                      r_requesting := smap_erase (<) (cb_id c) (r_requesting r1), r_pending := r_pending r,
                      r_sent := r_sent r @ replicate (m - 1) (peer, wire)\<rparr>))"
proof -
  consider "m = 0 \<or> 128 < m" | "m = 1" | "2 \<le> m" "m \<le> 128" by linarith
  then show ?thesis
  proof cases
    case 1
    with send_dropped[OF rdy buf, of cbs peer g] m show ?thesis by simp
  next
    case 2
    with send_not_tried[OF rdy buf, of cbs peer g] m show ?thesis by simp
  next
    case 3
    have "ucast (r_retry r) = (of_nat m :: i8)"
      by (simp add: m word_unat_eq_iff unsigned_ucast_eq take_bit_eq_mod unat_of_nat)
    with request_expires[OF wf rdy buf this 3, of cbs peer g] 3 show ?thesis by auto
  qed
qed

section \<open>After the reply\<close>

text \<open>
  C29. A reply and the end of its call. The callback is called once, without error, with the
  content. If a send of the request is pending then, its completion without error starts the
  timer and does nothing else; when the timer that is pending, then or before, ends without
  error, the call ends with it, without another datagram or call of a callback, and its
  block and identifier are free. (An operation that fails calls the callback again.)
\<close>

theorem reply_ends_call:
  assumes wf: "rpc_wf r" and call: "smap_find (<) pid (r_requesting r) = Some i"
    and run: "feed_dispatch lib cbs r peer REPLY pid b = Inr r1"
  shows "\<exists>d g. get_control r i = Inr d \<and> cb_onComplete d = Some g
    \<and> onComplete cbs g NoError (Some b) (Some d) (r_heap r, r_client r) = Inr (r_heap r1, r_client r1)
    \<and> (RequestSend i \<in> set (r_pending r) \<longrightarrow>
        rpc_step lib cbs r1 (Complete (RequestSend i) NoError)
          = Inr (r1\<lparr>r_pending := remove1 (RequestSend i) (r_pending r) @ [RequestTimer i]\<rparr>))
    \<and> (\<forall>pending. RequestTimer i \<in> set pending \<longrightarrow>
        rpc_step lib cbs (r1\<lparr>r_pending := pending\<rparr>) (Complete (RequestTimer i) NoError)
          = Inr (r1\<lparr>r_pending := remove1 (RequestTimer i) pending,
                    r_requesting := smap_erase (<) pid (r_requesting r), r_blocks := (r_blocks r)[i := None]\<rparr>))
    \<and> r_pending r1 = r_pending r"
proof -
  have inv: "blocks_inv (block_at (r_blocks r)) (map_of (r_replying r)) (map_of (r_requesting r)) (kind (r_pending r))"
    using wf by (simp add: rpc_wf_def)
  have "map_of (r_requesting r) pid = Some i" using call by (simp add: find_ordered)
  from blocks_invD(5)[OF inv this] obtain d where d: "block_at (r_blocks r) i = Some d" "cb_id d = pid"
    by blast
  then have get: "get_control r i = Inr d" "i < length (r_blocks r)"
    by (auto simp: get_control_def block_at_def split: if_splits)
  obtain g where g: "cb_onComplete d = Some g" using blocks_invD(2)[OF inv d(1)] by blast
  from run obtain h t where ht: "onComplete cbs g NoError (Some b) (Some d) (r_heap r, r_client r) = Inr (h, t)"
      "r1 = put_control (r\<lparr>r_heap := h, r_client := t\<rparr>) i (d\<lparr>cb_remain := 0\<rparr>)"
    by (auto simp: feed_dispatch_def command_defs call feed_reply_def get(1) call_complete_def g res_iffs)
  have "sint (- 1 :: i8) = - 1" by simp
  then show ?thesis
    using ht get g d(2)
    by (auto simp: put_control_def complete_task_def onRequestTimer_def get_control_def failed_def
        free_control_def Let_def)
qed

text \<open>
  Nothing marks a call as answered for \<open>feed\<close>. Until its pending operation has completed,
  another reply with its identifier, from any endpoint, calls the same callback again; so does a
  send or a timer that then fails, with its error.
\<close>

theorem answered_call_called_again:
  assumes wf: "rpc_wf r" and call: "smap_find (<) pid (r_requesting r) = Some i"
    and run: "feed_dispatch lib cbs r peer REPLY pid b = Inr r1"
  shows "\<exists>d g. get_control r i = Inr d \<and> cb_onComplete d = Some g
    \<and> (\<forall>peer' b'. feed_dispatch lib cbs r1 peer' REPLY pid b'
        = rbind (onComplete cbs g NoError (Some b') (Some (d\<lparr>cb_remain := 0\<rparr>)) (r_heap r1, r_client r1)) (\<lambda>(h, t).
            Inr (r1\<lparr>r_heap := h, r_client := t\<rparr>)))
    \<and> (\<forall>t err. t \<in> set (r_pending r1) \<and> task_block t = i \<and> failed err \<longrightarrow>
        rpc_step lib cbs r1 (Complete t err)
          = rbind (onComplete cbs g err None (Some (d\<lparr>cb_remain := - 1\<rparr>)) (r_heap r1, r_client r1)) (\<lambda>(h, s).
              Inr (r1\<lparr>r_pending := remove1 t (r_pending r), r_heap := h, r_client := s,
                      r_requesting := smap_erase (<) pid (r_requesting r), r_blocks := (r_blocks r)[i := None]\<rparr>)))"
proof -
  have inv: "blocks_inv (block_at (r_blocks r)) (map_of (r_replying r)) (map_of (r_requesting r)) (kind (r_pending r))"
    and dist: "distinct (map task_block (r_pending r))"
    using wf by (simp_all add: rpc_wf_def)
  have "map_of (r_requesting r) pid = Some i" using call by (simp add: find_ordered)
  from blocks_invD(5)[OF inv this] obtain d where d: "block_at (r_blocks r) i = Some d" "cb_id d = pid"
    and k: "kind (r_pending r) i = Some False"
    by blast
  then have get: "get_control r i = Inr d" "i < length (r_blocks r)"
    by (auto simp: get_control_def block_at_def split: if_splits)
  obtain g where g: "cb_onComplete d = Some g" using blocks_invD(2)[OF inv d(1)] by blast
  from run obtain h t where ht: "r1 = put_control (r\<lparr>r_heap := h, r_client := t\<rparr>) i (d\<lparr>cb_remain := 0\<rparr>)"
    by (auto simp: feed_dispatch_def command_defs call feed_reply_def get(1) call_complete_def g res_iffs)
  have again: "feed_dispatch lib cbs r1 peer' REPLY pid b'
        = rbind (onComplete cbs g NoError (Some b') (Some (d\<lparr>cb_remain := 0\<rparr>)) (r_heap r1, r_client r1)) (\<lambda>(h, t).
            Inr (r1\<lparr>r_heap := h, r_client := t\<rparr>))" for peer' b'
    using call get g
    by (simp add: ht feed_dispatch_def command_defs feed_reply_def get_control_def put_control_def call_complete_def
        rbind_assoc split_def) (cases r, simp)
  have fails: "rpc_step lib cbs r1 (Complete t err)
        = rbind (onComplete cbs g err None (Some (d\<lparr>cb_remain := - 1\<rparr>)) (r_heap r1, r_client r1)) (\<lambda>(h, s).
            Inr (r1\<lparr>r_pending := remove1 t (r_pending r), r_heap := h, r_client := s,
                    r_requesting := smap_erase (<) pid (r_requesting r), r_blocks := (r_blocks r)[i := None]\<rparr>))"
    if t: "t \<in> set (r_pending r1)" "task_block t = i" and err: "failed err" for t err
  proof -
    have "\<not> is_reply t"
      using t k kind_iff[OF dist, of i "is_reply t"] by (auto simp: ht put_control_def)
    then have "t = RequestSend i \<or> t = RequestTimer i" using t(2) by (cases t) auto
    then show ?thesis
      using t(1) err get g d(2)
      by (auto simp: ht put_control_def complete_task_def onRequestTimer_def get_control_def call_complete_def
          free_control_def Let_def rbind_assoc split_def)
  qed
  show ?thesis using get(1) g again fails by blast
qed

section \<open>Repeated requests\<close>

text \<open>
  A request is handled once while its reply is being sent: the same identifier from the same
  endpoint again, whatever its content, changes nothing but the bytes of the buffer it came in.
\<close>

theorem duplicate_request_ignored:
  assumes "ready lib k v (r_cryptor r)" "ready lib k v c" "buf_wf inb" "buf_in (r_heap r) inb"
    and "content (r_heap r) inb = Inr (packet lib c REQUEST pid xs)"
    and "smap_find (<) (IdEndpoint peer pid) (r_replying r) = Some i"
  shows "\<exists>h. feed lib cbs r peer inb = Inr (r\<lparr>r_heap := h\<rparr>)
    \<and> (\<forall>q l. disjoint_ranges (b_data inb) (unat (b_size inb)) q l \<longrightarrow> load_bytes h q l = load_bytes (r_heap r) q l)"
proof -
  obtain h where "feed lib cbs r peer inb
      = feed_dispatch lib cbs (r\<lparr>r_heap := h\<rparr>) peer REQUEST pid (moveFrontBoundary inb 3)"
      "\<forall>q l. disjoint_ranges (b_data inb) (unat (b_size inb)) q l \<longrightarrow> load_bytes h q l = load_bytes (r_heap r) q l"
    using feed_packet[OF assms(1-5), of cbs peer] by blast
  then show ?thesis using assms(6) by (intro exI[of _ h]) (simp add: feed_dispatch_def command_defs)
qed

section \<open>Identifiers\<close>

fun take_ids :: "nat \<Rightarrow> ('ep, 'c, 'k, 's) rpc \<Rightarrow> u16 list" where
  "take_ids 0 r = []"
| "take_ids (Suc n) r = (let (pid, r') = nextId r in pid # take_ids n r')"

lemma nextId_value:
  assumes "0 < unat (r_nextId r)"
  shows "fst (nextId r) = r_nextId r"
    and "unat (r_nextId (snd (nextId r))) = unat (r_nextId r) mod 65535 + 1"
proof -
  show "fst (nextId r) = r_nextId r" by (simp add: nextId_def)
  show "unat (r_nextId (snd (nextId r))) = unat (r_nextId r) mod 65535 + 1"
  proof (cases "r_nextId r = 0xffff")
    case True
    then show ?thesis by (simp add: nextId_def)
  next
    case False
    then have "unat (r_nextId r) \<noteq> unat (0xffff :: u16)" by (metis word_unat_eq_iff)
    then have "unat (r_nextId r) \<noteq> 65535" by simp
    then have lt: "unat (r_nextId r) < 65535" using unat_bound16[of "r_nextId r"] by linarith
    then have "unat (r_nextId r + 1) = unat (r_nextId r) + 1"
      by (subst unat_add_lt) simp_all
    with False lt show ?thesis by (simp add: nextId_def)
  qed
qed

lemma take_ids_nth:
  "0 < unat (r_nextId r) \<Longrightarrow> length (take_ids n r) = n
    \<and> (\<forall>i<n. unat (take_ids n r ! i) = (unat (r_nextId r) - 1 + i) mod 65535 + 1)"
proof (induction n arbitrary: r)
  case (Suc n)
  let ?r = "snd (nextId r)" and ?u = "unat (r_nextId r)"
  have u: "unat (r_nextId ?r) = ?u mod 65535 + 1" "fst (nextId r) = r_nextId r"
    using nextId_value[OF Suc.prems] by auto
  have ids: "take_ids (Suc n) r = r_nextId r # take_ids n ?r"
    using u(2) by (simp add: Let_def split_beta)
  have IH: "length (take_ids n ?r) = n" "\<forall>i<n. unat (take_ids n ?r ! i) = (?u mod 65535 + i) mod 65535 + 1"
    using Suc.IH[of ?r] u(1) by auto
  have "unat (take_ids (Suc n) r ! i) = (?u - 1 + i) mod 65535 + 1" if "i < Suc n" for i
  proof (cases i)
    case 0
    have "?u - 1 < 65535" using unat_bound16[of "r_nextId r"] Suc.prems by linarith
    then show ?thesis using 0 Suc.prems by (simp add: ids del: take_ids.simps)
  next
    case (Suc j)
    then have "?u - 1 + i = ?u + j" using Suc.prems \<open>0 < ?u\<close> by simp
    then show ?thesis using IH(2) Suc that by (simp add: ids mod_add_left_eq del: take_ids.simps)
  qed
  with IH(1) ids show ?case by simp
qed simp

lemma mod_shift_inj: "(a + i) mod m = (a + j) mod m \<Longrightarrow> i < m \<Longrightarrow> j < m \<Longrightarrow> i = j" for a :: nat
proof (induction i j rule: linorder_wlog)
  case (le i j)
  then have "m dvd (a + j) - (a + i)" by (metis add_le_cancel_left mod_eq_dvd_iff_nat)
  then have "m dvd j - i" by simp
  with le show ?case by (metis diff_is_0_eq dvd_imp_le gr0I le_antisym less_imp_diff_less not_le)
qed simp

text \<open>
  Identifiers do not repeat soon: any 65535 successive calls get different identifiers, and
  none gets 0, although the counter wraps.
\<close>

theorem ids_distinct:
  assumes "r_nextId r \<noteq> 0" "n \<le> 65535"
  shows "distinct (take_ids n r) \<and> 0 \<notin> set (take_ids n r) \<and> length (take_ids n r) = n"
proof -
  have pos: "0 < unat (r_nextId r)" using assms(1) by (simp add: unat_gt_0)
  note ids = take_ids_nth[OF pos, of n]
  let ?f = "\<lambda>i. (unat (r_nextId r) - 1 + i) mod 65535"
  have "i = j" if "i < n" "j < n" "take_ids n r ! i = take_ids n r ! j" for i j
  proof -
    have "?f i = ?f j" using ids that by (metis add_right_cancel)
    then show ?thesis using that assms(2) by (intro mod_shift_inj[of _ i 65535 j]) simp_all
  qed
  then have "distinct (take_ids n r)" using ids by (auto simp: distinct_conv_nth)
  moreover have "0 \<notin> set (take_ids n r)"
  proof
    assume "0 \<in> set (take_ids n r)"
    then obtain i where "i < n" "take_ids n r ! i = 0" using ids by (auto simp: in_set_conv_nth)
    with ids have "0 = ?f i + 1" by (metis unsigned_0)
    then show False by simp
  qed
  ultimately show ?thesis using ids by blast
qed

section \<open>Concrete runs\<close>

lemma demo_caller_wf: "rpc_wf demo_caller"
  by (simp add: demo_caller_def newRpc_wf)

lemma demo_caller_ready:
  "ready feedback_lib demo_key demo_key (r_cryptor demo_caller)" "buf_in (r_heap demo_caller) call_buffer"
  "content (r_heap demo_caller) call_buffer = Inr [104, 105]" "3 \<le> w_pre (win call_buffer)"
  "r_client demo_caller = 0" "r_blocks demo_caller = []" "r_retry demo_caller = 10" "r_sent demo_caller = []"
  using demo_ready call_buffer_ok by (simp_all add: demo_caller_def newRpc_def)

theorem request_times_out_witness:
  "(\<exists>r1 r2 wire. send feedback_lib demo_callbacks demo_caller 5 call_buffer () = Inr r1
      \<and> rpc_run feedback_lib demo_callbacks r1 (rounds 0 9) = Inr r2
      \<and> r_sent r2 = replicate 9 (5, wire) \<and> r_client r2 = 1 \<and> r_blocks r2 = [None])
    \<and> (\<exists>r1. send feedback_lib demo_callbacks (demo_caller\<lparr>r_retry := 256\<rparr>) 5 call_buffer () = Inr r1
      \<and> r_sent r1 = [] \<and> r_client r1 = 0 \<and> r_blocks r1 = [None])"
proof
  have "10 = unat (r_retry demo_caller) mod 256" by (simp add: demo_caller_ready)
  from request_times_out[OF demo_caller_wf demo_caller_ready(1) call_buffer_ok(1) demo_caller_ready(2-4) this,
      of demo_callbacks 5 "()"]
  obtain r1 wire c where "send feedback_lib demo_callbacks demo_caller 5 call_buffer () = Inr r1"
    "rpc_run feedback_lib demo_callbacks r1 (rounds 0 9)
      = rbind (onComplete demo_callbacks () TimedOut None (Some c) (r_heap r1, 0)) (\<lambda>(h, t).
          Inr (r1\<lparr>r_heap := h, r_client := t, r_blocks := [None],
                  r_requesting := smap_erase (<) (cb_id c) (r_requesting r1), r_pending := r_pending demo_caller,
                  r_sent := replicate 9 (5, wire)\<rparr>))"
    by (auto simp: demo_caller_ready)
  then show "\<exists>r1 r2 wire. send feedback_lib demo_callbacks demo_caller 5 call_buffer () = Inr r1
      \<and> rpc_run feedback_lib demo_callbacks r1 (rounds 0 9) = Inr r2
      \<and> r_sent r2 = replicate 9 (5, wire) \<and> r_client r2 = 1 \<and> r_blocks r2 = [None]"
    by (auto simp: demo_callbacks_def)
next
  let ?r = "demo_caller\<lparr>r_retry := 256\<rparr>"
  have "rpc_wf ?r" using demo_caller_wf by (simp add: rpc_wf_def)
  moreover have "ready feedback_lib demo_key demo_key (r_cryptor ?r)" "buf_in (r_heap ?r) call_buffer"
    "content (r_heap ?r) call_buffer = Inr [104, 105]" "0 = unat (r_retry ?r) mod 256"
    using demo_caller_ready by simp_all
  ultimately show "\<exists>r1. send feedback_lib demo_callbacks ?r 5 call_buffer () = Inr r1
      \<and> r_sent r1 = [] \<and> r_client r1 = 0 \<and> r_blocks r1 = [None]"
    using request_times_out[of ?r feedback_lib demo_key demo_key call_buffer "[104, 105]" 0 demo_callbacks 5 "()"]
      call_buffer_ok(1) demo_caller_ready(4-8) by auto
qed

lemma demo_waiting_wf: "rpc_wf (demo_waiting bs)"
  by (auto simp: demo_waiting_def newRpc_def rpc_wf_def smap_wf_def blocks_inv_def block_at_def kind_def demo_block_def)

lemma demo_waiting_call: "smap_find (<) 1 (r_requesting (demo_waiting bs)) = Some 0"
  by (simp add: demo_waiting_def equivalent_def)

definition demo_answered :: demo_rpc where
  "demo_answered = (demo_waiting [])\<lparr>r_client := 1, r_blocks := [Some (demo_block\<lparr>cb_remain := 0\<rparr>)]\<rparr>"

lemma demo_answer:
  "feed_dispatch feedback_lib demo_callbacks (demo_waiting []) 6 REPLY 1 call_buffer = Inr demo_answered"
  by (simp add: feed_dispatch_def command_defs demo_waiting_call feed_reply_def)
    (simp add: demo_answered_def demo_waiting_def newRpc_def get_control_def put_control_def call_complete_def
      demo_callbacks_def demo_block_def)

theorem reply_ends_call_witness:
  "\<exists>r. rpc_step feedback_lib demo_callbacks demo_answered (Complete (RequestTimer 0) NoError) = Inr r
    \<and> r_client r = 1 \<and> r_blocks r = [None] \<and> r_sent r = []"
proof -
  have "RequestTimer 0 \<in> set [RequestTimer 0]" by simp
  with reply_ends_call[OF demo_waiting_wf demo_waiting_call demo_answer]
  have "rpc_step feedback_lib demo_callbacks (demo_answered\<lparr>r_pending := [RequestTimer 0]\<rparr>) (Complete (RequestTimer 0) NoError)
    = Inr (demo_answered\<lparr>r_pending := remove1 (RequestTimer 0) [RequestTimer 0],
        r_requesting := smap_erase (<) 1 (r_requesting (demo_waiting [])),
        r_blocks := (r_blocks (demo_waiting []))[0 := None]\<rparr>)" by blast
  moreover have "demo_answered\<lparr>r_pending := [RequestTimer 0]\<rparr> = demo_answered"
    by (simp add: demo_answered_def demo_waiting_def)
  ultimately show ?thesis by (simp add: demo_answered_def demo_waiting_def newRpc_def)
qed

theorem answered_call_called_again_witness:
  "\<exists>r. feed_dispatch feedback_lib demo_callbacks demo_answered 6 REPLY 1 call_buffer = Inr r \<and> r_client r = 2"
  using answered_call_called_again[OF demo_waiting_wf demo_waiting_call demo_answer]
  by (auto simp: demo_callbacks_def demo_answered_def)

theorem duplicate_request_ignored_witness:
  "\<exists>h r. feed feedback_lib demo_callbacks
      ((received (packet feedback_lib demo_cryptor REQUEST 1 [104, 105]))\<lparr>r_replying := [(IdEndpoint 5 1, 0)]\<rparr>) 5
      (mkBuffer (Ptr 0 0) (of_nat (length (packet feedback_lib demo_cryptor REQUEST 1 [104, 105])))) = Inr r
    \<and> r_heap r = h \<and> r_client r = 0 \<and> r_sent r = []"
proof -
  let ?w = "packet feedback_lib demo_cryptor REQUEST 1 [104, 105]"
  let ?r = "(received ?w)\<lparr>r_replying := [(IdEndpoint 5 1, 0)]\<rparr>"
  have len: "length ?w < 2147483648" using length_packet[OF demo_ready] by simp
  have r: "ready feedback_lib demo_key demo_key (r_cryptor ?r)" "r_heap ?r = message_heap ?w"
      "smap_find (<) (IdEndpoint 5 1) (r_replying ?r) = Some 0" "r_client ?r = 0" "r_sent ?r = []"
    using demo_ready by (simp_all add: received_def newRpc_def equivalent_def)
  from duplicate_request_ignored[OF r(1) demo_ready, of _ 1 "[104, 105]" 5 0 demo_callbacks] received_ok[OF len] r(2-5)
  show ?thesis by fastforce
qed

theorem ids_distinct_witness: "distinct (take_ids 3 demo_caller)"
  using ids_distinct[of demo_caller 3] by (simp add: demo_caller_def newRpc_def)

end
