(* ===== verification/RpcProtocol.thy ===== *)
theory RpcProtocol
  imports RpcRetry
begin

text \<open>
  \<^verbatim>\<open>libtun/include/libtun/transmission/RpcProtocol.h\<close>: the three calls of the tunnel, connect, ping
  and disconnect, as JSON documents in the content of \<open>Rpc\<close> packets. The JSON library
  (nlohmann) is not part of the repository; the model takes the operations the code uses of it
  as a parameter.
\<close>

section \<open>The JSON library\<close>

text \<open>
  \<open>j_parse\<close> is \<open>json::parse(s, nullptr, false)\<close>, which does not throw; \<open>j_dump\<close> is \<open>dump()\<close>,
  which throws (\<open>None\<close>) on a string that is not UTF-8; \<open>j_field\<close> is the \<open>operator[]\<close> of an
  object, null for a key it does not have; \<open>j_number\<close> and \<open>j_string\<close> are \<open>get\<close> and the implicit
  conversions, which throw on a value of another kind; \<open>j_object\<close> is an object literal.
\<close>

record 'j json_lib =
  j_parse :: "bytes \<Rightarrow> 'j"
  j_dump :: "'j \<Rightarrow> bytes option"
  j_is_object :: "'j \<Rightarrow> bool"
  j_is_integer :: "'j \<Rightarrow> bool"
  j_is_string :: "'j \<Rightarrow> bool"
  j_field :: "'j \<Rightarrow> string \<Rightarrow> 'j"
  j_number :: "'j \<Rightarrow> u8 option"
  j_string :: "'j \<Rightarrow> bytes option"
  j_of_number :: "u8 \<Rightarrow> 'j"
  j_of_string :: "bytes \<Rightarrow> 'j"
  j_object :: "(string \<times> 'j) list \<Rightarrow> 'j"

definition thrown :: "'a option \<Rightarrow> 'a res" where
  "thrown x = (case x of None \<Rightarrow> Inl LibraryException | Some y \<Rightarrow> Inr y)"

section \<open>State and callbacks\<close>

text \<open>
  The callers' callbacks are values of a type \<open>'u\<close>. The lambda of each call is one of three
  cases (and \<open>PlainReply\<close> for a direct use of \<open>sendJson\<close>); that it is called is recorded in
  \<open>p_answers\<close>, with its arguments.
\<close>

datatype 'u reply_handler = PlainReply 'u | ConnectReply 'u | PingReply 'u | DisconnectReply 'u

datatype ('u, 'j) answer =
    PlainAnswer 'u 'j
  | ConnectAnswer 'u u8 bytes bytes
  | PingAnswer 'u u8
  | DisconnectAnswer 'u u8

text \<open>The completion callbacks: of a reply, set by the request handler, and of a request.\<close>

datatype 'u completion = ReplyDone | RequestDone "'u reply_handler"

record ('u, 'j, 't) protocol =
  p_pool :: pool
  p_answers :: "('u, 'j) answer list"
  p_owner :: 't

text \<open>\<open>onConnect\<close>, \<open>onPing\<close> and \<open>onDisconnect\<close>, members the owner may leave empty.\<close>

record ('ep, 't) handlers =
  onConnect :: "('ep \<Rightarrow> bytes \<Rightarrow> bytes \<Rightarrow> 't \<Rightarrow> (u8 \<times> bytes \<times> bytes) \<times> 't) option"
  onPing :: "('ep \<Rightarrow> 't \<Rightarrow> u8 \<times> 't) option"
  onDisconnect :: "('ep \<Rightarrow> 't \<Rightarrow> u8 \<times> 't) option"

section \<open>Calls\<close>

text \<open>\<open>BufferPool<1600>\<close>; both directions leave 10 bytes for the headers in front.\<close>

definition json_buffer :: "'j json_lib \<Rightarrow> heap \<Rightarrow> pool \<Rightarrow> 'j \<Rightarrow> (heap \<times> pool \<times> buffer) res" where
  "json_buffer J h p payload =
     rbind (pool_alloc 1600 h p) (\<lambda>(h1, p1, b).
     rbind (thrown (j_dump J payload)) (\<lambda>s.
     rbind (writeStringToBack h1 (setSize (moveFrontBoundary b 10) 0) s) (\<lambda>(h2, b2, written).
       Inr (h2, p1, b2))))"

text \<open>The caller's lambda, on the reply document.\<close>

definition on_reply :: "'j json_lib \<Rightarrow> 'u reply_handler \<Rightarrow> 'j \<Rightarrow> ('u, 'j) answer res" where
  "on_reply J f reply =
     (case f of
        PlainReply u \<Rightarrow> Inr (PlainAnswer u reply)
      | ConnectReply u \<Rightarrow>
          if j_is_string J (j_field J reply ''key'') \<and> j_is_string J (j_field J reply ''iv'') then
            rbind (thrown (j_number J (j_field J reply ''error''))) (\<lambda>e.
            rbind (thrown (j_string J (j_field J reply ''key''))) (\<lambda>key.
            rbind (thrown (j_string J (j_field J reply ''iv''))) (\<lambda>iv.
              Inr (ConnectAnswer u e key iv))))
          else Inr (ConnectAnswer u INVALID_INPUT [] [])
      | PingReply u \<Rightarrow>
          rbind (thrown (j_number J (j_field J reply ''error''))) (\<lambda>e. Inr (PingAnswer u e))
      | DisconnectReply u \<Rightarrow>
          rbind (thrown (j_number J (j_field J reply ''error''))) (\<lambda>e. Inr (DisconnectAnswer u e)))"

definition network_issue :: "'j json_lib \<Rightarrow> 'j" where
  "network_issue J = j_object J [(''error'', j_of_number J NETWORK_ISSUE)]"

text \<open>The document the caller gets: a network error unless there is a reply with an error code.\<close>

definition reply_document :: "'j json_lib \<Rightarrow> heap \<Rightarrow> error_code \<Rightarrow> buffer option \<Rightarrow> 'j res" where
  "reply_document J h err reply_buf =
     (if failed err then Inr (network_issue J)
      else case reply_buf of
        None \<Rightarrow> Inl Uninitialized
      | Some b \<Rightarrow>
          rbind (readStringFromFront h b) (\<lambda>(b', str).
            let reply = j_parse J str in
            Inr (if \<not> j_is_object J reply \<or> \<not> j_is_integer J (j_field J reply ''error'')
                 then network_issue J else reply)))"

text \<open>
  The completion lambda of \<open>sendJson\<close>: it frees the buffer of the block, reads the document of
  a reply and hands it, or a network error, to the caller's lambda.
\<close>

definition request_done :: "'j json_lib \<Rightarrow> 'u reply_handler \<Rightarrow> error_code \<Rightarrow> buffer option \<Rightarrow>
    ('ep, 'u completion) control option \<Rightarrow> heap \<times> ('u, 'j, 't) protocol \<Rightarrow>
    (heap \<times> ('u, 'j, 't) protocol) res" where
  "request_done J f err reply_buf ctl hs =
     (case ctl of
        None \<Rightarrow> Inl NullPointer
      | Some c \<Rightarrow>
          let (h, s) = hs; s1 = s\<lparr>p_pool := pool_free (p_pool s) (cb_buffer c)\<rparr> in
          rbind (reply_document J h err reply_buf) (\<lambda>reply.
          rbind (on_reply J f reply) (\<lambda>a. Inr (h, s1\<lparr>p_answers := p_answers s1 @ [a]\<rparr>))))"

text \<open>\<open>_requestHandler\<close>.\<close>

definition dispatch_request :: "'j json_lib \<Rightarrow> ('ep, 't) handlers \<Rightarrow> 'ep \<Rightarrow> 'j \<Rightarrow> 't \<Rightarrow> ('j option \<times> 't) res" where
  "dispatch_request J H peer payload t =
     rbind (thrown (j_number J (j_field J payload ''type''))) (\<lambda>rpcType.
       if rpcType = CONNECT then
         rbind (thrown (j_string J (j_field J payload ''username''))) (\<lambda>user.
         rbind (thrown (j_string J (j_field J payload ''password''))) (\<lambda>pass.
           case onConnect H of
             None \<Rightarrow> Inl BadFunctionCall
           | Some f \<Rightarrow>
               let ((err, key, iv), t') = f peer user pass t
               in Inr (Some (j_object J [(''error'', j_of_number J err), (''key'', j_of_string J key),
                                         (''iv'', j_of_string J iv)]), t')))
       else if rpcType = DISCONNECT then
         (case onDisconnect H of
            None \<Rightarrow> Inl BadFunctionCall
          | Some f \<Rightarrow> let (err, t') = f peer t in Inr (Some (j_object J [(''error'', j_of_number J err)]), t'))
       else if rpcType = PING then
         (case onPing H of
            None \<Rightarrow> Inl BadFunctionCall
          | Some f \<Rightarrow> let (err, t') = f peer t in Inr (Some (j_object J [(''error'', j_of_number J err)]), t'))
       else Inr (None, t))"

definition requestHandler :: "'j json_lib \<Rightarrow> ('ep, 't) handlers \<Rightarrow> buffer \<Rightarrow> ('ep, 'u completion) control \<Rightarrow>
    heap \<times> ('u, 'j, 't) protocol \<Rightarrow> (bool \<times> ('ep, 'u completion) control \<times> heap \<times> ('u, 'j, 't) protocol) res" where
  "requestHandler J H buf c hs =
     (let (h, s) = hs in
      rbind (readStringFromFront h buf) (\<lambda>(buf', str).
        let payload = j_parse J str in
        if \<not> j_is_object J payload \<or> \<not> j_is_integer J (j_field J payload ''type'') then Inr (False, c, h, s)
        else
          rbind (dispatch_request J H (cb_endpoint c) payload (p_owner s)) (\<lambda>(reply, t).
            case reply of
              None \<Rightarrow> Inr (False, c, h, s\<lparr>p_owner := t\<rparr>)
            | Some doc \<Rightarrow>
                rbind (json_buffer J h (p_pool s) doc) (\<lambda>(h', p, b).
                  Inr (True, c\<lparr>cb_buffer := b, cb_onComplete := Some ReplyDone\<rparr>, h',
                       s\<lparr>p_pool := p, p_owner := t\<rparr>)))))"

text \<open>The completion lambda of a reply, which frees the buffer it is given.\<close>

definition reply_done :: "buffer option \<Rightarrow> heap \<times> ('u, 'j, 't) protocol \<Rightarrow> (heap \<times> ('u, 'j, 't) protocol) res" where
  "reply_done buf hs =
     (case buf of
        None \<Rightarrow> Inl Uninitialized
      | Some b \<Rightarrow> let (h, s) = hs in Inr (h, s\<lparr>p_pool := pool_free (p_pool s) b\<rparr>))"

definition protocol_callbacks :: "'j json_lib \<Rightarrow> ('ep, 't) handlers \<Rightarrow>
    ('ep, 'u completion, ('u, 'j, 't) protocol) callbacks" where
  "protocol_callbacks J H =
     \<lparr>onRequest = Some (requestHandler J H),
      onComplete = (\<lambda>k err b ctl hs. case k of
          ReplyDone \<Rightarrow> reply_done b hs
        | RequestDone f \<Rightarrow> request_done J f err b ctl hs)\<rparr>"

type_synonym ('ep, 'c, 'u, 'j, 't) protocol_rpc = "('ep, 'c, 'u completion, ('u, 'j, 't) protocol) rpc"

definition sendJson :: "'c cryptopp \<Rightarrow> 'j json_lib \<Rightarrow> ('ep, 't) handlers \<Rightarrow> ('ep, 'c, 'u, 'j, 't) protocol_rpc \<Rightarrow>
    'ep \<Rightarrow> 'j \<Rightarrow> 'u reply_handler \<Rightarrow> ('ep, 'c, 'u, 'j, 't) protocol_rpc res" where
  "sendJson lib J H r peer payload f =
     rbind (json_buffer J (r_heap r) (p_pool (r_client r)) payload) (\<lambda>(h, p, b).
       send lib (protocol_callbacks J H) (r\<lparr>r_heap := h, r_client := (r_client r)\<lparr>p_pool := p\<rparr>\<rparr>)
         peer b (RequestDone f))"

definition connect :: "'c cryptopp \<Rightarrow> 'j json_lib \<Rightarrow> ('ep, 't) handlers \<Rightarrow> ('ep, 'c, 'u, 'j, 't) protocol_rpc \<Rightarrow>
    'ep \<Rightarrow> bytes \<Rightarrow> bytes \<Rightarrow> 'u \<Rightarrow> ('ep, 'c, 'u, 'j, 't) protocol_rpc res" where
  "connect lib J H r peer user pass u =
     sendJson lib J H r peer
       (j_object J [(''type'', j_of_number J CONNECT), (''username'', j_of_string J user),
                    (''password'', j_of_string J pass)]) (ConnectReply u)"

definition ping :: "'c cryptopp \<Rightarrow> 'j json_lib \<Rightarrow> ('ep, 't) handlers \<Rightarrow> ('ep, 'c, 'u, 'j, 't) protocol_rpc \<Rightarrow>
    'ep \<Rightarrow> 'u \<Rightarrow> ('ep, 'c, 'u, 'j, 't) protocol_rpc res" where
  "ping lib J H r peer u =
     sendJson lib J H r peer (j_object J [(''type'', j_of_number J PING)]) (PingReply u)"

definition disconnect :: "'c cryptopp \<Rightarrow> 'j json_lib \<Rightarrow> ('ep, 't) handlers \<Rightarrow> ('ep, 'c, 'u, 'j, 't) protocol_rpc \<Rightarrow>
    'ep \<Rightarrow> 'u \<Rightarrow> ('ep, 'c, 'u, 'j, 't) protocol_rpc res" where
  "disconnect lib J H r peer u =
     sendJson lib J H r peer (j_object J [(''type'', j_of_number J DISCONNECT)]) (DisconnectReply u)"

definition newRpcProtocol :: "heap \<Rightarrow> 'c cryptor \<Rightarrow> pool \<Rightarrow> 't \<Rightarrow> u16 \<Rightarrow> ('ep, 'c, 'u, 'j, 't) protocol_rpc" where
  "newRpcProtocol h c p t retry = newRpc h c \<lparr>p_pool = p, p_answers = [], p_owner = t\<rparr> retry"

section \<open>The protocol as the owner of its calls\<close>

lemma ensures_thrown [ensures_intros]: "ensures (\<lambda>_. True) (thrown x)"
  by (simp add: thrown_def split: option.split)

lemma ensures_mbuf_bytes [ensures_intros]: "ensures (\<lambda>_. True) (mbuf_bytes h mb)"
  using ensures_memory(1) by (auto simp: mbuf_bytes_def split: option.split)

lemma ensures_readString [ensures_intros]: "ensures (\<lambda>_. True) (readStringFromFront h b)"
  unfolding readStringFromFront_def readBufferFromFront_def readBuffer_def
  by (auto simp: split_beta intro!: ensures_rbind[OF ensures_mbuf_bytes] ensures_rbind[of "\<lambda>_. True"]
      ensures_rbind[OF ensures_fields(2)])

lemma ensures_writeString [ensures_intros]: "ensures (\<lambda>_. True) (writeStringToBack h b str)"
  unfolding writeStringToBack_def writeBufferToBack_def writeBuffer_def
  by (auto simp: Let_def intro!: ensures_rbind[OF ensures_memory(2)] ensures_rbind[OF ensures_fields(4)])

lemma ensures_pool_alloc [ensures_intros]: "ensures (\<lambda>_. True) (pool_alloc bs h p)"
  by (auto simp: pool_alloc_def split_beta split: list.split)

lemma ensures_json_buffer [ensures_intros]: "ensures (\<lambda>_. True) (json_buffer J h p payload)"
  unfolding json_buffer_def
  by (auto simp: split_beta intro!: ensures_rbind[OF ensures_pool_alloc] ensures_rbind[OF ensures_thrown]
      ensures_rbind[OF ensures_writeString])

lemma ensures_dispatch [ensures_intros]: "ensures (\<lambda>_. True) (dispatch_request J H peer payload t)"
  unfolding dispatch_request_def
  by (auto simp: split_beta Let_def split: option.split intro!: ensures_rbind[OF ensures_thrown])

lemma ensures_on_reply [ensures_intros]: "ensures (\<lambda>_. True) (on_reply J f reply)"
  unfolding on_reply_def
  by (auto split: reply_handler.split intro!: ensures_rbind[OF ensures_thrown])

lemma requestHandler_keeps:
  "ensures (\<lambda>(acc, c', hs'). control_key c' = control_key c \<and> (acc \<longrightarrow> cb_onComplete c' \<noteq> None))
     (requestHandler J H buf c hs)"
  unfolding requestHandler_def
  by (cases hs) (auto simp: Let_def split_beta control_key_def split: option.split
      intro!: ensures_rbind[OF ensures_readString] ensures_rbind[OF ensures_dispatch]
        ensures_rbind[OF ensures_json_buffer])

lemma ensures_reply_document [ensures_intros]: "ensures (\<lambda>_. True) (reply_document J h err b)"
  unfolding reply_document_def
  by (auto simp: split_beta Let_def split: option.split intro!: ensures_rbind[OF ensures_readString])

lemma request_done_keeps: "ensures (\<lambda>_. True) (request_done J f err b ctl hs)"
  unfolding request_done_def
  by (auto simp: split_beta Let_def split: option.split
      intro!: ensures_rbind[OF ensures_reply_document] ensures_rbind[OF ensures_on_reply])

interpretation protocol: rpc_owner "protocol_callbacks J H :: ('ep::linorder, 'u completion, ('u, 'j, 't) protocol) callbacks"
  for J :: "'j json_lib" and H :: "('ep::linorder, 't) handlers"
proof (unfold_locales, goal_cases)
  case (1 f buf c hs)
  then have "f = requestHandler J H" by (simp add: protocol_callbacks_def)
  then show ?case using requestHandler_keeps by simp
next
  case (2 k err b ctl hs)
  show ?case
    by (cases hs) (auto simp: protocol_callbacks_def reply_done_def request_done_keeps
        split: completion.split option.split)
qed

end
