(* ===== verification/Handshake.thy ===== *)
theory Handshake
  imports RpcProtocol
begin

text \<open>
  What the calls of \<^verbatim>\<open>RpcProtocol.h\<close> achieve: safety for every input, the accounting of the
  buffers, and the connect call from the caller's \<open>connect\<close> to its callback.
\<close>

section \<open>What the code relies on in the JSON library\<close>

text \<open>
  The documented behaviour: an object literal is an object with the fields it names, and null
  under every other key, values
  made of a number or a string are of that kind and give it back, and parsing a dumped value
  gives the value.
\<close>

definition json_ok :: "'j json_lib \<Rightarrow> bool" where
  "json_ok J \<longleftrightarrow>
     (\<forall>fs. j_is_object J (j_object J fs))
     \<and> (\<forall>fs k x. map_of fs k = Some x \<longrightarrow> j_field J (j_object J fs) k = x)
     \<and> (\<forall>fs k. map_of fs k = None \<longrightarrow> \<not> j_is_string J (j_field J (j_object J fs) k)
          \<and> \<not> j_is_integer J (j_field J (j_object J fs) k))
     \<and> (\<forall>n. j_is_integer J (j_of_number J n) \<and> j_number J (j_of_number J n) = Some n)
     \<and> (\<forall>s. j_is_string J (j_of_string J s) \<and> j_string J (j_of_string J s) = Some s)
     \<and> (\<forall>x s. j_dump J x = Some s \<longrightarrow> j_parse J s = x)"

section \<open>Safety for every input\<close>

text \<open>
  C25. Whatever datagrams arrive, in whatever order sends and timers complete, and whatever the
  owner does between them, the calls never use a control block after it was freed or free one
  twice, and the tables lead to live blocks only.
\<close>

theorem protocol_blocks_safe:
  assumes "rpc_reach lib (protocol_callbacks J H) (newRpcProtocol h c p t retry) r"
  shows "rpc_wf r \<and> rpc_step lib (protocol_callbacks J H) r e \<noteq> Inl UseAfterFree
    \<and> rpc_step lib (protocol_callbacks J H) r e \<noteq> Inl DoubleFree"
proof -
  have "rpc_wf r"
    using protocol.rpc_reach_wf[OF assms] by (simp add: newRpcProtocol_def newRpc_wf)
  from this protocol.rpc_step_ensures[OF this, of lib J H e] show ?thesis by auto
qed

section \<open>Documents in pool buffers\<close>

lemma writeStringToBack_frame:
  assumes "writeStringToBack h b s = Inr (h', b', w)"
  shows "in_bounds h' q n = in_bounds h q n" "heap_wf h \<Longrightarrow> heap_wf h'"
proof -
  have "h' = h \<or> (\<exists>h1 p q x xs. store16 h p x = Inr h1 \<and> store_bytes h1 q xs = Inr h')"
    using assms by (auto simp: writeStringToBack_def writeBufferToBack_def writeBuffer_def Let_def res_iffs
        split: if_splits)
  then show "in_bounds h' q n = in_bounds h q n" "heap_wf h \<Longrightarrow> heap_wf h'"
    by (auto simp: half.in_bounds_st in_bounds_store half.st_eq dest: store_bytes_wf)
qed

lemma pool_owns_heap:
  assumes "pool_owns bs (h, p) out" "\<And>q n. in_bounds h' q n = in_bounds h q n" "heap_wf h'"
  shows "pool_owns bs (h', p) out"
  using assms by (simp add: pool_owns_def)

lemma pool_owns_wf: "pool_owns bs (h, p) out \<Longrightarrow> heap_wf h"
  by (simp add: pool_owns_def)

lemma json_buffer_spec:
  assumes own: "pool_owns 1600 (h, p) out" and dump: "j_dump J x = Some s" and len: "length s \<le> 1587"
  shows "\<exists>h' p' b. json_buffer J h p x = Inr (h', p', b) \<and> content h' b = Inr (frame s)
    \<and> buf_wf b \<and> buf_in h' b \<and> w_pre (win b) = 10 \<and> pool_owns 1600 (h', p') (add_mset (b_internal b) out)"
proof -
  obtain h1 p1 d where 1: "pool_alloc 1600 h p = Inr (h1, p1, mkBuffer d 1600)"
      "pool_owns 1600 (h1, p1) (add_mset d out)"
    using pool_take_owns[OF own] by (auto simp: pool_take_def res_iffs)
  let ?b0 = "mkBuffer d 1600"
  have wf0: "buf_wf ?b0" and win0: "win ?b0 = \<lparr>w_pre = 0, w_len = 1600, w_cap = 1600\<rparr>"
    by (simp_all add: mkBuffer_def buf_wf_def win_def win_ok_def)
  have mem0: "buf_in h1 ?b0"
    using pool.owns_mem[OF 1(2)] by (simp add: buf_in_def mkBuffer_def)
  let ?b1 = "moveFrontBoundary ?b0 10"
  have wf1: "buf_wf ?b1" using buf_step_wf[OF wf0, of "MoveFront 10"] by simp
  have win1: "win ?b1 = \<lparr>w_pre = 10, w_len = 1590, w_cap = 1600\<rparr>"
    using win_buf_step[OF wf0, of "MoveFront 10"] by (simp add: win0)
  let ?b2 = "setSize ?b1 0"
  have wf2: "buf_wf ?b2" using buf_step_wf[OF wf1, of "SetSize 0"] by simp
  have win2: "win ?b2 = \<lparr>w_pre = 10, w_len = 0, w_cap = 1600\<rparr>"
    using win_buf_step[OF wf1, of "SetSize 0"] by (simp add: win1)
  have mem2: "buf_in h1 ?b2"
    using mem0 buf_step_frame[of ?b0 "MoveFront 10"] by (simp add: buf_in_def)
  have "uint (b_size ?b2) = 0" using win2 by (simp add: win_def)
  then have sz: "b_size ?b2 = 0" by (simp add: uint_0_iff)
  have "content h1 ?b2 = Inr []"
    using content_ok[OF wf2 mem2] sz by auto
  from writeStringToBack_spec[OF wf2 mem2 this, of s] len win2
  obtain h2 b3 where w: "writeStringToBack h1 ?b2 s = Inr (h2, b3, True)" "content h2 b3 = Inr (frame s)"
      "buf_wf b3" "buf_in h2 b3" "b_internal b3 = b_internal ?b2" "w_pre (win b3) = 10"
    by auto
  have "b_internal b3 = d"
    using w(5) buf_step_frame(1)[of ?b0 "MoveFront 10"] by (simp add: mkBuffer_def)
  moreover have "pool_owns 1600 (h2, p1) (add_mset d out)"
    by (rule pool_owns_heap[OF 1(2) writeStringToBack_frame(1)[OF w(1)]
          writeStringToBack_frame(2)[OF w(1) pool_owns_wf[OF 1(2)]]])
  ultimately show ?thesis
    using 1(1) w dump by (simp add: json_buffer_def thrown_def)
qed

section \<open>Serving a connect\<close>

lemma read_document:
  assumes "buf_wf b" "buf_in h b" "content h b = Inr (frame s)" "s \<noteq> []" "length s < 65536"
  shows "\<exists>b'. readStringFromFront h b = Inr (b', s)"
  using readStringFromFront_string[OF assms(1-3) _ assms(4), of "[]"] decode_frame[OF assms(5), of "[]"]
  by auto

definition connect_document :: "'j json_lib \<Rightarrow> bytes \<Rightarrow> bytes \<Rightarrow> 'j" where
  "connect_document J user pass = j_object J [(''type'', j_of_number J CONNECT),
     (''username'', j_of_string J user), (''password'', j_of_string J pass)]"

definition key_document :: "'j json_lib \<Rightarrow> u8 \<Rightarrow> bytes \<Rightarrow> bytes \<Rightarrow> 'j" where
  "key_document J err key iv = j_object J [(''error'', j_of_number J err), (''key'', j_of_string J key),
     (''iv'', j_of_string J iv)]"

lemma json_laws:
  assumes "json_ok J"
  shows "j_is_object J (j_object J fs)" "map_of fs k = Some x \<Longrightarrow> j_field J (j_object J fs) k = x"
    "j_is_integer J (j_of_number J n)" "j_number J (j_of_number J n) = Some n"
    "j_is_string J (j_of_string J s)" "j_string J (j_of_string J s) = Some s"
    "j_dump J y = Some s \<Longrightarrow> j_parse J s = y"
    "map_of fs k = None \<Longrightarrow> \<not> j_is_string J (j_field J (j_object J fs) k)"
  using assms unfolding json_ok_def by auto

text \<open>A request whose document is dispatched to a reply.\<close>

lemma handler_replies:
  assumes J: "json_ok J" and buf: "buf_wf buf" "buf_in h buf" "content h buf = Inr (frame req)"
    and req: "j_dump J x = Some req" "req \<noteq> []" "length req < 65536"
    and x: "j_is_object J x" "j_is_integer J (j_field J x ''type'')"
      "dispatch_request J H (cb_endpoint c) x (p_owner s) = Inr (Some doc, t)"
    and rep: "j_dump J doc = Some rep" "length rep \<le> 1587"
    and own: "pool_owns 1600 (h, p_pool s) out"
  shows "\<exists>h' p b. requestHandler J H buf c (h, s)
      = Inr (True, c\<lparr>cb_buffer := b, cb_onComplete := Some ReplyDone\<rparr>, h', s\<lparr>p_pool := p, p_owner := t\<rparr>)
    \<and> content h' b = Inr (frame rep) \<and> buf_wf b \<and> buf_in h' b \<and> w_pre (win b) = 10
    \<and> pool_owns 1600 (h', p) (add_mset (b_internal b) out)"
proof -
  obtain buf' where r: "readStringFromFront h buf = Inr (buf', req)"
    using read_document[OF buf req(2,3)] by blast
  obtain h' p b where b: "json_buffer J h (p_pool s) doc = Inr (h', p, b)"
    "content h' b = Inr (frame rep)" "buf_wf b" "buf_in h' b" "w_pre (win b) = 10"
    "pool_owns 1600 (h', p) (add_mset (b_internal b) out)"
    using json_buffer_spec[OF own rep] by blast
  have "j_parse J req = x" using json_laws(7)[OF J req(1)] .
  then have "requestHandler J H buf c (h, s)
      = Inr (True, c\<lparr>cb_buffer := b, cb_onComplete := Some ReplyDone\<rparr>, h', s\<lparr>p_pool := p, p_owner := t\<rparr>)"
    using b(1) x by (simp add: requestHandler_def r)
  with b show ?thesis by blast
qed

lemma connect_dispatched:
  assumes J: "json_ok J" and H: "onConnect H = Some f" "f ep user pass t = ((err, key, iv), t')"
  shows "dispatch_request J H ep (connect_document J user pass) t = Inr (Some (key_document J err key iv), t')"
    "j_is_object J (connect_document J user pass)" "j_is_integer J (j_field J (connect_document J user pass) ''type'')"
  using H json_laws[OF J] by (simp_all add: connect_document_def dispatch_request_def thrown_def key_document_def)

lemma json_sent:
  assumes rdy: "ready lib k v (r_cryptor r)" and retry: "1 < sint (ucast (r_retry r) :: i8)"
    and req: "j_dump J x = Some req" "length req \<le> 1587"
    and own: "pool_owns 1600 (r_heap r, p_pool (r_client r)) out" and pid: "pid = fst (nextId r)"
  shows "\<exists>r1 d. sendJson lib J H r peer x f = Inr r1
    \<and> r_sent r1 = r_sent r @ [(peer, packet lib (r_cryptor r) REQUEST pid (frame req))]
    \<and> r_cryptor r1 = r_cryptor r \<and> p_answers (r_client r1) = p_answers (r_client r)
    \<and> smap_find (<) pid (r_requesting r1) = Some (length (r_blocks r))
    \<and> get_control r1 (length (r_blocks r)) = Inr d \<and> cb_onComplete d = Some (RequestDone f)
    \<and> pool_owns 1600 (r_heap r1, p_pool (r_client r1)) (add_mset (b_internal (cb_buffer d)) out)"
proof -
  obtain h p b where b: "json_buffer J (r_heap r) (p_pool (r_client r)) x = Inr (h, p, b)"
    "content h b = Inr (frame req)" "buf_wf b" "buf_in h b" "w_pre (win b) = 10"
    "pool_owns 1600 (h, p) (add_mset (b_internal b) out)"
    using json_buffer_spec[OF own req] by blast
  let ?r = "r\<lparr>r_heap := h, r_client := (r_client r)\<lparr>p_pool := p\<rparr>\<rparr>"
  obtain r0 where id: "nextId ?r = (pid, r0)"
    using pid by (cases "nextId ?r") (auto simp: nextId_def split: if_splits)
  have r0: "r_cryptor r0 = r_cryptor r" "p_answers (r_client r0) = p_answers (r_client r)" "p_pool (r_client r0) = p"
    using id by (auto simp: nextId_def split: if_splits)
  have pre: "ready lib k v (r_cryptor ?r)" "buf_in (r_heap ?r) b" "content (r_heap ?r) b = Inr (frame req)"
      "3 \<le> w_pre (win b)" "1 < sint (ucast (r_retry ?r) :: i8)"
    using rdy b retry by simp_all
  have bi: "b_internal (moveFrontBoundary b (- 3)) = b_internal b"
    using buf_step_frame(1)[of b "MoveFront (- 3)"] by simp
  have own1: "pool_owns 1600 (h1, p) (add_mset (b_internal b) out)"
    if "\<forall>q l. in_bounds h1 q l = in_bounds h q l" "heap_wf h \<longrightarrow> heap_wf h1" for h1
    using that pool_owns_wf[OF b(6)] by (intro pool_owns_heap[OF b(6)]) simp_all
  note sent = send_spec[OF pre(1) b(3) pre(2-5) id, of "protocol_callbacks J H" peer "RequestDone f"]
  then obtain r1 d where "send lib (protocol_callbacks J H) ?r peer b (RequestDone f) = Inr r1"
      "r_sent r1 = r_sent r @ [(peer, packet lib (r_cryptor r) REQUEST pid (frame req))]"
      "r_cryptor r1 = r_cryptor r" "p_answers (r_client r1) = p_answers (r_client r)"
      "smap_find (<) pid (r_requesting r1) = Some (length (r_blocks r))"
      "get_control r1 (length (r_blocks r)) = Inr d" "cb_onComplete d = Some (RequestDone f)"
      "pool_owns 1600 (r_heap r1, p_pool (r_client r1)) (add_mset (b_internal (cb_buffer d)) out)"
    by (auto simp: r0 bi smap_find_put_same get_control_def dest!: own1)
  then show ?thesis
    using b(1) by (simp add: sendJson_def)
qed

lemma reply_delivered:
  assumes J: "json_ok J" and buf: "buf_wf b" "buf_in h b" "content h b = Inr (frame rep)"
    and rep: "j_dump J doc = Some rep" "rep \<noteq> []" "length rep < 65536"
    and doc: "j_is_object J doc" "j_is_integer J (j_field J doc ''error'')" "on_reply J f doc = Inr a"
  shows "request_done J f NoError (Some b) (Some d) (h, s)
    = Inr (h, s\<lparr>p_pool := pool_free (p_pool s) (cb_buffer d), p_answers := p_answers s @ [a]\<rparr>)"
proof -
  obtain b' where "readStringFromFront h b = Inr (b', rep)"
    using read_document[OF buf rep(2,3)] by blast
  moreover have "j_parse J rep = doc" using json_laws(7)[OF J rep(1)] .
  ultimately show ?thesis
    using doc by (simp add: request_done_def reply_document_def failed_def)
qed

lemma key_reply:
  assumes "json_ok J"
  shows "j_is_object J (key_document J err key iv)" "j_is_integer J (j_field J (key_document J err key iv) ''error'')"
    "on_reply J (ConnectReply u) (key_document J err key iv) = Inr (ConnectAnswer u err key iv)"
  using json_laws[OF assms] by (simp_all add: on_reply_def key_document_def thrown_def)

text \<open>
  A connect request is answered with what \<open>onConnect\<close> decides. Given a buffer with the
  connect document, the handler asks \<open>onConnect\<close> once, for the endpoint, the name and the
  password of the request, and puts the document with its error, key and vector into a fresh
  buffer of the pool, with room for the packet header.
\<close>

theorem connect_handled:
  assumes J: "json_ok J" and buf: "buf_wf buf" "buf_in h buf" "content h buf = Inr (frame req)"
    and req: "j_dump J (connect_document J user pass) = Some req" "req \<noteq> []" "length req < 65536"
    and H: "onConnect H = Some f" "f (cb_endpoint c) user pass (p_owner s) = ((err, key, iv), t)"
    and rep: "j_dump J (key_document J err key iv) = Some rep" "length rep \<le> 1587"
    and own: "pool_owns 1600 (h, p_pool s) out"
  shows "\<exists>h' p b. requestHandler J H buf c (h, s)
      = Inr (True, c\<lparr>cb_buffer := b, cb_onComplete := Some ReplyDone\<rparr>, h', s\<lparr>p_pool := p, p_owner := t\<rparr>)
    \<and> content h' b = Inr (frame rep) \<and> buf_wf b \<and> buf_in h' b \<and> w_pre (win b) = 10
    \<and> pool_owns 1600 (h', p) (add_mset (b_internal b) out)"
  by (rule handler_replies[OF J buf req connect_dispatched(2,3,1)[OF J H] rep own])

text \<open>One call: a request that is dispatched to a reply, which gives the answer \<open>a\<close>.\<close>

lemma call_roundtrip:
  assumes J: "json_ok J"
    and keys: "ready lib k v (r_cryptor r)" "ready lib k v (r_cryptor sv)"
    and retries: "1 < sint (ucast (r_retry r) :: i8)" "1 < sint (ucast (r_retry sv) :: i8)"
    and pools: "pool_owns 1600 (r_heap r, p_pool (r_client r)) out" "pool_owns 1600 (r_heap sv, p_pool (r_client sv)) out'"
    and req: "j_dump J x = Some req" "req \<noteq> []" "length req \<le> 1587"
    and x: "j_is_object J x" "j_is_integer J (j_field J x ''type'')"
      "dispatch_request J H caller x (p_owner (r_client sv)) = Inr (Some doc, t)"
    and rep: "j_dump J doc = Some rep" "rep \<noteq> []" "length rep \<le> 1587"
    and doc: "j_is_object J doc" "j_is_integer J (j_field J doc ''error'')" "on_reply J f doc = Inr a"
    and pid: "pid = fst (nextId r)" and new: "smap_find (<) (IdEndpoint caller pid) (r_replying sv) = None"
    and recv: "buf_wf inb" "buf_in (r_heap sv) inb"
      "content (r_heap sv) inb = Inr (packet lib (r_cryptor r) REQUEST pid (frame req))"
  shows "\<exists>r1 sv1 b. sendJson lib J H' r peer x f = Inr r1
    \<and> pool_owns 1600 (r_heap r1, p_pool (r_client r1)) (add_mset (b_internal b) out)
    \<and> r_sent r1 = r_sent r @ [(peer, packet lib (r_cryptor r) REQUEST pid (frame req))]
    \<and> feed lib (protocol_callbacks J H) sv caller inb = Inr sv1 \<and> p_owner (r_client sv1) = t
    \<and> r_sent sv1 = r_sent sv @ [(caller, packet lib (r_cryptor sv) REPLY pid (frame rep))]
    \<and> (\<forall>h inb' src. buf_wf inb' \<and> buf_in h inb'
        \<and> content h inb' = Inr (packet lib (r_cryptor sv) REPLY pid (frame rep)) \<longrightarrow>
        (\<exists>r2. feed lib (protocol_callbacks J H') (r1\<lparr>r_heap := h\<rparr>) src inb' = Inr r2
          \<and> p_answers (r_client r2) = p_answers (r_client r) @ [a]
          \<and> p_pool (r_client r2) = pool_free (p_pool (r_client r1)) b
          \<and> pool_owns 1600 (r_heap r1, p_pool (r_client r2)) out))"
proof -
  obtain r1 d where r1: "sendJson lib J H' r peer x f = Inr r1"
      "r_sent r1 = r_sent r @ [(peer, packet lib (r_cryptor r) REQUEST pid (frame req))]"
      "r_cryptor r1 = r_cryptor r" "p_answers (r_client r1) = p_answers (r_client r)"
      "smap_find (<) pid (r_requesting r1) = Some (length (r_blocks r))"
      "get_control r1 (length (r_blocks r)) = Inr d" "cb_onComplete d = Some (RequestDone f)"
      "pool_owns 1600 (r_heap r1, p_pool (r_client r1)) (add_mset (b_internal (cb_buffer d)) out)"
    using json_sent[OF keys(1) retries(1) req(1,3) pools(1) pid] by blast
  have given: "pool_owns 1600 (r_heap r1, pool_free (p_pool (r_client r1)) (cb_buffer d)) out"
    using pool.give_ok[OF r1(8)] by (simp add: pool_give_def)
  have cb: "onRequest (protocol_callbacks J H) = Some (requestHandler J H)"
    by (simp add: protocol_callbacks_def)
  let ?i = "length (r_blocks sv)"
  obtain h b c0 where q: "content h b = Inr (frame req)" "buf_wf b" "buf_in h b"
      "c0 = \<lparr>cb_remain = ucast (r_retry sv), cb_endpoint = caller, cb_id = pid, cb_buffer = b, cb_onComplete = None\<rparr>"
      "\<forall>q l. in_bounds h q l = in_bounds (r_heap sv) q l" "heap_wf (r_heap sv) \<longrightarrow> heap_wf h"
    and fed: "feed lib (protocol_callbacks J H) sv caller inb
      = rbind (requestHandler J H b c0 (h, r_client sv)) (\<lambda>(accepted, c', h', t).
          finish_request lib (protocol_callbacks J H)
            (sv\<lparr>r_blocks := r_blocks sv @ [Some c'], r_heap := h', r_client := t\<rparr>)
            caller pid ?i accepted c')"
    using feed_request_packet[OF keys(2,1) recv new cb] by blast
  have own: "pool_owns 1600 (h, p_pool (r_client sv)) out'"
    using q(5,6) pool_owns_wf[OF pools(2)] by (intro pool_owns_heap[OF pools(2)]) simp_all
  have asked: "dispatch_request J H (cb_endpoint c0) x (p_owner (r_client sv)) = Inr (Some doc, t)"
    using x(3) q(4) by simp
  have "length req < 65536" using req(3) by simp
  from handler_replies[OF J q(2,3,1) req(1,2) this x(1,2) asked rep(1,3) own]
  obtain h' p b' where handled: "requestHandler J H b c0 (h, r_client sv)
      = Inr (True, c0\<lparr>cb_buffer := b', cb_onComplete := Some ReplyDone\<rparr>, h', (r_client sv)\<lparr>p_pool := p, p_owner := t\<rparr>)"
    and b': "content h' b' = Inr (frame rep)" "buf_wf b'" "buf_in h' b'" "w_pre (win b') = 10"
    by blast
  let ?c = "c0\<lparr>cb_buffer := b', cb_onComplete := Some ReplyDone\<rparr>"
  let ?sv = "sv\<lparr>r_blocks := r_blocks sv @ [Some ?c], r_heap := h', r_client := (r_client sv)\<lparr>p_pool := p, p_owner := t\<rparr>\<rparr>"
  have fin: "ready lib k v (r_cryptor ?sv)" "block_at (r_blocks ?sv) ?i = Some ?c" "cb_id ?c = pid"
      "cb_endpoint ?c = caller" "buf_wf (cb_buffer ?c)" "buf_in (r_heap ?sv) (cb_buffer ?c)"
      "content (r_heap ?sv) (cb_buffer ?c) = Inr (frame rep)" "3 \<le> w_pre (win (cb_buffer ?c))" "1 < sint (cb_remain ?c)"
    using keys(2) b' q(4) retries(2) by (simp_all add: block_at_simps)
  obtain sv1 where sv1: "finish_request lib (protocol_callbacks J H) ?sv caller pid ?i True ?c = Inr sv1"
      "r_sent sv1 = r_sent sv @ [(caller, packet lib (r_cryptor sv) REPLY pid (frame rep))]"
      "p_owner (r_client sv1) = t"
    using finish_request_spec[OF fin, of "protocol_callbacks J H"] by auto
  have served: "feed lib (protocol_callbacks J H) sv caller inb = Inr sv1"
    by (simp add: fed handled sv1(1))
  have answered: "\<exists>r2. feed lib (protocol_callbacks J H') (r1\<lparr>r_heap := h\<rparr>) src inb' = Inr r2
      \<and> p_answers (r_client r2) = p_answers (r_client r) @ [a]
      \<and> p_pool (r_client r2) = pool_free (p_pool (r_client r1)) (cb_buffer d)
      \<and> pool_owns 1600 (r_heap r1, p_pool (r_client r2)) out"
    if arrived: "buf_wf inb'" "buf_in h inb'" "content h inb' = Inr (packet lib (r_cryptor sv) REPLY pid (frame rep))"
    for h inb' src
  proof -
    let ?r1 = "r1\<lparr>r_heap := h\<rparr>"
    have pre: "ready lib k v (r_cryptor ?r1)" "buf_in (r_heap ?r1) inb'"
        "content (r_heap ?r1) inb' = Inr (packet lib (r_cryptor sv) REPLY pid (frame rep))"
        "smap_find (<) pid (r_requesting ?r1) = Some (length (r_blocks r))"
        "get_control ?r1 (length (r_blocks r)) = Inr d"
      using keys(1) arrived r1 by simp_all
    obtain h2 b2 where arr: "content h2 b2 = Inr (frame rep)" "buf_wf b2" "buf_in h2 b2"
        "feed lib (protocol_callbacks J H') ?r1 src inb'
          = rbind (request_done J f NoError (Some b2) (Some d) (h2, r_client ?r1)) (\<lambda>(h', t).
              Inr (put_control (?r1\<lparr>r_heap := h', r_client := t\<rparr>) (length (r_blocks r)) (d\<lparr>cb_remain := 0\<rparr>)))"
      using feed_reply_packet[OF pre(1) keys(2) arrived(1) pre(2-5) r1(7), of "protocol_callbacks J H'" src]
      by (auto simp: protocol_callbacks_def)
    have "length rep < 65536" using rep(3) by simp
    from reply_delivered[OF J arr(2,3,1) rep(1,2) this doc, of d "r_client ?r1"] arr(4) show ?thesis
      by (simp add: r1(4) given put_control_def)
  qed
  show ?thesis using r1(1,2,8) served sv1(2,3) answered by blast
qed

text \<open>
  C24. The handshake. Between a caller and a server with the same transport key, \<open>connect\<close>
  sends one datagram; the server, when it receives it and is not replying to it already, asks
  its \<open>onConnect\<close> once with the caller's endpoint, name and password, and sends one datagram
  back; the caller, when it receives that in time, calls the callback given to \<open>connect\<close> once,
  with exactly the error, key and vector that \<open>onConnect\<close> has decided on.
\<close>

theorem connect_roundtrip:
  assumes J: "json_ok J"
    and keys: "ready lib k v (r_cryptor r)" "ready lib k v (r_cryptor sv)"
    and retries: "1 < sint (ucast (r_retry r) :: i8)" "1 < sint (ucast (r_retry sv) :: i8)"
    and pools: "pool_owns 1600 (r_heap r, p_pool (r_client r)) out" "pool_owns 1600 (r_heap sv, p_pool (r_client sv)) out'"
    and req: "j_dump J (connect_document J user pass) = Some req" "req \<noteq> []" "length req \<le> 1587"
    and rep: "j_dump J (key_document J err key iv) = Some rep" "rep \<noteq> []" "length rep \<le> 1587"
    and H: "onConnect H = Some f" "f caller user pass (p_owner (r_client sv)) = ((err, key, iv), t)"
    and pid: "pid = fst (nextId r)" and new: "smap_find (<) (IdEndpoint caller pid) (r_replying sv) = None"
    and recv: "buf_wf inb" "buf_in (r_heap sv) inb"
      "content (r_heap sv) inb = Inr (packet lib (r_cryptor r) REQUEST pid (frame req))"
  shows "\<exists>r1 sv1. connect lib J H' r peer user pass u = Inr r1
    \<and> r_sent r1 = r_sent r @ [(peer, packet lib (r_cryptor r) REQUEST pid (frame req))]
    \<and> feed lib (protocol_callbacks J H) sv caller inb = Inr sv1 \<and> p_owner (r_client sv1) = t
    \<and> r_sent sv1 = r_sent sv @ [(caller, packet lib (r_cryptor sv) REPLY pid (frame rep))]
    \<and> (\<forall>h inb' src. buf_wf inb' \<and> buf_in h inb'
        \<and> content h inb' = Inr (packet lib (r_cryptor sv) REPLY pid (frame rep)) \<longrightarrow>
        (\<exists>r2. feed lib (protocol_callbacks J H') (r1\<lparr>r_heap := h\<rparr>) src inb' = Inr r2
          \<and> p_answers (r_client r2) = p_answers (r_client r) @ [ConnectAnswer u err key iv]))"
proof -
  note disp = connect_dispatched(2,3,1)[OF J H] and reply = key_reply(1,2)[OF J] key_reply(3)[OF J, where u = u]
  from call_roundtrip[OF J keys retries pools req disp rep reply pid new recv, where H' = H' and peer = peer] show ?thesis
    unfolding connect_def connect_document_def[symmetric] by blast
qed

text \<open>
  C13. Ping and disconnect. Between a caller and a server with the same transport key, \<open>ping\<close>
  (or \<open>disconnect\<close>, if \<open>bye\<close>) sends one datagram; the server, when it receives it and is not
  replying to it already, asks its \<open>onPing\<close> (\<open>onDisconnect\<close>) once about the caller's endpoint, and
  sends one datagram back; the caller, when it receives that in time, calls the callback given
  to the call once, with exactly the code that was decided on. The buffer of the request was the
  only one of the caller's pool that the call had taken, and it is given back then.
\<close>

theorem status_roundtrip:
  assumes J: "json_ok J"
    and keys: "ready lib k v (r_cryptor r)" "ready lib k v (r_cryptor sv)"
    and retries: "1 < sint (ucast (r_retry r) :: i8)" "1 < sint (ucast (r_retry sv) :: i8)"
    and pools: "pool_owns 1600 (r_heap r, p_pool (r_client r)) out" "pool_owns 1600 (r_heap sv, p_pool (r_client sv)) out'"
    and req: "j_dump J (j_object J [(''type'', j_of_number J (if bye then DISCONNECT else PING))]) = Some req"
      "req \<noteq> []" "length req \<le> 1587"
    and rep: "j_dump J (j_object J [(''error'', j_of_number J err)]) = Some rep" "rep \<noteq> []" "length rep \<le> 1587"
    and H: "(if bye then onDisconnect H else onPing H) = Some f" "f caller (p_owner (r_client sv)) = (err, t)"
    and pid: "pid = fst (nextId r)" and new: "smap_find (<) (IdEndpoint caller pid) (r_replying sv) = None"
    and recv: "buf_wf inb" "buf_in (r_heap sv) inb"
      "content (r_heap sv) inb = Inr (packet lib (r_cryptor r) REQUEST pid (frame req))"
  shows "\<exists>r1 sv1 b. (if bye then disconnect lib J H' r peer u else ping lib J H' r peer u) = Inr r1
    \<and> pool_owns 1600 (r_heap r1, p_pool (r_client r1)) (add_mset (b_internal b) out)
    \<and> r_sent r1 = r_sent r @ [(peer, packet lib (r_cryptor r) REQUEST pid (frame req))]
    \<and> feed lib (protocol_callbacks J H) sv caller inb = Inr sv1 \<and> p_owner (r_client sv1) = t
    \<and> r_sent sv1 = r_sent sv @ [(caller, packet lib (r_cryptor sv) REPLY pid (frame rep))]
    \<and> (\<forall>h inb' src. buf_wf inb' \<and> buf_in h inb'
        \<and> content h inb' = Inr (packet lib (r_cryptor sv) REPLY pid (frame rep)) \<longrightarrow>
        (\<exists>r2. feed lib (protocol_callbacks J H') (r1\<lparr>r_heap := h\<rparr>) src inb' = Inr r2
          \<and> p_answers (r_client r2)
            = p_answers (r_client r) @ [if bye then DisconnectAnswer u err else PingAnswer u err]
          \<and> p_pool (r_client r2) = pool_free (p_pool (r_client r1)) b
          \<and> pool_owns 1600 (r_heap r1, p_pool (r_client r2)) out))"
proof -
  let ?x = "j_object J [(''type'', j_of_number J (if bye then DISCONNECT else PING))]"
  let ?doc = "j_object J [(''error'', j_of_number J err)]"
  let ?f = "if bye then DisconnectReply u else PingReply u" and ?a = "if bye then DisconnectAnswer u err else PingAnswer u err"
  note laws = json_laws[OF J]
  have "CONNECT \<noteq> PING" "CONNECT \<noteq> DISCONNECT" "PING \<noteq> DISCONNECT" by (simp_all add: CONNECT_def PING_def DISCONNECT_def)
  then have x: "j_is_object J ?x" "j_is_integer J (j_field J ?x ''type'')"
    "dispatch_request J H caller ?x (p_owner (r_client sv)) = Inr (Some ?doc, t)"
    using H laws by (auto simp: dispatch_request_def thrown_def split: if_splits)
  have doc: "j_is_object J ?doc" "j_is_integer J (j_field J ?doc ''error'')" "on_reply J ?f ?doc = Inr ?a"
    using laws by (simp_all add: on_reply_def thrown_def)
  from call_roundtrip[OF J keys retries pools req x rep doc pid new recv, where H' = H' and peer = peer] show ?thesis
    by (cases bye) (simp_all add: ping_def disconnect_def)
qed

section \<open>Requests that are refused\<close>

text \<open>
  What \<open>_requestHandler\<close> does with a document it cannot serve. One that is no object or has
  no integer \<open>type\<close>, and one of an unknown type, is refused: nothing changes, no buffer is
  taken and no reply sent. But a connect whose name or password is missing or no string
  ends in an exception of the JSON library that nothing catches, before \<open>onConnect\<close> is asked.
\<close>

theorem bad_request:
  assumes "readStringFromFront h buf = Inr (buf', str)"
  shows "(\<not> j_is_object J (j_parse J str) \<or> \<not> j_is_integer J (j_field J (j_parse J str) ''type'') \<longrightarrow>
      requestHandler J H buf c (h, s) = Inr (False, c, h, s))
    \<and> (j_is_object J (j_parse J str) \<and> j_is_integer J (j_field J (j_parse J str) ''type'') \<longrightarrow>
      (\<forall>n. j_number J (j_field J (j_parse J str) ''type'') = Some n \<and> n \<notin> {CONNECT, PING, DISCONNECT} \<longrightarrow>
        requestHandler J H buf c (h, s) = Inr (False, c, h, s))
      \<and> (j_number J (j_field J (j_parse J str) ''type'') = Some CONNECT
          \<and> (j_string J (j_field J (j_parse J str) ''username'') = None
             \<or> j_string J (j_field J (j_parse J str) ''password'') = None) \<longrightarrow>
        requestHandler J H buf c (h, s) = Inl LibraryException))"
  using assms
  by (auto simp: requestHandler_def dispatch_request_def thrown_def split: option.split)

section \<open>Calls without an answer\<close>

text \<open>What the caller's lambda gives when there is no reply.\<close>

fun lost_answer :: "'j json_lib \<Rightarrow> 'u reply_handler \<Rightarrow> ('u, 'j) answer" where
  "lost_answer J (PlainReply u) = PlainAnswer u (network_issue J)"
| "lost_answer J (ConnectReply u) = ConnectAnswer u INVALID_INPUT [] []"
| "lost_answer J (PingReply u) = PingAnswer u NETWORK_ISSUE"
| "lost_answer J (DisconnectReply u) = DisconnectAnswer u NETWORK_ISSUE"

lemma lost_request_done:
  assumes "json_ok J" "failed err"
  shows "request_done J f err b (Some d) (h, s)
    = Inr (h, s\<lparr>p_pool := pool_free (p_pool s) (cb_buffer d), p_answers := p_answers s @ [lost_answer J f]\<rparr>)"
  using assms json_laws[OF assms(1)]
  by (cases f) (simp_all add: request_done_def reply_document_def on_reply_def network_issue_def thrown_def)

text \<open>
  A call to a server that does not answer ends. \<open>sendJson\<close> sends its one datagram as often
  as the retries allow, then calls the caller's lambda once, and the pool has its buffer
  back. A ping or a disconnect reports \<open>NETWORK_ISSUE\<close>; a connect reports \<open>INVALID_INPUT\<close>, since
  the lambda of \<open>connect\<close> looks for the key before it looks at the error.
\<close>

theorem call_times_out:
  assumes J: "json_ok J" and wf: "rpc_wf r" and rdy: "ready lib k v (r_cryptor r)"
    and retry: "ucast (r_retry r) = (of_nat m :: i8)" "2 \<le> m" "m \<le> 127"
    and doc: "j_dump J x = Some req" "length req \<le> 1587"
    and own: "pool_owns 1600 (r_heap r, p_pool (r_client r)) out"
  shows "\<exists>r1 r2 wire. sendJson lib J H r peer x f = Inr r1
    \<and> rpc_run lib (protocol_callbacks J H) r1 (rounds (length (r_blocks r)) (m - 1)) = Inr r2
    \<and> r_sent r2 = r_sent r @ replicate (m - 1) (peer, wire)
    \<and> p_answers (r_client r2) = p_answers (r_client r) @ [lost_answer J f]
    \<and> r_pending r2 = r_pending r \<and> r_blocks r2 = r_blocks r @ [None]
    \<and> pool_owns 1600 (r_heap r2, p_pool (r_client r2)) out"
proof -
  obtain h p b where b: "json_buffer J (r_heap r) (p_pool (r_client r)) x = Inr (h, p, b)"
    "content h b = Inr (frame req)" "buf_wf b" "buf_in h b" "w_pre (win b) = 10"
    "pool_owns 1600 (h, p) (add_mset (b_internal b) out)"
    using json_buffer_spec[OF own doc] by blast
  let ?r = "r\<lparr>r_heap := h, r_client := (r_client r)\<lparr>p_pool := p\<rparr>\<rparr>"
  have pre: "rpc_wf ?r" "ready lib k v (r_cryptor ?r)" "buf_in (r_heap ?r) b" "content (r_heap ?r) b = Inr (frame req)"
      "3 \<le> w_pre (win b)" "ucast (r_retry ?r) = (of_nat m :: i8)"
    using wf rdy b retry by simp_all
  have "m \<le> 128" using retry(3) by simp
  from request_expires[OF pre(1,2) b(3) pre(3-6) retry(2) this, of "protocol_callbacks J H" peer "RequestDone f"]
  obtain r1 wire c where sent: "send lib (protocol_callbacks J H) ?r peer b (RequestDone f) = Inr r1"
      "cb_buffer c = moveFrontBoundary b (- 3)" "\<forall>q l. in_bounds (r_heap r1) q l = in_bounds h q l"
      "heap_wf h \<longrightarrow> heap_wf (r_heap r1)"
    and run: "rpc_run lib (protocol_callbacks J H) r1 (rounds (length (r_blocks r)) (m - 1))
      = rbind (onComplete (protocol_callbacks J H) (RequestDone f) TimedOut None (Some c) (r_heap r1, (r_client r)\<lparr>p_pool := p\<rparr>)) (\<lambda>(h, t).
          Inr (r1\<lparr>r_heap := h, r_client := t, r_blocks := r_blocks r @ [None],
                  r_requesting := smap_erase (<) (cb_id c) (r_requesting r1), r_pending := r_pending r,
                  r_sent := r_sent r @ replicate (m - 1) (peer, wire)\<rparr>))"
    by auto
  have "pool_owns 1600 (r_heap r1, p) (add_mset (b_internal (cb_buffer c)) out)"
    using pool_owns_heap[OF b(6), of "r_heap r1"] sent(2-4) pool_owns_wf[OF b(6)]
      buf_step_frame(1)[of b "MoveFront (- 3)"] by simp
  from pool.give_ok[OF this] have "pool_owns 1600 (r_heap r1, pool_free p (cb_buffer c)) out"
    by (simp add: pool_give_def)
  moreover have "failed TimedOut" by (simp add: failed_def)
  ultimately show ?thesis
    using b(1) sent(1) run lost_request_done[OF J, of TimedOut f None c "r_heap r1" "(r_client r)\<lparr>p_pool := p\<rparr>"]
    by (simp add: sendJson_def protocol_callbacks_def)
qed

section \<open>Replies that come twice\<close>

text \<open>
  Two replies to one call free its buffer twice. When a second datagram with the identifier
  of an answered call arrives before its timer, the completion lambda runs again; the slot is
  then twice on the pool's stack, and the next two buffers the pool hands out are the same.
\<close>

theorem second_reply_frees_again:
  assumes wf: "rpc_wf r" and call: "smap_find (<) pid (r_requesting r) = Some i"
    and d: "get_control r i = Inr d" "cb_onComplete d = Some (RequestDone f)"
    and run: "feed_dispatch lib (protocol_callbacks J H) r peer REPLY pid b = Inr r1"
      "feed_dispatch lib (protocol_callbacks J H) r1 peer' REPLY pid b' = Inr r2"
  shows "\<exists>q p1 p2. available (p_pool (r_client r2)) = q # q # available (p_pool (r_client r))
    \<and> pool_alloc 1600 h (p_pool (r_client r2)) = Inr (h, p1, mkBuffer q 1600)
    \<and> pool_alloc 1600 h p1 = Inr (h, p2, mkBuffer q 1600)"
proof -
  have freed: "p_pool s' = pool_free (p_pool s) (cb_buffer c)"
    if "request_done J f NoError b (Some c) (h, s) = Inr (h', s')" for b c h s h' s'
    using that by (auto simp: request_done_def res_iffs)
  have len: "i < length (r_blocks r)"
    using d(1) by (auto simp: get_control_def split: if_splits)
  from run(1) obtain h1 s1 where 1: "request_done J f NoError (Some b) (Some d) (r_heap r, r_client r) = Inr (h1, s1)"
      "r1 = put_control (r\<lparr>r_heap := h1, r_client := s1\<rparr>) i (d\<lparr>cb_remain := 0\<rparr>)"
    by (auto simp: feed_dispatch_def command_defs call feed_reply_def d call_complete_def protocol_callbacks_def res_iffs)
  have d1: "get_control r1 i = Inr (d\<lparr>cb_remain := 0\<rparr>)" "smap_find (<) pid (r_requesting r1) = Some i"
    using 1(2) len call by (simp_all add: get_control_def put_control_def)
  from run(2) obtain h2 where 2: "request_done J f NoError (Some b') (Some (d\<lparr>cb_remain := 0\<rparr>)) (r_heap r1, r_client r1)
      = Inr (h2, r_client r2)"
    by (auto simp: feed_dispatch_def command_defs d1 feed_reply_def d(2) call_complete_def protocol_callbacks_def
        put_control_def res_iffs)
  have "p_pool (r_client r1) = pool_free (p_pool (r_client r)) (cb_buffer d)"
    using freed[OF 1(1)] 1(2) by (simp add: put_control_def)
  then have "available (p_pool (r_client r2))
      = b_internal (cb_buffer d) # b_internal (cb_buffer d) # available (p_pool (r_client r))"
    using freed[OF 2] by (simp add: pool_free_def)
  then show ?thesis by (simp add: pool_alloc_def)
qed

section \<open>A concrete library and concrete calls\<close>

text \<open>
  A JSON library for the examples: its values are trees, and its text form is the number of a
  document in a fixed list of documents, the ones the examples exchange.
\<close>

datatype document = DNull | DNumber u8 | DString bytes | DObject "(string \<times> document) list"

definition demo_documents :: "document list" where
  "demo_documents =
     [DObject [(''type'', DNumber CONNECT), (''username'', DString [109, 101]), (''password'', DString [112, 119])],
      DObject [(''error'', DNumber SUCCESS), (''key'', DString [1, 2]), (''iv'', DString [3, 4])],
      DObject [(''type'', DNumber PING)], DObject [(''error'', DNumber SUCCESS)]]"

fun index_of :: "'a \<Rightarrow> 'a list \<Rightarrow> nat option" where
  "index_of x [] = None"
| "index_of x (y # ys) = (if x = y then Some 0 else map_option Suc (index_of x ys))"

lemma index_of_nth: "index_of x ys = Some i \<Longrightarrow> i < length ys \<and> ys ! i = x"
  by (induction ys arbitrary: i) (auto split: if_splits)

fun demo_field :: "document \<Rightarrow> string \<Rightarrow> document" where
  "demo_field (DObject fs) k = (case map_of fs k of None \<Rightarrow> DNull | Some x \<Rightarrow> x)"
| "demo_field x k = DNull"

definition demo_json :: "document json_lib" where
  "demo_json =
     \<lparr>j_parse = (\<lambda>s. case s of [b] \<Rightarrow> if unat b < 4 then demo_documents ! unat b else DNull | _ \<Rightarrow> DNull),
      j_dump = (\<lambda>x. map_option (\<lambda>i. [of_nat i]) (index_of x demo_documents)),
      j_is_object = (\<lambda>x. case x of DObject fs \<Rightarrow> True | _ \<Rightarrow> False),
      j_is_integer = (\<lambda>x. case x of DNumber n \<Rightarrow> True | _ \<Rightarrow> False),
      j_is_string = (\<lambda>x. case x of DString s \<Rightarrow> True | _ \<Rightarrow> False),
      j_field = demo_field,
      j_number = (\<lambda>x. case x of DNumber n \<Rightarrow> Some n | _ \<Rightarrow> None),
      j_string = (\<lambda>x. case x of DString s \<Rightarrow> Some s | _ \<Rightarrow> None),
      j_of_number = DNumber, j_of_string = DString, j_object = DObject\<rparr>"

lemma demo_json_ok: "json_ok demo_json"
proof -
  have "j_parse demo_json s = x" if "j_dump demo_json x = Some s" for x s
  proof -
    from that obtain i where i: "index_of x demo_documents = Some i" "s = [of_nat i]"
      by (auto simp: demo_json_def)
    from index_of_nth[OF i(1)] have "i < 4" "demo_documents ! i = x" by (simp_all add: demo_documents_def)
    then show ?thesis using i(2) by (simp add: demo_json_def unat_of_nat)
  qed
  then show ?thesis by (simp add: json_ok_def demo_json_def)
qed

lemma demo_dumps:
  "j_dump demo_json (connect_document demo_json [109, 101] [112, 119]) = Some [0]"
  "j_dump demo_json (key_document demo_json SUCCESS [1, 2] [3, 4]) = Some [1]"
  "j_dump demo_json (j_object demo_json [(''type'', j_of_number demo_json PING)]) = Some [2]"
  "j_dump demo_json (j_object demo_json [(''error'', j_of_number demo_json SUCCESS)]) = Some [3]"
  by (simp_all add: demo_json_def connect_document_def key_document_def demo_documents_def)

definition demo_handlers :: "(nat, nat) handlers" where
  "demo_handlers = \<lparr>onConnect = Some (\<lambda>peer user pass n. ((SUCCESS, [1, 2], [3, 4]), Suc n)),
     onPing = None, onDisconnect = None\<rparr>"

type_synonym demo_protocol_rpc = "(nat, u8 \<times> u8, unit, document, nat) protocol_rpc"

text \<open>A process with an empty pool of chunks of four buffers, and a received datagram in block 0.\<close>

definition demo_process :: "bytes \<Rightarrow> demo_protocol_rpc" where
  "demo_process bs = newRpcProtocol (message_heap bs) demo_cryptor (newPool 4) 0 10"

lemma demo_process_ok:
  "rpc_wf (demo_process bs)" "ready feedback_lib demo_key demo_key (r_cryptor (demo_process bs))"
  "1 < sint (ucast (r_retry (demo_process bs)) :: i8)" "ucast (r_retry (demo_process bs)) = (of_nat 10 :: i8)"
  "pool_owns 1600 (r_heap (demo_process bs), p_pool (r_client (demo_process bs))) {#}"
  "1 = fst (nextId (demo_process bs))" "r_heap (demo_process bs) = message_heap bs"
  "r_blocks (demo_process bs) = []" "r_sent (demo_process bs) = []" "p_answers (r_client (demo_process bs)) = []"
  "p_owner (r_client (demo_process bs)) = 0" "r_cryptor (demo_process bs) = demo_cryptor"
  "r_replying (demo_process bs) = []"
  using demo_ready
  by (simp_all add: demo_process_def newRpcProtocol_def newRpc_wf)
     (simp_all add: newRpc_def pool_owns_def newPool_def slots_def message_heap_def heap_wf_def nextId_def)

theorem protocol_blocks_safe_witness:
  "rpc_step feedback_lib (protocol_callbacks demo_json demo_handlers) (demo_process []) (Feed 5 (mkBuffer (Ptr 0 0) 0))
    \<noteq> Inl UseAfterFree"
proof -
  have "rpc_reach feedback_lib (protocol_callbacks demo_json demo_handlers)
      (newRpcProtocol (message_heap []) demo_cryptor (newPool 4) 0 10) (demo_process [])"
    unfolding demo_process_def by (rule rpc_reach.start)
  from protocol_blocks_safe[OF this] show ?thesis by blast
qed

lemma framed: "frame [b] = [0, 1, b]"
  by (simp add: frame_def bytes16_def)

theorem connect_handled_witness:
  "\<exists>c' h' s'. requestHandler demo_json demo_handlers (mkBuffer (Ptr 0 0) 3)
      \<lparr>cb_remain = 10, cb_endpoint = 5, cb_id = 1, cb_buffer = mkBuffer (Ptr 0 0) 3, cb_onComplete = None\<rparr>
      (message_heap [0, 1, 0], r_client (demo_process [0, 1, 0])) = Inr (True, c', h', s')
    \<and> content h' (cb_buffer c') = Inr [0, 1, 1] \<and> p_owner s' = 1"
proof -
  let ?c = "\<lparr>cb_remain = 10, cb_endpoint = 5, cb_id = 1, cb_buffer = mkBuffer (Ptr 0 0) 3, cb_onComplete = None\<rparr>
    :: (nat, unit completion) control"
  have buf: "buf_wf (mkBuffer (Ptr 0 0) 3)" "buf_in (message_heap [0, 1, 0]) (mkBuffer (Ptr 0 0) 3)"
    "content (message_heap [0, 1, 0]) (mkBuffer (Ptr 0 0) 3) = Inr (frame [0])"
    using received_ok[of "[0, 1, 0]"] by (simp_all add: framed)
  have H: "onConnect demo_handlers = Some (\<lambda>peer user pass n. ((SUCCESS, [1, 2], [3, 4]), Suc n))"
    by (simp add: demo_handlers_def)
  have own: "pool_owns 1600 (message_heap [0, 1, 0], p_pool (r_client (demo_process [0, 1, 0]))) {#}"
    using demo_process_ok(5)[of "[0, 1, 0]"] by (simp add: demo_process_ok)
  have ask: "(\<lambda>peer user pass n. ((SUCCESS, [1, 2], [3, 4]), Suc n)) (cb_endpoint ?c) [109, 101] [112, 119]
      (p_owner (r_client (demo_process [0, 1, 0]))) = ((SUCCESS, [1, 2], [3, 4]), 1)"
    by (simp add: demo_process_ok)
  from connect_handled[OF demo_json_ok buf demo_dumps(1) _ _ H ask demo_dumps(2) _ own]
  show ?thesis by (fastforce simp: framed)
qed

theorem connect_roundtrip_witness:
  "\<exists>r1 sv1. connect feedback_lib demo_json demo_handlers (demo_process []) 6 [109, 101] [112, 119] () = Inr r1
    \<and> feed feedback_lib (protocol_callbacks demo_json demo_handlers)
        (demo_process (packet feedback_lib demo_cryptor REQUEST 1 [0, 1, 0])) 5
        (mkBuffer (Ptr 0 0) (of_nat (length (packet feedback_lib demo_cryptor REQUEST 1 [0, 1, 0])))) = Inr sv1
    \<and> p_owner (r_client sv1) = 1 \<and> r_sent sv1 = [(5, packet feedback_lib demo_cryptor REPLY 1 [0, 1, 1])]
    \<and> (\<exists>r2. feed feedback_lib (protocol_callbacks demo_json demo_handlers)
          (r1\<lparr>r_heap := message_heap (packet feedback_lib demo_cryptor REPLY 1 [0, 1, 1])\<rparr>) 6
          (mkBuffer (Ptr 0 0) (of_nat (length (packet feedback_lib demo_cryptor REPLY 1 [0, 1, 1])))) = Inr r2
        \<and> p_answers (r_client r2) = [ConnectAnswer () SUCCESS [1, 2] [3, 4]])"
proof -
  let ?w = "packet feedback_lib demo_cryptor REQUEST 1 [0, 1, 0]"
    and ?w' = "packet feedback_lib demo_cryptor REPLY 1 [0, 1, 1]"
  let ?sv = "demo_process ?w"
  have H: "onConnect demo_handlers = Some (\<lambda>peer user pass n. ((SUCCESS, [1, 2], [3, 4]), Suc n))"
    by (simp add: demo_handlers_def)
  have ask: "(\<lambda>peer user pass n. ((SUCCESS, [1, 2], [3, 4]), Suc n)) 5 [109, 101] [112, 119] (p_owner (r_client ?sv))
      = ((SUCCESS, [1, 2], [3, 4]), 1)"
    by (simp add: demo_process_ok)
  have lens: "length ?w < 2147483648" "length ?w' < 2147483648"
    using length_packet[OF demo_ready] by simp_all
  have recv: "buf_in (r_heap ?sv) (mkBuffer (Ptr 0 0) (of_nat (length ?w)))"
    "content (r_heap ?sv) (mkBuffer (Ptr 0 0) (of_nat (length ?w)))
      = Inr (packet feedback_lib (r_cryptor (demo_process [])) REQUEST 1 (frame [0]))"
    using received_ok[OF lens(1)] by (simp_all add: demo_process_ok framed)
  have new: "smap_find (<) (IdEndpoint 5 1) (r_replying ?sv) = None"
    by (simp add: demo_process_ok)
  note call = connect_roundtrip[OF demo_json_ok demo_process_ok(2) demo_process_ok(2) demo_process_ok(3)
      demo_process_ok(3) demo_process_ok(5) demo_process_ok(5) demo_dumps(1) _ _ demo_dumps(2) _ _ H ask
      demo_process_ok(6) new received_ok(1)[OF lens(1)] recv, of demo_handlers 6 "()"]
  show ?thesis
    using call received_ok[OF lens(2)]
    by (fastforce simp: demo_process_ok framed)
qed

definition demo_request :: "(nat, unit completion) control" where
  "demo_request = \<lparr>cb_remain = 10, cb_endpoint = 5, cb_id = 1, cb_buffer = mkBuffer (Ptr 0 0) 0,
     cb_onComplete = Some (RequestDone (PingReply ()))\<rparr>"

definition ping_handlers :: "(nat, nat) handlers" where
  "ping_handlers = demo_handlers\<lparr>onPing := Some (\<lambda>peer n. (SUCCESS, Suc n))\<rparr>"

theorem status_roundtrip_witness:
  "\<exists>r1 sv1 r2. ping feedback_lib demo_json demo_handlers (demo_process []) 6 () = Inr r1
    \<and> feed feedback_lib (protocol_callbacks demo_json ping_handlers)
        (demo_process (packet feedback_lib demo_cryptor REQUEST 1 [0, 1, 2])) 5
        (mkBuffer (Ptr 0 0) (of_nat (length (packet feedback_lib demo_cryptor REQUEST 1 [0, 1, 2])))) = Inr sv1
    \<and> r_sent sv1 = [(5, packet feedback_lib demo_cryptor REPLY 1 [0, 1, 3])]
    \<and> feed feedback_lib (protocol_callbacks demo_json demo_handlers)
          (r1\<lparr>r_heap := message_heap (packet feedback_lib demo_cryptor REPLY 1 [0, 1, 3])\<rparr>) 6
          (mkBuffer (Ptr 0 0) (of_nat (length (packet feedback_lib demo_cryptor REPLY 1 [0, 1, 3])))) = Inr r2
    \<and> p_answers (r_client r2) = [PingAnswer () SUCCESS]"
proof -
  let ?w = "packet feedback_lib demo_cryptor REQUEST 1 [0, 1, 2]"
    and ?w' = "packet feedback_lib demo_cryptor REPLY 1 [0, 1, 3]"
  let ?sv = "demo_process ?w"
  have H: "(if False then onDisconnect ping_handlers else onPing ping_handlers) = Some (\<lambda>peer n. (SUCCESS, Suc n))"
    by (simp add: ping_handlers_def)
  have ask: "(\<lambda>peer n. (SUCCESS, Suc n)) (5 :: nat) (p_owner (r_client ?sv)) = (SUCCESS, 1)"
    by (simp add: demo_process_ok)
  have req: "j_dump demo_json (j_object demo_json [(''type'', j_of_number demo_json (if False then DISCONNECT else PING))]) = Some [2]"
    using demo_dumps(3) by simp
  have lens: "length ?w < 2147483648" "length ?w' < 2147483648"
    using length_packet[OF demo_ready] by simp_all
  have recv: "buf_in (r_heap ?sv) (mkBuffer (Ptr 0 0) (of_nat (length ?w)))"
    "content (r_heap ?sv) (mkBuffer (Ptr 0 0) (of_nat (length ?w)))
      = Inr (packet feedback_lib (r_cryptor (demo_process [])) REQUEST 1 (frame [2]))"
    using received_ok[OF lens(1)] by (simp_all add: demo_process_ok framed)
  have new: "smap_find (<) (IdEndpoint 5 1) (r_replying ?sv) = None"
    by (simp add: demo_process_ok)
  note call = status_roundtrip[OF demo_json_ok demo_process_ok(2) demo_process_ok(2) demo_process_ok(3)
      demo_process_ok(3) demo_process_ok(5) demo_process_ok(5) req _ _ demo_dumps(4) _ _ H ask
      demo_process_ok(6) new received_ok(1)[OF lens(1)] recv, of demo_handlers 6 "()"]
  show ?thesis
    using call received_ok[OF lens(2)]
    by (fastforce simp: demo_process_ok framed)
qed

lemma read_nothing: "readStringFromFront (message_heap []) (mkBuffer (Ptr 0 0) 0) = Inr (mkBuffer (Ptr 0 0) 0, [])"
  using readStringFromFront_nothing[OF received_ok[of "[]"]] by simp

theorem bad_request_witness:
  "requestHandler demo_json demo_handlers (mkBuffer (Ptr 0 0) 0) demo_request (message_heap [], r_client (demo_process []))
    = Inr (False, demo_request, message_heap [], r_client (demo_process []))"
  using bad_request[OF read_nothing, of demo_json demo_handlers demo_request "r_client (demo_process [])"]
  by (simp add: demo_json_def)

theorem call_times_out_witness:
  "\<exists>r1 r2. ping feedback_lib demo_json demo_handlers (demo_process []) 6 () = Inr r1
    \<and> rpc_run feedback_lib (protocol_callbacks demo_json demo_handlers) r1 (rounds 0 9) = Inr r2
    \<and> length (r_sent r2) = 9 \<and> p_answers (r_client r2) = [PingAnswer () NETWORK_ISSUE]"
proof -
  have "2 \<le> (10 :: nat)" "(10 :: nat) \<le> 127" "length [2 :: u8] \<le> 1587" by simp_all
  from call_times_out[where H = demo_handlers and peer = 6 and f = "PingReply ()" and r = "demo_process []",
      OF demo_json_ok demo_process_ok(1,2,4) this(1,2) demo_dumps(3) this(3) demo_process_ok(5)]
  show ?thesis by (auto simp: ping_def demo_process_ok)
qed

text \<open>A process with one ping under way, after \<open>n\<close> empty replies to it.\<close>

definition demo_pinging :: "nat \<Rightarrow> demo_protocol_rpc" where
  "demo_pinging n = (demo_process [])\<lparr>r_blocks := [Some (demo_request\<lparr>cb_remain := (if n = 0 then 10 else 0)\<rparr>)],
     r_requesting := [(1, 0)], r_pending := [RequestTimer 0],
     r_client := \<lparr>p_pool = (newPool 4)\<lparr>available := replicate n (Ptr 0 0)\<rparr>,
       p_answers = replicate n (PingAnswer () NETWORK_ISSUE), p_owner = 0\<rparr>\<rparr>"

lemma demo_pinging_ok:
  "rpc_wf (demo_pinging 0)" "smap_find (<) 1 (r_requesting (demo_pinging n)) = Some 0"
  "get_control (demo_pinging 0) 0 = Inr demo_request" "cb_onComplete demo_request = Some (RequestDone (PingReply ()))"
  by (auto simp: demo_pinging_def demo_request_def rpc_wf_def smap_wf_def blocks_inv_def block_at_def kind_def
      demo_process_def newRpcProtocol_def newRpc_def equivalent_def get_control_def)

lemma demo_ping_answer:
  "request_done demo_json (PingReply ()) NoError (Some (mkBuffer (Ptr 0 0) 0)) (Some d) (message_heap [], s)
    = Inr (message_heap [], s\<lparr>p_pool := pool_free (p_pool s) (cb_buffer d),
        p_answers := p_answers s @ [PingAnswer () NETWORK_ISSUE]\<rparr>)"
proof -
  have "reply_document demo_json (message_heap []) NoError (Some (mkBuffer (Ptr 0 0) 0)) = Inr (network_issue demo_json)"
    by (simp add: reply_document_def failed_def read_nothing) (simp add: demo_json_def)
  moreover have "on_reply demo_json (PingReply ()) (network_issue demo_json) = Inr (PingAnswer () NETWORK_ISSUE)"
    by (simp add: on_reply_def network_issue_def demo_json_def thrown_def)
  ultimately show ?thesis by (simp add: request_done_def)
qed

lemma demo_ping_reply:
  "feed_dispatch feedback_lib (protocol_callbacks demo_json demo_handlers) (demo_pinging n) 6 REPLY 1
     (mkBuffer (Ptr 0 0) 0) = Inr (demo_pinging (Suc n))"
  by (simp add: feed_dispatch_def command_defs demo_pinging_ok feed_reply_def)
     (simp add: demo_pinging_def demo_process_def newRpcProtocol_def newRpc_def get_control_def put_control_def
      call_complete_def protocol_callbacks_def demo_request_def demo_ping_answer pool_free_def,
      simp add: mkBuffer_def replicate_append_same)

theorem second_reply_frees_again_witness:
  "\<exists>q p1 p2. pool_alloc 1600 (message_heap []) (p_pool (r_client (demo_pinging 2)))
      = Inr (message_heap [], p1, mkBuffer q 1600)
    \<and> pool_alloc 1600 (message_heap []) p1 = Inr (message_heap [], p2, mkBuffer q 1600)"
  using second_reply_frees_again[OF demo_pinging_ok(1,2,3,4) demo_ping_reply demo_ping_reply, of "message_heap []"]
  by (auto simp: numeral_2_eq_2)

end
