(* ===== verification/TunnelServer.thy ===== *)
theory TunnelServer
  imports Handshake Napt Session Tcp Udp
begin

text \<open>
  \<^verbatim>\<open>server/TunnelServer.h\<close> and \<^verbatim>\<open>server/TunnelServer.cc\<close>: the server, which moves packets
  between its clients' datagrams and the raw socket. The member functions of the class are
  the handlers of the event loop; the sockets themselves are outside, and what is written to
  them is recorded.
\<close>

section \<open>State\<close>

record server_config =
  cf_listenPort :: u16
  cf_portFrom :: u16
  cf_portTo :: u16
  cf_maxSessions :: u8
  cf_key :: bytes
  cf_iv :: bytes

text \<open>
  The server. The memory and the buffer pool it shares with its \<open>_rpc\<close> are those of that
  object. \<open>sv_receiving\<close> is the buffer of the receive in progress, \<open>sv_sending\<close> the buffers of
  the sends in progress, \<open>sv_raw\<close> and \<open>sv_out\<close> what has been written to the raw socket and
  sent to clients. \<open>sv_now\<close> is the clock and \<open>sv_random\<close> the state of the random pool.
\<close>

type_synonym ('ep, 'c, 'j) server_rpc = "('ep, 'c, unit, 'j, unit) protocol_rpc"

record ('ep, 'c, 'j, 'r) server =
  sv_config :: server_config
  sv_tcpNapt :: "u32 napt"
  sv_udpNapt :: "u32 napt"
  sv_sessions :: "('ep, 'c) session list"
  sv_rpc :: "('ep, 'c, 'j) server_rpc"
  sv_receiveEp :: 'ep
  sv_running :: bool
  sv_receiving :: "buffer option"
  sv_sending :: "buffer list"
  sv_ifAddress :: u32
  sv_raw :: "bytes list"
  sv_out :: "('ep \<times> bytes) list"
  sv_now :: nat
  sv_random :: 'r

definition sv_heap :: "('ep, 'c, 'j, 'r) server \<Rightarrow> heap" where
  "sv_heap s = r_heap (sv_rpc s)"

definition set_heap :: "('ep, 'c, 'j, 'r) server \<Rightarrow> heap \<Rightarrow> ('ep, 'c, 'j, 'r) server" where
  "set_heap s h = s\<lparr>sv_rpc := (sv_rpc s)\<lparr>r_heap := h\<rparr>\<rparr>"

definition sv_pool :: "('ep, 'c, 'j, 'r) server \<Rightarrow> pool" where
  "sv_pool s = p_pool (r_client (sv_rpc s))"

definition set_pool :: "('ep, 'c, 'j, 'r) server \<Rightarrow> pool \<Rightarrow> ('ep, 'c, 'j, 'r) server" where
  "set_pool s p = s\<lparr>sv_rpc := (sv_rpc s)\<lparr>r_client := (r_client (sv_rpc s))\<lparr>p_pool := p\<rparr>\<rparr>\<rparr>"

text \<open>
  The handlers of \<open>_rpc\<close>: nothing in the repository assigns \<open>onConnect\<close>, \<open>onPing\<close> or
  \<open>onDisconnect\<close>.
\<close>

definition unassigned :: "('ep, 't) handlers" where
  "unassigned = \<lparr>onConnect = None, onPing = None, onDisconnect = None\<rparr>"

section \<open>Construction\<close>

text \<open>
  \<open>sessions(config.maxSessions)\<close>: that many default-constructed sessions, each with a random
  cryptor. \<open>blank\<close> is a session as the constructor leaves it, up to its cryptor.
\<close>

fun new_sessions :: "'c cryptopp \<Rightarrow> ('r \<Rightarrow> nat \<Rightarrow> bytes \<times> 'r) \<Rightarrow> ('c cryptor \<Rightarrow> ('ep, 'c) session) \<Rightarrow> nat \<Rightarrow> 'r \<Rightarrow>
    (('ep, 'c) session list \<times> 'r) res" where
  "new_sessions lib gen blank 0 r = Inr ([], r)"
| "new_sessions lib gen blank (Suc n) r =
     rbind (randomCryptor lib gen r) (\<lambda>(c, r1).
     rbind (new_sessions lib gen blank n r1) (\<lambda>(ss, r2). Inr (blank c # ss, r2)))"

definition newServer :: "'c cryptopp \<Rightarrow> ('r \<Rightarrow> nat \<Rightarrow> bytes \<times> 'r) \<Rightarrow> server_config \<Rightarrow> heap \<Rightarrow> pool \<Rightarrow> 'ep \<Rightarrow>
    u16 \<Rightarrow> u8 \<Rightarrow> u32 \<Rightarrow> nat \<Rightarrow> 'r \<Rightarrow> ('ep, 'c, 'j, 'r) server res" where
  "newServer lib gen cf h p ep cid err addr now r =
     rbind (new_sessions lib gen (\<lambda>c. newSession c ep cid err now) (unat (cf_maxSessions cf)) r) (\<lambda>(ss, r').
     rbind (newCryptor lib (cf_key cf) (cf_iv cf)) (\<lambda>c.
       Inr \<lparr>sv_config = cf, sv_tcpNapt = newNapt (cf_portFrom cf) (cf_portTo cf),
            sv_udpNapt = newNapt (cf_portFrom cf) (cf_portTo cf), sv_sessions = ss,
            sv_rpc = newRpcProtocol h c p () 10, sv_receiveEp = ep, sv_running = False,
            sv_receiving = None, sv_sending = [],
            sv_ifAddress = addr, sv_raw = [], sv_out = [], sv_now = now, sv_random = r'\<rparr>))"

text \<open>\<open>start\<close>, and the end of \<open>_onSocketReceive\<close>: the next buffer to receive into.\<close>

definition arm_receive :: "('ep, 'c, 'j, 'r) server \<Rightarrow> ('ep, 'c, 'j, 'r) server res" where
  "arm_receive s =
     rbind (pool_alloc 1600 (sv_heap s) (sv_pool s)) (\<lambda>(h, p, b).
       Inr ((set_pool (set_heap s h) p)\<lparr>sv_receiving := Some (moveFrontBoundary b 50)\<rparr>))"

definition get_session :: "('ep, 'c, 'j, 'r) server \<Rightarrow> nat \<Rightarrow> ('ep, 'c) session res" where
  "get_session s i = (if i < length (sv_sessions s) then Inr (sv_sessions s ! i) else Inl OutOfBounds)"

section \<open>Packets of the clients\<close>

text \<open>
  The TCP and the UDP branch of \<open>_processTransmit\<close>. A null connection is dereferenced.
\<close>

definition rewrite_tcp :: "('ep, 'c, 'j, 'r) server \<Rightarrow> u16 \<Rightarrow> ip4 \<Rightarrow> ('ep, 'c, 'j, 'r) server res" where
  "rewrite_tcp s cid ip =
     (let h = sv_heap s in
      rbind (mkTcp h ip) (\<lambda>tcp.
      rbind (tcp_sourcePort h tcp) (\<lambda>sport.
      rbind (ip4_destIP h ip) (\<lambda>dest.
      rbind (tcp_destPort h tcp) (\<lambda>dport.
      rbind (createIfNotExist (sv_tcpNapt s) cid sport dest dport) (\<lambda>(n, conn).
        case conn of
          None \<Rightarrow> Inl NullPointer
        | Some c \<Rightarrow>
            rbind (deref_conn n c) (\<lambda>x.
            rbind (tcp_set_sourcePort h tcp (clientPort x)) (\<lambda>h1.
            rbind (ip4_set_sourceIP h1 ip (sv_ifAddress s)) (\<lambda>h2.
            rbind (tcp_calculateChecksumInplace h2 tcp) (\<lambda>h3.
            rbind (ip4_calculateChecksumInplace h3 ip) (\<lambda>h4.
              Inr ((set_heap s h4)\<lparr>sv_tcpNapt := n\<rparr>))))))))))))"

definition rewrite_udp :: "('ep, 'c, 'j, 'r) server \<Rightarrow> u16 \<Rightarrow> ip4 \<Rightarrow> ('ep, 'c, 'j, 'r) server res" where
  "rewrite_udp s cid ip =
     (let h = sv_heap s in
      rbind (mkUdp h ip) (\<lambda>udp.
      rbind (udp_sourcePort h udp) (\<lambda>sport.
      rbind (ip4_destIP h ip) (\<lambda>dest.
      rbind (udp_destPort h udp) (\<lambda>dport.
      rbind (createIfNotExist (sv_udpNapt s) cid sport dest dport) (\<lambda>(n, conn).
        case conn of
          None \<Rightarrow> Inl NullPointer
        | Some c \<Rightarrow>
            rbind (deref_conn n c) (\<lambda>x.
            rbind (udp_set_sourcePort h udp (clientPort x)) (\<lambda>h1.
            rbind (ip4_set_sourceIP h1 ip (sv_ifAddress s)) (\<lambda>h2.
            rbind (udp_set_checksum h2 udp 0) (\<lambda>h3.
            rbind (ip4_calculateChecksumInplace h3 ip) (\<lambda>h4.
              Inr ((set_heap s h4)\<lparr>sv_udpNapt := n\<rparr>))))))))))))"

text \<open>The four tests at the start of \<open>_processTransmit\<close>, in their order.\<close>

definition transmit_allowed :: "('ep, 'c, 'j, 'r) server \<Rightarrow> u16 \<Rightarrow> ip4 \<Rightarrow> bool res" where
  "transmit_allowed s cid ip =
     (if unat cid \<ge> length (sv_sessions s) then Inr False
      else
        let ss = sv_sessions s ! unat cid in
        if s_endpoint ss \<noteq> sv_receiveEp s \<or> \<not> isConnected ss then Inr False
        else
          rbind (ip4_calculateChecksum (sv_heap s) ip) (\<lambda>sum.
          rbind (ip4_checksum (sv_heap s) ip) (\<lambda>stored. Inr (sum = stored))))"

definition processTransmit :: "'c cryptopp \<Rightarrow> ('ep, 'c, 'j, 'r) server \<Rightarrow> buffer \<Rightarrow> ('ep, 'c, 'j, 'r) server res" where
  "processTransmit lib s buf =
     rbind (load16 (sv_heap s) (b_data buf)) (\<lambda>cid.
       let ip = mkIp4 (padd (b_data buf) 2) (b_size buf - 2) in
       rbind (transmit_allowed s cid ip) (\<lambda>ok.
         if \<not> ok then Inr s
         else
           let ss = sv_sessions s ! unat cid in
           rbind (decrypt lib (sv_heap s) (s_cryptor ss) (padd (b_data buf) 2) (b_size buf - 2)) (\<lambda>(h, c).
             let ss' = updateTransmit (sv_now s) (ss\<lparr>s_cryptor := c\<rparr>) (b_size buf + 1);
                 s1 = (set_heap s h)\<lparr>sv_sessions := (sv_sessions s)[unat cid := ss']\<rparr>
             in rbind (ip4_protocol h ip) (\<lambda>proto.
                  if proto \<noteq> TCP \<and> proto \<noteq> UDP then Inr s1
                  else
                    rbind (if proto = TCP then rewrite_tcp s1 cid ip else rewrite_udp s1 cid ip) (\<lambda>s2.
                    rbind (load_bytes (sv_heap s2) (padd (b_data buf) 2) (unat (b_size buf - 2))) (\<lambda>bs.
                      Inr (s2\<lparr>sv_raw := sv_raw s2 @ [bs]\<rparr>)))))))"

text \<open>
  \<open>_onSocketReceive\<close>. The command byte is taken off the buffer before \<open>feed\<close> gets it. After
  an error no new receive is started.
\<close>

definition free_buffer :: "('ep, 'c, 'j, 'r) server \<Rightarrow> buffer \<Rightarrow> ('ep, 'c, 'j, 'r) server" where
  "free_buffer s b = set_pool s (pool_free (sv_pool s) b)"

definition onSocketReceive :: "'c cryptopp \<Rightarrow> 'j json_lib \<Rightarrow> ('ep::linorder, 'c, 'j, 'r) server \<Rightarrow> error_code \<Rightarrow> nat \<Rightarrow>
    buffer \<Rightarrow> ('ep, 'c, 'j, 'r) server res" where
  "onSocketReceive lib J s err transfered buf =
     (if failed err then Inr (free_buffer s buf)
      else
        rbind (load8 (sv_heap s) (b_data buf)) (\<lambda>command.
          let b = moveFrontBoundary (setSize buf (of_nat transfered)) 1 in
          rbind (if command = TRANSMIT then processTransmit lib s b
                 else if command = REPLY \<or> command = REQUEST then
                   rbind (feed lib (protocol_callbacks J unassigned) (sv_rpc s) (sv_receiveEp s) b) (\<lambda>r.
                     Inr (s\<lparr>sv_rpc := r\<rparr>))
                 else Inr s) (\<lambda>s1. arm_receive (free_buffer s1 b))))"

section \<open>Packets of the servers\<close>

text \<open>
  \<open>_rawSocketPacketHandler\<close>: the connection of an answer, whose destination port becomes the
  client's.
\<close>

definition answer_client :: "('ep, 'c, 'j, 'r) server \<Rightarrow> u32 napt \<Rightarrow> nat option \<Rightarrow> (u16 \<Rightarrow> heap res) \<Rightarrow>
    (u16 \<times> heap) option res" where
  "answer_client s n conn set_port =
     (case conn of
        None \<Rightarrow> Inr None
      | Some c \<Rightarrow>
          rbind (deref_conn n c) (\<lambda>x.
          rbind (get_session s (unat (clientID x))) (\<lambda>ss.
            if \<not> isConnected ss then Inr None
            else rbind (set_port (clientPort x)) (\<lambda>h. Inr (Some (clientID x, h))))))"

definition answer_target :: "('ep, 'c, 'j, 'r) server \<Rightarrow> ip4 \<Rightarrow> (u16 \<times> heap) option res" where
  "answer_target s ip =
     (let h = sv_heap s in
      rbind (ip4_protocol h ip) (\<lambda>proto.
        if proto = TCP then
          rbind (mkTcp h ip) (\<lambda>tcp.
          rbind (ip4_sourceIP h ip) (\<lambda>src.
          rbind (tcp_sourcePort h tcp) (\<lambda>sport.
          rbind (tcp_destPort h tcp) (\<lambda>dport.
            answer_client s (sv_tcpNapt s) (find_server (sv_tcpNapt s) src sport dport) (tcp_set_destPort h tcp)))))
        else if proto = UDP then
          rbind (mkUdp h ip) (\<lambda>udp.
          rbind (ip4_sourceIP h ip) (\<lambda>src.
          rbind (udp_sourcePort h udp) (\<lambda>sport.
          rbind (udp_destPort h udp) (\<lambda>dport.
            answer_client s (sv_udpNapt s) (find_server (sv_udpNapt s) src sport dport) (udp_set_destPort h udp)))))
        else Inr None))"

definition rawSocketPacketHandler :: "'c cryptopp \<Rightarrow> ('ep, 'c, 'j, 'r) server \<Rightarrow> ptr \<Rightarrow> u32 \<Rightarrow>
    ('ep, 'c, 'j, 'r) server res" where
  "rawSocketPacketHandler lib s data len =
     rbind (answer_target s (mkIp4 data len)) (\<lambda>target.
       case target of
         None \<Rightarrow> Inr s
       | Some (cid, h) \<Rightarrow>
           rbind (pool_alloc 1600 h (sv_pool s)) (\<lambda>(h1, p, b).
             let b1 = moveFrontBoundary b 10 in
             rbind (store8 h1 (b_data b1) TRANSMIT) (\<lambda>h2.
               let b2 = setSize b1 (len + 1) in
               rbind (get_session s (unat cid)) (\<lambda>ss.
               rbind (encryptTo lib h2 (s_cryptor ss) data (padd (b_data b2) 1) len) (\<lambda>(h3, c).
               rbind (load_bytes h3 (b_data b2) (unat (b_size b2))) (\<lambda>bs.
                 Inr ((set_pool (set_heap s h3) p)
                   \<lparr>sv_sessions := (sv_sessions s)[unat cid := ss\<lparr>s_cryptor := c\<rparr>],
                    sv_sending := sv_sending s @ [b2],
                    sv_out := sv_out s @ [(s_endpoint ss, bs)]\<rparr>)))))))"

section \<open>Sessions\<close>

text \<open>
  \<open>sessions.push_back(Session())\<close>: the new session is copied into the vector, and when the
  vector grows (\<open>grow\<close>, the choice of the library) so are the others; a copied session has a
  cryptor made anew of its key and vector.
\<close>

definition copySession :: "'c cryptopp \<Rightarrow> ('ep, 'c) session \<Rightarrow> ('ep, 'c) session res" where
  "copySession lib s = rbind (copyCryptor lib (s_cryptor s)) (\<lambda>c. Inr (s\<lparr>s_cryptor := c\<rparr>))"

fun copySessions :: "'c cryptopp \<Rightarrow> ('ep, 'c) session list \<Rightarrow> ('ep, 'c) session list res" where
  "copySessions lib [] = Inr []"
| "copySessions lib (s # ss) =
     rbind (copySession lib s) (\<lambda>s'. rbind (copySessions lib ss) (\<lambda>ss'. Inr (s' # ss')))"

definition push_session :: "'c cryptopp \<Rightarrow> bool \<Rightarrow> ('ep, 'c) session list \<Rightarrow> ('ep, 'c) session \<Rightarrow>
    ('ep, 'c) session list res" where
  "push_session lib grow ss s =
     rbind (copySession lib s) (\<lambda>s'.
     rbind (if grow then copySessions lib ss else Inr ss) (\<lambda>ss'. Inr (ss' @ [s'])))"

text \<open>
  The loop of \<open>_rpcConnectHandler\<close>, which goes on after it has found an idle session. The
  index is kept in an \<open>int16_t\<close>.
\<close>

definition last_idle :: "('ep, 'c) session list \<Rightarrow> u16" where
  "last_idle ss = fold (\<lambda>i found. if isIdle (ss ! i) then of_nat i else found) [0..<length ss] (- 1)"

text \<open>\<open>sessions[id]\<close> for a signed index: a negative one is a large \<open>size_t\<close>.\<close>

definition session_index :: "('ep, 'c) session list \<Rightarrow> u16 \<Rightarrow> nat res" where
  "session_index ss i =
     (if 0 \<le> sint i \<and> nat (sint i) < length ss then Inr (nat (sint i)) else Inl OutOfBounds)"

text \<open>The name and the password the handler compares with.\<close>

definition user_name :: bytes where "user_name = map of_char ''zxl''"
definition user_password :: bytes where "user_password = map of_char ''457348''"

definition pick_session :: "'c cryptopp \<Rightarrow> ('r \<Rightarrow> nat \<Rightarrow> bytes \<times> 'r) \<Rightarrow> ('c cryptor \<Rightarrow> ('ep, 'c) session) \<Rightarrow> bool \<Rightarrow>
    ('ep, 'c, 'j, 'r) server \<Rightarrow> (u16 \<times> ('ep, 'c) session list \<times> 'r) res" where
  "pick_session lib gen blank grow s =
     (let found = last_idle (sv_sessions s) in
      if found = - 1 then
        rbind (randomCryptor lib gen (sv_random s)) (\<lambda>(c, r).
        rbind (push_session lib grow (sv_sessions s) (blank c)) (\<lambda>ss.
          Inr (of_nat (length (sv_sessions s)), ss, r)))
      else Inr (found, sv_sessions s, sv_random s))"

definition rpcConnectHandler :: "'c cryptopp \<Rightarrow> ('r \<Rightarrow> nat \<Rightarrow> bytes \<times> 'r) \<Rightarrow> ('c cryptor \<Rightarrow> ('ep, 'c) session) \<Rightarrow> bool \<Rightarrow>
    ('ep, 'c, 'j, 'r) server \<Rightarrow> 'ep \<Rightarrow> bytes \<Rightarrow> bytes \<Rightarrow>
    ((u8 \<times> bytes \<times> bytes) \<times> ('ep, 'c, 'j, 'r) server) res" where
  "rpcConnectHandler lib gen blank grow s peer name password =
     (if name = user_name \<and> password = user_password then
        rbind (pick_session lib gen blank grow s) (\<lambda>(id, ss, r).
        rbind (session_index ss id) (\<lambda>i.
        rbind (randomCryptor lib gen r) (\<lambda>(c, r').
          let ss' = ss[i := resetSession c (sv_now s) (ss ! i) id peer] in
          Inr ((SUCCESS, c_key c, c_iv c), s\<lparr>sv_sessions := ss', sv_random := r'\<rparr>))))
      else Inr ((WRONG_CREDENTIAL, [], []), s))"

definition connected_of :: "('ep, 'c) session list \<Rightarrow> 'ep \<Rightarrow> nat option" where
  "connected_of ss peer = find (\<lambda>i. s_endpoint (ss ! i) = peer \<and> isConnected (ss ! i)) [0..<length ss]"

definition rpcPingHandler :: "('ep, 'c, 'j, 'r) server \<Rightarrow> 'ep \<Rightarrow> u8 \<times> ('ep, 'c, 'j, 'r) server" where
  "rpcPingHandler s peer =
     (case connected_of (sv_sessions s) peer of
        None \<Rightarrow> (NOT_CONNECTED, s)
      | Some i \<Rightarrow>
          (SUCCESS, s\<lparr>sv_sessions := (sv_sessions s)[i := updateTransmit (sv_now s) (sv_sessions s ! i) 0]\<rparr>))"

definition rpcDisconnectHandler :: "('ep, 'c, 'j, 'r) server \<Rightarrow> 'ep \<Rightarrow> u8 \<times> ('ep, 'c, 'j, 'r) server" where
  "rpcDisconnectHandler s peer =
     (case connected_of (sv_sessions s) peer of
        None \<Rightarrow> (NOT_CONNECTED, s)
      | Some i \<Rightarrow>
          (SUCCESS, s\<lparr>sv_sessions := (sv_sessions s)[i := (sv_sessions s ! i)\<lparr>s_status := IDLE\<rparr>]\<rparr>))"

text \<open>\<open>_removeSession\<close>: the test lets the length of the vector through.\<close>

definition removeSession :: "('ep, 'c, 'j, 'r) server \<Rightarrow> u16 \<Rightarrow> ('ep, 'c, 'j, 'r) server res" where
  "removeSession s cid =
     (if unat cid \<le> length (sv_sessions s) then
        rbind (get_session s (unat cid)) (\<lambda>ss.
        rbind (removeClient (sv_tcpNapt s) (ucast cid)) (\<lambda>tcp.
        rbind (removeClient (sv_udpNapt s) (ucast cid)) (\<lambda>udp.
          Inr (s\<lparr>sv_sessions := (sv_sessions s)[unat cid := ss\<lparr>s_status := IDLE\<rparr>],
                 sv_tcpNapt := tcp, sv_udpNapt := udp\<rparr>))))
      else Inr s)"

section \<open>The event loop\<close>

text \<open>\<open>start\<close>, given the address of the interface that the raw socket has chosen, and \<open>stop\<close>.\<close>

definition start_server :: "('ep, 'c, 'j, 'r) server \<Rightarrow> u32 \<Rightarrow> ('ep, 'c, 'j, 'r) server res" where
  "start_server s addr =
     rbind (arm_receive (s\<lparr>sv_ifAddress := addr\<rparr>)) (\<lambda>s'. Inr (s'\<lparr>sv_running := True\<rparr>))"

definition stop_server :: "('ep, 'c, 'j, 'r) server \<Rightarrow> ('ep, 'c, 'j, 'r) server" where
  "stop_server s = s\<lparr>sv_running := False\<rparr>"

text \<open>
  What happens between two handlers, and the handler that runs then: a datagram has been put
  into the buffer of the receive in progress (cut at its size) with the address of its sender
  in \<open>_receiveEp\<close>, or that receive has failed; the raw socket has a packet; a send to a client
  has ended; an operation of \<open>_rpc\<close> has ended; or the clock has gone on.
\<close>

datatype 'ep server_event =
    Datagram 'ep bytes
  | ReceiveFailed error_code
  | RawPacket bytes
  | SendDone nat
  | RpcDone task error_code
  | Tick nat

definition receive_datagram :: "'c cryptopp \<Rightarrow> 'j json_lib \<Rightarrow> ('ep::linorder, 'c, 'j, 'r) server \<Rightarrow> buffer \<Rightarrow> 'ep \<Rightarrow>
    bytes \<Rightarrow> ('ep, 'c, 'j, 'r) server res" where
  "receive_datagram lib J s b peer bs =
     (let xs = take (unat (b_size b)) bs in
      rbind (store_bytes (sv_heap s) (b_data b) xs) (\<lambda>h.
        onSocketReceive lib J ((set_heap s h)\<lparr>sv_receiveEp := peer, sv_receiving := None\<rparr>) NoError (length xs) b))"

definition receive_packet :: "'c cryptopp \<Rightarrow> ('ep, 'c, 'j, 'r) server \<Rightarrow> bytes \<Rightarrow> ('ep, 'c, 'j, 'r) server res" where
  "receive_packet lib s bs =
     (let (h, p) = heap_new (sv_heap s) (length bs) in
      rbind (store_bytes h p bs) (\<lambda>h'. rawSocketPacketHandler lib (set_heap s h') p (of_nat (length bs))))"

definition server_step :: "'c cryptopp \<Rightarrow> 'j json_lib \<Rightarrow> ('ep::linorder, 'c, 'j, 'r) server \<Rightarrow> 'ep server_event \<Rightarrow>
    ('ep, 'c, 'j, 'r) server res" where
  "server_step lib J s e =
     (if \<not> sv_running s then Inr s
      else case e of
        Datagram peer bs \<Rightarrow>
          (case sv_receiving s of None \<Rightarrow> Inr s | Some b \<Rightarrow> receive_datagram lib J s b peer bs)
      | ReceiveFailed err \<Rightarrow>
          (case sv_receiving s of
             None \<Rightarrow> Inr s
           | Some b \<Rightarrow> if failed err then onSocketReceive lib J (s\<lparr>sv_receiving := None\<rparr>) err 0 b else Inr s)
      | RawPacket bs \<Rightarrow> receive_packet lib s bs
      | SendDone k \<Rightarrow>
          if k < length (sv_sending s)
          then Inr ((free_buffer s (sv_sending s ! k))
                 \<lparr>sv_sending := take k (sv_sending s) @ drop (Suc k) (sv_sending s)\<rparr>)
          else Inr s
      | RpcDone t err \<Rightarrow>
          rbind (rpc_step lib (protocol_callbacks J unassigned) (sv_rpc s) (Complete t err)) (\<lambda>r.
            Inr (s\<lparr>sv_rpc := r\<rparr>))
      | Tick now \<Rightarrow> Inr (s\<lparr>sv_now := now\<rparr>))"

inductive server_reach :: "'c cryptopp \<Rightarrow> 'j json_lib \<Rightarrow> ('ep::linorder, 'c, 'j, 'r) server \<Rightarrow>
    ('ep, 'c, 'j, 'r) server \<Rightarrow> bool" for lib J s0 where
  init: "server_reach lib J s0 s0"
| event: "server_reach lib J s0 s \<Longrightarrow> server_step lib J s e = Inr s' \<Longrightarrow> server_reach lib J s0 s'"
| halt: "server_reach lib J s0 s \<Longrightarrow> server_reach lib J s0 (stop_server s)"

end
