(* ===== verification/ServerSafety.thy ===== *)
theory ServerSafety
  imports TunnelServer
begin

text \<open>
  What the server of \<^verbatim>\<open>server/TunnelServer.cc\<close> does for every sequence of events: an invariant of
  its event loop, and from it what a started server can and cannot do.
\<close>

section \<open>The accessors\<close>

lemma server_access [simp]:
  "sv_heap (set_heap s h) = h" "sv_heap (set_pool s p) = sv_heap s"
  "sv_pool (set_pool s p) = p" "sv_pool (set_heap s h) = sv_pool s"
  "sv_heap (s\<lparr>sv_sessions := x\<rparr>) = sv_heap s" "sv_pool (s\<lparr>sv_sessions := x\<rparr>) = sv_pool s"
  "sv_heap (s\<lparr>sv_receiving := y\<rparr>) = sv_heap s" "sv_pool (s\<lparr>sv_receiving := y\<rparr>) = sv_pool s"
  "sv_heap (s\<lparr>sv_receiveEp := e\<rparr>) = sv_heap s" "sv_pool (s\<lparr>sv_receiveEp := e\<rparr>) = sv_pool s"
  "sv_heap (s\<lparr>sv_now := n\<rparr>) = sv_heap s" "sv_pool (s\<lparr>sv_now := n\<rparr>) = sv_pool s"
  "sv_heap (s\<lparr>sv_running := r\<rparr>) = sv_heap s" "sv_pool (s\<lparr>sv_running := r\<rparr>) = sv_pool s"
  "sv_heap (s\<lparr>sv_ifAddress := a\<rparr>) = sv_heap s" "sv_pool (s\<lparr>sv_ifAddress := a\<rparr>) = sv_pool s"
  "sv_heap (s\<lparr>sv_rpc := c\<rparr>) = r_heap c" "sv_pool (s\<lparr>sv_rpc := c\<rparr>) = p_pool (r_client c)"
  "sv_heap (s\<lparr>sv_tcpNapt := t\<rparr>) = sv_heap s" "sv_heap (s\<lparr>sv_udpNapt := t\<rparr>) = sv_heap s"
  "sv_heap (s\<lparr>sv_raw := w\<rparr>) = sv_heap s" "sv_pool (s\<lparr>sv_raw := w\<rparr>) = sv_pool s"
  by (simp_all add: sv_heap_def sv_pool_def set_heap_def set_pool_def)

lemma server_frame [simp]:
  "sv_sessions (set_heap s h) = sv_sessions s" "sv_sessions (set_pool s p) = sv_sessions s"
  "sv_raw (set_heap s h) = sv_raw s" "sv_raw (set_pool s p) = sv_raw s"
  "sv_out (set_heap s h) = sv_out s" "sv_out (set_pool s p) = sv_out s"
  "sv_sending (set_heap s h) = sv_sending s" "sv_sending (set_pool s p) = sv_sending s"
  "sv_receiving (set_heap s h) = sv_receiving s" "sv_receiving (set_pool s p) = sv_receiving s"
  "sv_receiveEp (set_heap s h) = sv_receiveEp s" "sv_receiveEp (set_pool s p) = sv_receiveEp s"
  "sv_tcpNapt (set_heap s h) = sv_tcpNapt s" "sv_tcpNapt (set_pool s p) = sv_tcpNapt s"
  "sv_udpNapt (set_heap s h) = sv_udpNapt s" "sv_udpNapt (set_pool s p) = sv_udpNapt s"
  "sv_running (set_heap s h) = sv_running s" "sv_running (set_pool s p) = sv_running s"
  "sv_now (set_heap s h) = sv_now s" "sv_ifAddress (set_heap s h) = sv_ifAddress s"
  by (simp_all add: set_heap_def set_pool_def)

section \<open>The calls without handlers\<close>

text \<open>No call in progress and nothing sent.\<close>

definition quiet :: "('ep, 'c, 'j) server_rpc \<Rightarrow> bool" where
  "quiet r \<longleftrightarrow> r_pending r = [] \<and> r_replying r = [] \<and> r_requesting r = [] \<and> r_sent r = []"

text \<open>Memory with the same blocks, whatever is in them.\<close>

definition same_blocks :: "heap \<Rightarrow> heap \<Rightarrow> bool" where
  "same_blocks h h' \<longleftrightarrow> (\<forall>q n. in_bounds h q n \<longrightarrow> in_bounds h' q n) \<and> (heap_wf h \<longrightarrow> heap_wf h')"

lemma same_blocks_refl [simp]: "same_blocks h h"
  by (simp add: same_blocks_def)

lemma same_blocks_trans: "same_blocks h h1 \<Longrightarrow> same_blocks h1 h2 \<Longrightarrow> same_blocks h h2"
  by (simp add: same_blocks_def)

lemma same_blocks_store: "store_bytes h p bs = Inr h' \<Longrightarrow> same_blocks h h'"
  by (auto simp: same_blocks_def in_bounds_store dest: store_bytes_wf)

lemma same_blocks_new: "heap_wf h \<Longrightarrow> heap_new h n = (h', p) \<Longrightarrow> same_blocks h h'"
  by (auto simp: same_blocks_def dest: heap_new_old heap_new_wf)

lemma same_blocks_decrypt: "decrypt lib h c p n = Inr (h', c') \<Longrightarrow> same_blocks h h'"
  by (auto simp: decrypt_def decryptTo_def res_iffs split_beta split: option.splits intro: same_blocks_store)

lemma pool_owns_blocks: "pool_owns bs (h, p) out \<Longrightarrow> same_blocks h h' \<Longrightarrow> pool_owns bs (h', p) out"
  by (auto simp: pool_owns_def same_blocks_def)

lemma requestHandler_unassigned:
  "requestHandler J unassigned buf c hs = Inr (acc, c', hs') \<Longrightarrow> \<not> acc \<and> c' = c \<and> hs' = hs"
  by (cases hs) (auto simp: requestHandler_def Let_def dispatch_request_def unassigned_def res_iffs
      split: if_splits option.splits prod.splits)

lemma feed_request_unassigned:
  assumes "feed_request lib (protocol_callbacks J unassigned) r peer pid buf = Inr r'" "quiet r"
  shows "quiet r' \<and> r_client r' = r_client r \<and> r_heap r' = r_heap r"
proof -
  let ?c = "\<lparr>cb_remain = ucast (r_retry r), cb_endpoint = peer, cb_id = pid, cb_buffer = buf, cb_onComplete = None\<rparr>"
  obtain acc c' h s where q: "requestHandler J unassigned buf ?c (r_heap r, r_client r) = Inr (acc, c', h, s)"
    using assms(1)
    by (cases "requestHandler J unassigned buf ?c (r_heap r, r_client r)")
       (auto simp: feed_request_def malloc_control_def protocol_callbacks_def)
  from requestHandler_unassigned[OF q] have "\<not> acc" "c' = ?c" "h = r_heap r" "s = r_client r" by auto
  with q assms show ?thesis
    by (auto simp: feed_request_def malloc_control_def protocol_callbacks_def finish_request_def
        free_control_def quiet_def put_control_def)
qed

lemma feed_unassigned:
  assumes "feed lib (protocol_callbacks J unassigned) r peer buf = Inr r'" "quiet r"
  shows "quiet r' \<and> r_client r' = r_client r \<and> same_blocks (r_heap r) (r_heap r')"
proof -
  obtain h cr cmd pid where d: "decrypt lib (r_heap r) (r_cryptor r) (padd (b_data buf) 1) (b_size buf - 1) = Inr (h, cr)"
    and f: "feed_dispatch lib (protocol_callbacks J unassigned) (r\<lparr>r_heap := h, r_cryptor := cr\<rparr>) peer cmd pid
      (moveFrontBoundary buf 3) = Inr r'"
    using assms(1) by (auto simp: feed_def res_iffs)
  have "quiet (r\<lparr>r_heap := h, r_cryptor := cr\<rparr>)" using assms(2) by (simp add: quiet_def)
  with f have "quiet r' \<and> r_client r' = r_client r \<and> r_heap r' = h"
    by (auto simp: feed_dispatch_def find_ordered quiet_def split: if_splits dest!: feed_request_unassigned)
  with same_blocks_decrypt[OF d] show ?thesis by simp
qed

section \<open>The invariant\<close>

definition held :: "('ep, 'c, 'j, 'r) server \<Rightarrow> ptr multiset" where
  "held s = (case sv_receiving s of None \<Rightarrow> {#} | Some b \<Rightarrow> {#b_internal b#})"

definition receive_buffer :: "ptr \<Rightarrow> buffer" where
  "receive_buffer d = moveFrontBoundary (mkBuffer d 1600) 50"

text \<open>
  No session is connected, nothing has been forwarded either way, no call is in progress, the
  tables are empty, and of the pool's buffers exactly the one being received into is out.
\<close>

definition server_core :: "ptr multiset \<Rightarrow> ('ep, 'c, 'j, 'r) server \<Rightarrow> bool" where
  "server_core out s \<longleftrightarrow> (\<forall>x\<in>set (sv_sessions s). \<not> isConnected x)
     \<and> sv_raw s = [] \<and> sv_out s = [] \<and> sv_sending s = [] \<and> quiet (sv_rpc s)
     \<and> serverMap (sv_tcpNapt s) = Map.empty \<and> serverMap (sv_udpNapt s) = Map.empty
     \<and> pool_owns 1600 (sv_heap s, sv_pool s) out"

definition server_inv :: "('ep, 'c, 'j, 'r) server \<Rightarrow> bool" where
  "server_inv s \<longleftrightarrow> server_core (held s) s
     \<and> (\<forall>b. sv_receiving s = Some b \<longrightarrow> (\<exists>d. b = receive_buffer d))"

lemma receive_buffer_simps:
  "b_internal (receive_buffer d) = d" "b_internalSize (receive_buffer d) = 1600"
  "b_data (receive_buffer d) = padd d 50" "b_size (receive_buffer d) = 1550"
  by (simp_all add: receive_buffer_def moveFrontBoundary_def mkBuffer_def prefixSpace_def)

lemma core_frame [simp]:
  "server_core out (s\<lparr>sv_receiving := y\<rparr>) = server_core out s"
  "server_core out (s\<lparr>sv_receiveEp := e\<rparr>) = server_core out s"
  "server_core out (s\<lparr>sv_running := r\<rparr>) = server_core out s"
  "server_core out (s\<lparr>sv_ifAddress := a\<rparr>) = server_core out s"
  "server_core out (s\<lparr>sv_now := n\<rparr>) = server_core out s"
  by (simp_all add: server_core_def)

lemma quiet_frame [simp]:
  "quiet (r\<lparr>r_heap := h\<rparr>) = quiet r" "quiet (r\<lparr>r_client := c\<rparr>) = quiet r"
  by (simp_all add: quiet_def)

lemma core_heap: "server_core out s \<Longrightarrow> same_blocks (sv_heap s) h \<Longrightarrow> server_core out (set_heap s h)"
  using pool_owns_blocks[of 1600 "sv_heap s" "sv_pool s" out h]
  by (simp add: server_core_def set_heap_def sv_heap_def sv_pool_def)

lemma core_free:
  assumes "server_core (add_mset (b_internal b) out) s"
  shows "server_core out (free_buffer s b)"
  using assms pool.give_ok[of 1600 "(sv_heap s, sv_pool s)" b out]
  by (simp add: server_core_def free_buffer_def pool_give_def set_pool_def sv_heap_def sv_pool_def)

lemma core_arm:
  assumes "server_core {#} s"
  shows "\<exists>s' d. arm_receive s = Inr s' \<and> server_inv s' \<and> sv_receiving s' = Some (receive_buffer d)
    \<and> sv_running s' = sv_running s \<and> sv_sessions s' = sv_sessions s"
proof -
  have own: "pool_owns 1600 (sv_heap s, sv_pool s) {#}" using assms by (simp add: server_core_def)
  obtain h p d where 1: "pool_alloc 1600 (sv_heap s) (sv_pool s) = Inr (h, p, mkBuffer d 1600)"
      "pool_owns 1600 (h, p) {#d#}"
    using pool_take_owns[OF own] by (auto simp: pool_take_def res_iffs)
  let ?s = "(set_pool (set_heap s h) p)\<lparr>sv_receiving := Some (receive_buffer d)\<rparr>"
  have "arm_receive s = Inr ?s" using 1(1) by (simp add: arm_receive_def receive_buffer_def)
  moreover have "server_inv ?s"
    using assms 1(2) by (auto simp: server_inv_def server_core_def held_def receive_buffer_simps set_heap_def set_pool_def
        sv_heap_def sv_pool_def)
  ultimately show ?thesis by auto
qed

lemma transmit_refused:
  assumes "\<forall>x\<in>set (sv_sessions s). \<not> isConnected x"
  shows "transmit_allowed s cid ip = Inr False"
  using assms by (auto simp: transmit_allowed_def Let_def)

lemma command_core:
  assumes core: "server_core {#b_internal b#} s" and t: "s' = s \<or> (\<exists>r. feed lib (protocol_callbacks J unassigned)
      (sv_rpc s) ep buf = Inr r \<and> s' = s\<lparr>sv_rpc := r\<rparr>)"
  shows "server_core {#b_internal b#} s' \<and> sv_running s' = sv_running s \<and> sv_sessions s' = sv_sessions s"
proof -
  have q: "quiet (sv_rpc s)" using core by (simp add: server_core_def)
  have "server_core {#b_internal b#} (s\<lparr>sv_rpc := r\<rparr>)"
    if "feed lib (protocol_callbacks J unassigned) (sv_rpc s) ep buf = Inr r" for r
    using feed_unassigned[OF that q] core pool_owns_blocks[of 1600 "sv_heap s" "sv_pool s" _ "r_heap r"]
    by (simp add: server_core_def sv_heap_def sv_pool_def)
  with core t show ?thesis by auto
qed

lemma onSocketReceive_inv:
  assumes core: "server_core {#b_internal b#} s" and none: "sv_receiving s = None"
    and run: "onSocketReceive lib J s err n b = Inr s'"
  shows "server_inv s' \<and> sv_running s' = sv_running s \<and> sv_sessions s' = sv_sessions s"
proof (cases "failed err")
  case True
  with run have "s' = free_buffer s b" by (simp add: onSocketReceive_def)
  with core_free[of b "{#}" s] core none show ?thesis
    by (simp add: server_inv_def held_def free_buffer_def)
next
  case False
  let ?b = "moveFrontBoundary (setSize b (of_nat n)) 1"
  have bi: "b_internal ?b = b_internal b" by (simp add: moveFrontBoundary_def setSize_def)
  have tr: "processTransmit lib s b' = Inr s1 \<Longrightarrow> s1 = s" for b' s1
    using core by (auto simp: processTransmit_def res_iffs server_core_def transmit_refused)
  obtain s1 where s1: "s1 = s \<or> (\<exists>r. feed lib (protocol_callbacks J unassigned)
        (sv_rpc s) (sv_receiveEp s) ?b = Inr r \<and> s1 = s\<lparr>sv_rpc := r\<rparr>)"
      "arm_receive (free_buffer s1 ?b) = Inr s'"
    using run False tr by (auto simp: onSocketReceive_def res_iffs Let_def split: if_splits)
  from command_core[OF core s1(1)] have c1: "server_core {#b_internal b#} s1" "sv_running s1 = sv_running s"
      "sv_sessions s1 = sv_sessions s" by auto
  from core_arm[OF core_free[of ?b "{#}" s1]] c1 s1(2) bi show ?thesis
    by (auto simp: free_buffer_def)
qed

lemma receive_packet_inv:
  assumes "server_inv s" "receive_packet lib s bs = Inr s'"
  shows "server_inv s' \<and> sv_running s' = sv_running s \<and> sv_sessions s' = sv_sessions s"
proof -
  obtain h p where new: "heap_new (sv_heap s) (length bs) = (h, p)" by fastforce
  obtain h' where st: "store_bytes h p bs = Inr h'"
    and run: "rawSocketPacketHandler lib (set_heap s h') p (of_nat (length bs)) = Inr s'"
    using assms(2) new by (auto simp: receive_packet_def res_iffs)
  have "heap_wf (sv_heap s)"
    using assms(1) by (simp add: server_inv_def server_core_def pool_owns_def)
  with new st have same: "same_blocks (sv_heap s) h'"
    using same_blocks_trans same_blocks_new same_blocks_store by blast
  have "s' = set_heap s h'"
    using run assms(1)
    by (auto simp: rawSocketPacketHandler_def answer_target_def Let_def res_iffs server_inv_def server_core_def
        find_server_def answer_client_def split: if_splits option.splits)
  with core_heap[OF _ same] assms(1) show ?thesis
    by (simp add: server_inv_def held_def)
qed

lemma receive_datagram_inv:
  assumes "server_inv s" "sv_receiving s = Some b" "receive_datagram lib J s b peer bs = Inr s'"
  shows "server_inv s' \<and> sv_running s' = sv_running s \<and> sv_sessions s' = sv_sessions s"
proof -
  obtain h where st: "store_bytes (sv_heap s) (b_data b) (take (unat (b_size b)) bs) = Inr h"
    and run: "onSocketReceive lib J ((set_heap s h)\<lparr>sv_receiveEp := peer, sv_receiving := None\<rparr>) NoError
      (length (take (unat (b_size b)) bs)) b = Inr s'"
    using assms(3) by (auto simp: receive_datagram_def Let_def res_iffs)
  have "server_core {#b_internal b#} (set_heap s h)"
    using assms(1,2) core_heap[OF _ same_blocks_store[OF st]] by (simp add: server_inv_def held_def)
  then have "server_core {#b_internal b#} ((set_heap s h)\<lparr>sv_receiveEp := peer, sv_receiving := None\<rparr>)"
    by simp
  from onSocketReceive_inv[OF this _ run] show ?thesis by simp
qed

lemma server_step_inv:
  assumes inv: "server_inv s" and run: "server_step lib J s e = Inr s'"
  shows "server_inv s' \<and> sv_running s' = sv_running s \<and> sv_sessions s' = sv_sessions s"
proof (cases "sv_running s")
  case True
  show ?thesis
  proof (cases e)
    case (Datagram peer bs)
    with run True inv show ?thesis
      using receive_datagram_inv[OF inv] by (auto simp: server_step_def split: option.splits)
  next
    case (ReceiveFailed err)
    have "server_inv s' \<and> sv_running s' = sv_running s \<and> sv_sessions s' = sv_sessions s"
      if "sv_receiving s = Some b" "onSocketReceive lib J (s\<lparr>sv_receiving := None\<rparr>) err 0 b = Inr s'" for b
      using onSocketReceive_inv[OF _ _ that(2)] inv that(1) by (simp add: server_inv_def held_def)
    with run True inv ReceiveFailed show ?thesis
      by (auto simp: server_step_def split: option.splits if_splits)
  next
    case (RawPacket bs)
    with run True show ?thesis
      using receive_packet_inv[OF inv] by (auto simp: server_step_def)
  next
    case (SendDone k)
    with run True inv show ?thesis by (auto simp: server_step_def server_inv_def server_core_def)
  next
    case (RpcDone t err)
    with run True inv show ?thesis by (auto simp: server_step_def server_inv_def server_core_def quiet_def)
  next
    case (Tick now)
    with run True inv show ?thesis by (auto simp: server_step_def server_inv_def held_def)
  qed
qed (use run inv in \<open>simp add: server_step_def\<close>)

lemma server_inv_frame:
  "server_inv (s\<lparr>sv_running := r\<rparr>) = server_inv s" "server_inv (s\<lparr>sv_now := n\<rparr>) = server_inv s"
  by (simp_all add: server_inv_def held_def)

lemma server_reach_inv:
  "server_reach lib J s0 s \<Longrightarrow> server_inv s0 \<Longrightarrow> server_inv s \<and> sv_sessions s = sv_sessions s0"
proof (induction rule: server_reach.induct)
  case (event s e s')
  from event.IH event.prems have inv: "server_inv s" "sv_sessions s = sv_sessions s0" by blast+
  from server_step_inv[OF inv(1) event.hyps(2)] inv(2) show ?case by metis
next
  case (halt s)
  from halt.IH halt.prems have "server_inv s \<and> sv_sessions s = sv_sessions s0" by blast
  then show ?case by (simp add: stop_server_def server_inv_frame)
qed simp

section \<open>From the constructor on\<close>

lemma new_sessions_idle:
  "new_sessions lib gen (\<lambda>c. newSession c ep cid err now) n r = Inr (ss, r') \<Longrightarrow>
     length ss = n \<and> (\<forall>x\<in>set ss. isIdle x)"
  by (induction n arbitrary: r ss r') (auto simp: res_iffs newSession_def isIdle_def)

lemma started_server:
  assumes new: "newServer lib gen cf h p ep cid err addr0 now r = Inr s0" and own: "pool_owns 1600 (h, p) {#}"
  shows "\<exists>s1 d. start_server s0 addr = Inr s1 \<and> server_inv s1 \<and> sv_receiving s1 = Some (receive_buffer d)
    \<and> sv_running s1 \<and> length (sv_sessions s1) = unat (cf_maxSessions cf)"
proof -
  obtain ss r' where ss: "new_sessions lib gen (\<lambda>c. newSession c ep cid err now) (unat (cf_maxSessions cf)) r = Inr (ss, r')"
    using new by (auto simp: newServer_def res_iffs)
  have core: "server_core {#} s0" "length (sv_sessions s0) = unat (cf_maxSessions cf)"
    using new own ss new_sessions_idle[OF ss]
    by (auto simp: newServer_def res_iffs server_core_def newRpcProtocol_def newRpc_def quiet_def newNapt_def
        sv_heap_def sv_pool_def isIdle_def isConnected_def)
  with core_arm[of "s0\<lparr>sv_ifAddress := addr\<rparr>"] show ?thesis
    by (auto simp: start_server_def server_inv_frame)
qed

text \<open>
  C8. The server, as it is put together, never forwards anything. Its constructor leaves all
  sessions idle and nothing in the repository gives the calls their handlers, so after any
  datagrams, packets and completions no session is connected, nothing has been written to the
  raw socket or sent to a client, and the pool has all its buffers but the one being received
  into.
\<close>

theorem server_forwards_nothing:
  assumes new: "newServer lib gen cf h p ep cid err addr0 now r = Inr s0" and own: "pool_owns 1600 (h, p) {#}"
    and start: "start_server s0 addr = Inr s1" and reach: "server_reach lib J s1 s"
  shows "(\<forall>x\<in>set (sv_sessions s). \<not> isConnected x) \<and> length (sv_sessions s) = unat (cf_maxSessions cf)
    \<and> sv_raw s = [] \<and> sv_out s = [] \<and> pool_owns 1600 (sv_heap s, sv_pool s) (held s)"
proof -
  obtain d where s1: "server_inv s1" "length (sv_sessions s1) = unat (cf_maxSessions cf)"
    using started_server[OF new own, of addr] start by auto
  from server_reach_inv[OF reach s1(1)] s1(2) show ?thesis
    by (auto simp: server_inv_def server_core_def)
qed

section \<open>One datagram\<close>

text \<open>The buffer the handler works on after a datagram of \<open>n\<close> bytes: without the command byte.\<close>

lemma receive_buffer_sized:
  assumes "n \<le> 1550" "0 < n"
  shows "b_data (moveFrontBoundary (setSize (receive_buffer d) (of_nat n)) 1) = padd d 51"
    "b_size (moveFrontBoundary (setSize (receive_buffer d) (of_nat n)) 1) = of_nat (n - 1)"
proof -
  have u: "unat (of_nat n :: u32) = n" using assms by (simp add: unat_of_nat)
  have le: "(of_nat n :: u32) \<le> 1550" using assms u by (simp add: word_le_nat_alt)
  have pre: "prefixSpace (receive_buffer d) = 50" by (simp add: prefixSpace_def receive_buffer_simps)
  have 1: "setSize (receive_buffer d) (of_nat n) = (receive_buffer d)\<lparr>b_size := of_nat n\<rparr>"
    using le by (simp add: setSize_def pre receive_buffer_simps)
  have "uint (of_nat n :: u32) = int n" using u by (simp add: uint_nat)
  then have "sint (of_nat n :: u32) = int n" using assms by (subst sint_eq_uint32) simp_all
  then have "(1 :: int) \<le> sint (of_nat n :: u32)" using assms by simp
  moreover have "(of_nat n :: u32) - 1 = of_nat (n - 1)" using assms by (simp add: of_nat_diff)
  moreover have "prefixSpace ((receive_buffer d)\<lparr>b_size := of_nat n\<rparr>) = 50"
    using pre by (simp add: prefixSpace_def)
  ultimately show
    "b_data (moveFrontBoundary (setSize (receive_buffer d) (of_nat n)) 1) = padd d 51"
    "b_size (moveFrontBoundary (setSize (receive_buffer d) (of_nat n)) 1) = of_nat (n - 1)"
    by (simp_all add: 1 moveFrontBoundary_def receive_buffer_simps)
qed

text \<open>
  What the handler takes for the command byte of a datagram: its first byte, or, if it is empty,
  what the buffer has held in that place before.
\<close>

definition mark :: "heap \<Rightarrow> buffer \<Rightarrow> bytes \<Rightarrow> u8 res" where
  "mark h b bs = (case bs of [] \<Rightarrow> load8 h (b_data b) | c # _ \<Rightarrow> Inr c)"

lemma datagram_handled:
  assumes inv: "server_inv s" and recv: "sv_receiving s = Some b" and run: "sv_running s"
    and d: "b = receive_buffer d" and mark: "mark (sv_heap s) b bs = Inr c"
  shows "\<exists>h. store_bytes (sv_heap s) (padd d 50) (take 1550 bs) = Inr h
    \<and> in_bounds h d 1600 \<and> load8 h (padd d 50) = Inr c
    \<and> server_step lib J s (Datagram peer bs)
      = onSocketReceive lib J ((set_heap s h)\<lparr>sv_receiveEp := peer, sv_receiving := None\<rparr>) NoError
          (length (take 1550 bs)) (receive_buffer d)
    \<and> server_core {#d#} ((set_heap s h)\<lparr>sv_receiveEp := peer, sv_receiving := None\<rparr>)"
proof -
  let ?xs = "take 1550 bs"
  have own: "pool_owns 1600 (sv_heap s, sv_pool s) {#d#}" and core: "server_core {#d#} s"
    using inv recv d by (auto simp: server_inv_def server_core_def held_def receive_buffer_simps)
  then have mem: "in_bounds (sv_heap s) d 1600" using pool.owns_mem[of 1600 _ d "{#}"] by fastforce
  then have "in_bounds (sv_heap s) (padd d (int 50)) (length ?xs)" by (rule in_bounds_part) simp
  then obtain h where h: "store_bytes (sv_heap s) (padd d 50) ?xs = Inr h"
    using store_bytes_ok[of "sv_heap s" "padd d 50" ?xs] by auto
  have "load8 h (padd d 50) = Inr c"
  proof (cases bs)
    case Nil
    have "load_bytes h (padd d 50) 1 = load_bytes (sv_heap s) (padd d 50) 1"
      using h Nil by (intro load_store_disjoint[OF h]) (simp add: disjoint_ranges_def)
    then show ?thesis using mark Nil by (simp add: mark_def d receive_buffer_simps load8_def)
  next
    case (Cons x rest)
    have "load_bytes h (padd d 50) (length ?xs) = Inr ?xs" using load_store_same[OF h] .
    from load_bytes_sub[OF this, of 0 1] show ?thesis
      using mark Cons by (simp add: load8_def slice_def mark_def)
  qed
  moreover have "server_core {#d#} (set_heap s h)"
    using core_heap[OF core same_blocks_store[OF h]] .
  ultimately show ?thesis
    using h mem run recv d
    by (simp add: server_step_def receive_datagram_def Let_def receive_buffer_simps in_bounds_store)
qed

lemma short_call_faults:
  assumes mem: "in_bounds h d 1600" and small: "\<And>i ys. blocks h i = Some ys \<Longrightarrow> length ys < 4294967296"
    and b: "b_data b = padd d 51" "b_size b = 0"
  shows "feed lib cbs (r\<lparr>r_heap := h\<rparr>) peer b = Inl OutOfBounds"
proof -
  have "\<not> in_bounds h (padd d 52) 4294967295"
    using mem small[of "blk d"] by (force simp: in_bounds_def split: option.splits)
  moreover have "unat (- 1 :: u32) = 4294967295"
    by (simp add: unsigned_minus_1_eq_mask mask_eq_exp_minus_1)
  ultimately show ?thesis
    by (simp add: feed_def decrypt_def decryptTo_def load_bytes_def b)
qed

lemma sized_data:
  "\<exists>k \<le> 51. b_data (moveFrontBoundary (setSize (receive_buffer d) w) 1) = padd d (int k)"
proof (cases "b_data (moveFrontBoundary (setSize (receive_buffer d) w) 1) = padd d (int 50)")
  case False
  then have "b_data (moveFrontBoundary (setSize (receive_buffer d) w) 1) = padd d (int 51)"
    by (simp add: moveFrontBoundary_def setSize_def receive_buffer_simps split: if_splits)
  then show ?thesis by blast
qed (intro exI[of _ 50], simp)

lemma datagram_survived:
  assumes inv: "server_inv s" and state: "sv_running s" "sv_receiving s = Some b"
    and mark: "mark (sv_heap s) b bs = Inr c" and c: "c \<noteq> REQUEST" "c \<noteq> REPLY"
  shows "\<exists>s'. server_step lib J s (Datagram peer bs) = Inr s' \<and> sv_running s' \<and> sv_receiving s' \<noteq> None"
proof -
  obtain d where d: "b = receive_buffer d"
    using inv state(2) by (auto simp: server_inv_def)
  obtain h where h: "in_bounds h d 1600" "load8 h (padd d 50) = Inr c"
    "server_step lib J s (Datagram peer bs)
      = onSocketReceive lib J ((set_heap s h)\<lparr>sv_receiveEp := peer, sv_receiving := None\<rparr>) NoError
          (length (take 1550 bs)) (receive_buffer d)"
    "server_core {#d#} ((set_heap s h)\<lparr>sv_receiveEp := peer, sv_receiving := None\<rparr>)"
    using datagram_handled[OF inv state(2,1) d mark] by blast
  let ?s = "(set_heap s h)\<lparr>sv_receiveEp := peer, sv_receiving := None\<rparr>"
  let ?b = "moveFrontBoundary (setSize (receive_buffer d) (of_nat (length (take 1550 bs)))) 1"
  have bi: "b_internal ?b = d"
    by (simp add: moveFrontBoundary_def setSize_def receive_buffer_simps)
  obtain s' d' where arm: "arm_receive (free_buffer ?s ?b) = Inr s'" "sv_receiving s' = Some (receive_buffer d')"
      "sv_running s'"
    using core_arm[OF core_free[of ?b "{#}" ?s]] h(4) bi state(1) by (auto simp: free_buffer_def)
  have "processTransmit lib ?s ?b = Inr ?s"
  proof -
    obtain k where k: "b_data ?b = padd d (int k)" "k \<le> 51" using sized_data[of d "of_nat (length (take 1550 bs))"] by blast
    have "in_bounds h (padd d (int k)) 2" using h(1) by (rule in_bounds_part) (use k(2) in simp)
    then obtain w where "load16 h (padd d (int k)) = Inr w" using half.ld_ok by auto
    then show ?thesis using h(4) k(1) by (simp add: processTransmit_def transmit_refused server_core_def)
  qed
  with h c arm show ?thesis
    by (auto simp: onSocketReceive_def failed_def receive_buffer_simps Let_def)
qed

text \<open>
  C14. A started server that is receiving survives every datagram that it does not take for a
  call: whatever the datagram holds, the handler returns, and the server is receiving again. It
  takes for the mark the first byte, and of an empty datagram the byte that the buffer
  has held in that place before.
\<close>

theorem server_survives_datagram:
  assumes new: "newServer lib gen cf h p ep cid err addr0 now r = Inr s0" and own: "pool_owns 1600 (h, p) {#}"
    and start: "start_server s0 addr = Inr s1" and reach: "server_reach lib J s1 s"
    and state: "sv_running s" "sv_receiving s = Some b"
    and mark: "mark (sv_heap s) b bs = Inr c" and c: "c \<noteq> REQUEST" "c \<noteq> REPLY"
  shows "\<exists>s'. server_step lib J s (Datagram peer bs) = Inr s' \<and> sv_running s' \<and> sv_receiving s' \<noteq> None"
proof -
  have inv: "server_inv s"
    using started_server[OF new own, of addr] start server_reach_inv[OF reach] by auto
  from datagram_survived[OF inv state mark c] show ?thesis by blast
qed

text \<open>
  A datagram of one byte that is marked as a call, which is shorter than any header, ends
  the server: the length given to the cipher wraps to 4294967295 and the read leaves its block
  (no block of memory being that large).
\<close>

theorem one_byte_call_crashes:
  assumes new: "newServer lib gen cf h p ep cid err addr0 now r = Inr s0" and own: "pool_owns 1600 (h, p) {#}"
    and start: "start_server s0 addr = Inr s1" and reach: "server_reach lib J s1 s"
    and state: "sv_running s" "sv_receiving s \<noteq> None"
    and small: "\<And>i ys. blocks (sv_heap s) i = Some ys \<Longrightarrow> length ys < 4294967296"
    and c: "c = REQUEST \<or> c = REPLY"
  shows "server_step lib J s (Datagram peer [c]) = Inl OutOfBounds"
proof -
  have inv: "server_inv s"
    using started_server[OF new own, of addr] start server_reach_inv[OF reach] by auto
  then obtain d where d: "sv_receiving s = Some (receive_buffer d)"
    using state(2) by (auto simp: server_inv_def)
  have mark: "mark (sv_heap s) (receive_buffer d) [c] = Inr c" by (simp add: mark_def)
  obtain h where h: "store_bytes (sv_heap s) (padd d 50) (take 1550 [c]) = Inr h" "in_bounds h d 1600"
    "load8 h (padd d 50) = Inr c"
    "server_step lib J s (Datagram peer [c])
      = onSocketReceive lib J ((set_heap s h)\<lparr>sv_receiveEp := peer, sv_receiving := None\<rparr>) NoError
          (length (take 1550 [c])) (receive_buffer d)"
    using datagram_handled[OF inv d state(1) refl mark] by blast
  let ?b = "moveFrontBoundary (setSize (receive_buffer d) (of_nat 1)) 1"
  have b: "b_data ?b = padd d 51" "b_size ?b = 0"
    using receive_buffer_sized[of 1 d] by simp_all
  have "length ys < 4294967296" if "blocks h i = Some ys" for i ys
  proof -
    have "in_bounds h (Ptr i 0) (length ys)" using that by (simp add: in_bounds_def)
    then have "in_bounds (sv_heap s) (Ptr i 0) (length ys)" by (simp add: in_bounds_store[OF h(1)])
    with small show ?thesis by (fastforce simp: in_bounds_def split: option.splits)
  qed
  from short_call_faults[OF h(2) this b] have
    "feed lib (protocol_callbacks J unassigned) ((sv_rpc s)\<lparr>r_heap := h\<rparr>) peer ?b = Inl OutOfBounds" .
  moreover have "c \<noteq> TRANSMIT" using c by (auto simp: command_defs)
  ultimately show ?thesis
    using h c by (auto simp: onSocketReceive_def failed_def receive_buffer_simps Let_def set_heap_def)
qed

lemma rearm_none:
  assumes "sv_receiving s = None" "server_step lib J s e = Inr s'"
  shows "sv_receiving s' = None"
  using assms
  by (auto simp: server_step_def receive_packet_def rawSocketPacketHandler_def res_iffs split_beta free_buffer_def
      Let_def split: server_event.splits if_splits option.splits)

lemma reach_deaf: "server_reach lib J s0 s \<Longrightarrow> sv_receiving s0 = None \<Longrightarrow> sv_receiving s = None"
  by (induction rule: server_reach.induct) (auto simp: stop_server_def dest: rearm_none)

text \<open>
  After one receive that failed the server is deaf: the handler returns the buffer and
  starts no other receive, so whatever happens later it is never receiving again, and every
  datagram is ignored.
\<close>

theorem failed_receive_deafens:
  assumes recv: "sv_running s" "sv_receiving s = Some b" and err: "failed e"
    and fail: "server_step lib J s (ReceiveFailed e) = Inr s1" and reach: "server_reach lib J s1 s2"
  shows "sv_pool s1 = pool_free (sv_pool s) b \<and> sv_receiving s2 = None
    \<and> server_step lib J s2 (Datagram peer bs) = Inr s2"
proof -
  have s1: "s1 = free_buffer (s\<lparr>sv_receiving := None\<rparr>) b"
    using recv err fail by (simp add: server_step_def onSocketReceive_def)
  then have "sv_receiving s2 = None" using reach_deaf[OF reach] by (simp add: free_buffer_def)
  with s1 show ?thesis by (simp add: free_buffer_def server_step_def)
qed

section \<open>The constructor succeeds\<close>

text \<open>
  What the code relies on in the libraries here: ciphers of every key and vector of 16 bytes,
  and a random pool that yields as many bytes as it is asked for.
\<close>

definition random_ok :: "'c cryptopp \<Rightarrow> ('r \<Rightarrow> nat \<Rightarrow> bytes \<times> 'r) \<Rightarrow> bool" where
  "random_ok lib gen \<longleftrightarrow> (\<forall>k v. length k = 16 \<and> length v = 16 \<longrightarrow> cipher_ok lib k v)
     \<and> (\<forall>r n. length (fst (gen r n)) = n)"

definition usable :: "'c cryptopp \<Rightarrow> 'c cryptor \<Rightarrow> bool" where
  "usable lib c \<longleftrightarrow> ready lib (c_key c) (c_iv c) c"

lemma randomCryptor_usable:
  assumes "random_ok lib gen"
  shows "\<exists>c r'. randomCryptor lib gen r = Inr (c, r') \<and> usable lib c"
proof -
  obtain k r1 v r2 where g: "gen r 16 = (k, r1)" "gen r1 16 = (v, r2)" by fastforce
  then have "length k = 16" "length v = 16"
    using assms unfolding random_ok_def by (metis fst_conv)+
  then have "cipher_ok lib k v" using assms by (simp add: random_ok_def)
  then obtain c where "newCryptor lib k v = Inr c" "ready lib k v c"
    using newCryptor_ready by blast
  with g show ?thesis by (auto simp: randomCryptor_def usable_def ready_def)
qed

lemma new_sessions_total:
  "random_ok lib gen \<Longrightarrow> \<exists>x. new_sessions lib gen blank n r = Inr x"
proof (induction n arbitrary: r)
  case (Suc n)
  obtain c r1 where "randomCryptor lib gen r = Inr (c, r1)"
    using randomCryptor_usable[OF Suc.prems] by blast
  with Suc.IH[OF Suc.prems, of r1] show ?case by auto
qed simp

lemma newServer_total:
  assumes "random_ok lib gen" "cipher_ok lib (cf_key cf) (cf_iv cf)"
  shows "\<exists>s. newServer lib gen cf h p ep cid err addr now r = Inr s \<and> sv_heap s = h \<and> sv_pool s = p"
proof -
  obtain x where "new_sessions lib gen (\<lambda>c. newSession c ep cid err now) (unat (cf_maxSessions cf)) r = Inr x"
    using new_sessions_total[OF assms(1)] by blast
  moreover obtain c where "newCryptor lib (cf_key cf) (cf_iv cf) = Inr c"
    using newCryptor_ready[OF assms(2)] by blast
  ultimately show ?thesis
    by (auto simp: newServer_def sv_heap_def sv_pool_def newRpcProtocol_def newRpc_def split_beta)
qed

section \<open>Instances\<close>

text \<open>A configuration, empty memory, and a source of numbers in place of random ones.\<close>

definition demo_random :: "nat \<Rightarrow> nat \<Rightarrow> bytes \<times> nat" where
  "demo_random r n = (map (\<lambda>i. of_nat (r + i)) [0..<n], r + n)"

lemma demo_random_ok: "random_ok feedback_lib demo_random"
  by (simp add: random_ok_def demo_random_def feedback_ok)

definition demo_config :: server_config where
  "demo_config = \<lparr>cf_listenPort = 8080, cf_portFrom = 1000, cf_portTo = 1002, cf_maxSessions = 1,
     cf_key = demo_key, cf_iv = demo_key\<rparr>"

definition demo_memory :: heap where
  "demo_memory = \<lparr>blocks = Map.empty, next_block = 0, junk = (\<lambda>_. 0)\<rparr>"

lemma demo_pool: "pool_owns 1600 (demo_memory, newPool 2) {#}"
  by (simp add: pool_owns_def demo_memory_def newPool_def slots_def heap_wf_def)

lemma demo_started:
  "\<exists>s0 s1 d. newServer feedback_lib demo_random demo_config demo_memory (newPool 2) (0 :: nat) 0 0 0 0 0
      = Inr (s0 :: (nat, u8 \<times> u8, unit, nat) server)
    \<and> start_server s0 7 = Inr s1 \<and> sv_running s1 \<and> sv_receiving s1 = Some (receive_buffer d)
    \<and> blocks (sv_heap s1) = [0 \<mapsto> replicate 3200 0]"
proof -
  have "cipher_ok feedback_lib (cf_key demo_config) (cf_iv demo_config)"
    by (simp add: demo_config_def demo_cipher_ok)
  then obtain s0 :: "(nat, u8 \<times> u8, unit, nat) server" where
    s0: "newServer feedback_lib demo_random demo_config demo_memory (newPool 2) (0 :: nat) 0 0 0 0 0 = Inr s0"
      "sv_heap s0 = demo_memory" "sv_pool s0 = newPool 2"
    using newServer_total[OF demo_random_ok, of demo_config demo_memory "newPool 2" 0 0 0 0 0 0] by blast
  obtain s1 d where s1: "start_server s0 7 = Inr s1" "sv_running s1" "sv_receiving s1 = Some (receive_buffer d)"
    using started_server[OF s0(1) demo_pool] by blast
  have "map (\<lambda>i. 0 :: u8) [0..<3200] = replicate 3200 0" by (simp only: map_replicate_const length_upt) simp
  then have "blocks (sv_heap s1) = [0 \<mapsto> replicate 3200 0]"
    using s1(1) s0(2,3)
    by (auto simp: start_server_def arm_receive_def pool_alloc_def newPool_def allocChunk_def heap_new_def demo_memory_def
        res_iffs split: list.splits)
  with s0(1) s1 show ?thesis by blast
qed

theorem server_forwards_nothing_witness:
  "\<exists>s0 s1. newServer feedback_lib demo_random demo_config demo_memory (newPool 2) (0 :: nat) 0 0 0 0 0
      = Inr (s0 :: (nat, u8 \<times> u8, unit, nat) server)
    \<and> start_server s0 7 = Inr s1 \<and> length (sv_sessions s1) = 1 \<and> sv_raw s1 = []"
proof -
  obtain s0 s1 :: "(nat, u8 \<times> u8, unit, nat) server" where
    s: "newServer feedback_lib demo_random demo_config demo_memory (newPool 2) (0 :: nat) 0 0 0 0 0 = Inr s0"
      "start_server s0 7 = Inr s1"
    using demo_started by blast
  from server_forwards_nothing[OF s(1) demo_pool s(2) server_reach.init] s show ?thesis
    by (auto simp: demo_config_def)
qed

theorem server_survives_datagram_witness:
  "\<exists>s0 s1 s2. newServer feedback_lib demo_random demo_config demo_memory (newPool 2) (0 :: nat) 0 0 0 0 0
      = Inr (s0 :: (nat, u8 \<times> u8, unit, nat) server)
    \<and> start_server s0 7 = Inr s1
    \<and> server_step feedback_lib (undefined :: unit json_lib) s1 (Datagram 5 [TRANSMIT, 0, 0, 69]) = Inr s2
    \<and> sv_receiving s2 \<noteq> None"
proof -
  obtain s0 s1 :: "(nat, u8 \<times> u8, unit, nat) server" and d where
    s: "newServer feedback_lib demo_random demo_config demo_memory (newPool 2) (0 :: nat) 0 0 0 0 0 = Inr s0"
      "start_server s0 7 = Inr s1" "sv_running s1" "sv_receiving s1 = Some (receive_buffer d)"
    using demo_started by blast
  have "mark (sv_heap s1) (receive_buffer d) [TRANSMIT, 0, 0, 69] = Inr TRANSMIT" by (simp add: mark_def)
  from server_survives_datagram[OF s(1) demo_pool s(2) server_reach.init s(3,4) this, of "undefined :: unit json_lib" 5]
    s(1,2)
  show ?thesis by (auto simp: command_defs)
qed

theorem one_byte_call_crashes_witness:
  "\<exists>s0 s1. newServer feedback_lib demo_random demo_config demo_memory (newPool 2) (0 :: nat) 0 0 0 0 0
      = Inr (s0 :: (nat, u8 \<times> u8, unit, nat) server)
    \<and> start_server s0 7 = Inr s1
    \<and> server_step feedback_lib (undefined :: unit json_lib) s1 (Datagram 5 [REPLY]) = Inl OutOfBounds"
proof -
  obtain s0 s1 :: "(nat, u8 \<times> u8, unit, nat) server" where
    s: "newServer feedback_lib demo_random demo_config demo_memory (newPool 2) (0 :: nat) 0 0 0 0 0 = Inr s0"
      "start_server s0 7 = Inr s1" "sv_running s1" "sv_receiving s1 \<noteq> None"
      "blocks (sv_heap s1) = [0 \<mapsto> replicate 3200 0]"
    using demo_started by fastforce
  have "length ys < 4294967296" if "blocks (sv_heap s1) i = Some ys" for i ys
    using that s(5) by (auto split: if_splits)
  from one_byte_call_crashes[OF s(1) demo_pool s(2) server_reach.init s(3,4) this, where c = REPLY and peer = 5
      and J = "undefined :: unit json_lib"] s(1,2)
  show ?thesis by auto
qed

theorem failed_receive_deafens_witness:
  "\<exists>s0 s1 s2. newServer feedback_lib demo_random demo_config demo_memory (newPool 2) (0 :: nat) 0 0 0 0 0
      = Inr (s0 :: (nat, u8 \<times> u8, unit, nat) server)
    \<and> start_server s0 7 = Inr s1
    \<and> server_step feedback_lib (undefined :: unit json_lib) s1 (ReceiveFailed (OtherError 54)) = Inr s2
    \<and> server_step feedback_lib (undefined :: unit json_lib) s2 (Datagram 5 [TRANSMIT]) = Inr s2"
proof -
  obtain s0 s1 :: "(nat, u8 \<times> u8, unit, nat) server" and d where
    s: "newServer feedback_lib demo_random demo_config demo_memory (newPool 2) (0 :: nat) 0 0 0 0 0 = Inr s0"
      "start_server s0 7 = Inr s1" "sv_running s1" "sv_receiving s1 = Some (receive_buffer d)"
    using demo_started by blast
  have f: "failed (OtherError 54)" by (simp add: failed_def)
  obtain s2 where s2: "server_step feedback_lib (undefined :: unit json_lib) s1 (ReceiveFailed (OtherError 54)) = Inr s2"
    using s(3,4) f by (simp add: server_step_def onSocketReceive_def)
  from failed_receive_deafens[OF s(3,4) f s2 server_reach.init, of 5 "[TRANSMIT]"] s(1,2) s2
  show ?thesis by blast
qed

end
