(* ===== verification/ServerSessions.thy ===== *)
theory ServerSessions
  imports ServerSafety
begin

text \<open>
  The session table of \<^verbatim>\<open>server/TunnelServer.cc\<close> under the handlers of the three calls: what each
  does to it, and what stays true of it in any sequence of them.
\<close>

section \<open>The vector\<close>

lemma copySession_usable: "usable lib (s_cryptor s) \<Longrightarrow> copySession lib s = Inr s"
  using newCryptor_ready[of lib "c_key (s_cryptor s)" "c_iv (s_cryptor s)"]
  by (cases "s_cryptor s") (auto simp: copySession_def copyCryptor_def usable_def ready_def)

lemma copySessions_usable: "\<forall>x\<in>set ss. usable lib (s_cryptor x) \<Longrightarrow> copySessions lib ss = Inr ss"
  by (induction ss) (simp_all add: copySession_usable)

lemma push_session_usable:
  "\<forall>x\<in>set ss. usable lib (s_cryptor x) \<Longrightarrow> usable lib (s_cryptor s) \<Longrightarrow> push_session lib grow ss s = Inr (ss @ [s])"
  by (simp add: push_session_def copySession_usable copySessions_usable)

section \<open>The loops\<close>

text \<open>The reference of the first loop: the greatest index of an idle session.\<close>

definition greatest_idle :: "('ep, 'c) session list \<Rightarrow> nat option" where
  "greatest_idle ss = find (\<lambda>i. isIdle (ss ! i)) (rev [0..<length ss])"

lemma greatest_idle_Some:
  "greatest_idle ss = Some i \<Longrightarrow> i < length ss \<and> isIdle (ss ! i) \<and> (\<forall>j. i < j \<and> j < length ss \<longrightarrow> \<not> isIdle (ss ! j))"
proof -
  assume "greatest_idle ss = Some i"
  then obtain k where k: "k < length ss" "isIdle (ss ! (rev [0..<length ss] ! k))" "i = rev [0..<length ss] ! k"
      "\<forall>j<k. \<not> isIdle (ss ! (rev [0..<length ss] ! j))"
    by (auto simp: greatest_idle_def find_Some_iff)
  then have i: "i = length ss - Suc k" by (simp add: rev_nth)
  have "\<not> isIdle (ss ! j)" if "i < j" "j < length ss" for j
    using k(1) k(4)[rule_format, of "length ss - Suc j"] that i by (simp add: rev_nth)
  with k i show ?thesis by (simp add: rev_nth)
qed

lemma greatest_idle_None: "greatest_idle ss = None \<longleftrightarrow> (\<forall>x\<in>set ss. \<not> isIdle x)"
  by (auto simp: greatest_idle_def find_None_iff all_set_conv_all_nth)

lemma last_idle_fold:
  "fold (\<lambda>i found. if P i then f i else found) xs z = (case find P (rev xs) of None \<Rightarrow> z | Some i \<Rightarrow> f i)"
proof (induction xs arbitrary: z)
  case (Cons x xs)
  have "find P (rev xs @ [x]) = (case find P (rev xs) of None \<Rightarrow> if P x then Some x else None | Some i \<Rightarrow> Some i)"
    for xs by (induction xs rule: rev_induct) auto
  with Cons show ?case by (auto split: option.split)
qed simp

lemma last_idle_greatest:
  "last_idle ss = (case greatest_idle ss of None \<Rightarrow> - 1 | Some i \<Rightarrow> of_nat i)"
  by (simp add: last_idle_def greatest_idle_def last_idle_fold)

lemma connected_of_Some:
  "connected_of ss peer = Some i \<Longrightarrow> i < length ss \<and> s_endpoint (ss ! i) = peer \<and> isConnected (ss ! i)
     \<and> (\<forall>j<i. \<not> (s_endpoint (ss ! j) = peer \<and> isConnected (ss ! j)))"
  by (auto simp: connected_of_def find_Some_iff)

lemma connected_of_None:
  "connected_of ss peer = None \<longleftrightarrow> (\<forall>x\<in>set ss. \<not> (s_endpoint x = peer \<and> isConnected x))"
  by (auto simp: connected_of_def find_None_iff all_set_conv_all_nth)

text \<open>Indices below 32768 survive the \<open>int16_t\<close>.\<close>

lemma sint_index16:
  assumes "i < 32768"
  shows "sint (of_nat i :: u16) = int i" "(of_nat i :: u16) \<noteq> - 1"
proof -
  have "sint (word_of_int (int i) :: u16) = int i"
    using assms by (intro sint_of_int16) simp_all
  then show 1: "sint (of_nat i :: u16) = int i" by (simp only: of_int_of_nat_eq)
  show "(of_nat i :: u16) \<noteq> - 1" using 1 by (metis of_nat_0_le_iff sint_n1 neg_0_le_iff_le not_one_le_zero)
qed

lemma session_index_of_nat:
  "i < length ss \<Longrightarrow> i < 32768 \<Longrightarrow> session_index ss (of_nat i) = Inr i"
  by (simp add: session_index_def sint_index16(1))

section \<open>Connect\<close>

text \<open>The index of the session a client gets.\<close>

definition slot_for :: "('ep, 'c) session list \<Rightarrow> nat" where
  "slot_for ss = (case greatest_idle ss of None \<Rightarrow> length ss | Some i \<Rightarrow> i)"

definition usable_sessions :: "'c cryptopp \<Rightarrow> ('ep, 'c) session list \<Rightarrow> bool" where
  "usable_sessions lib ss \<longleftrightarrow> (\<forall>x\<in>set ss. usable lib (s_cryptor x))"

text \<open>The vector after a session has been made at its end, if no session was idle.\<close>

definition with_slot :: "('c cryptor \<Rightarrow> ('ep, 'c) session) \<Rightarrow> 'c cryptor \<Rightarrow> ('ep, 'c) session list \<Rightarrow> ('ep, 'c) session list" where
  "with_slot blank c ss = (if greatest_idle ss = None then ss @ [blank c] else ss)"

lemma slot_bounds: "slot_for ss < length (with_slot blank c ss)" "length (with_slot blank c ss) = max (length ss) (Suc (slot_for ss))"
  by (auto simp: slot_for_def with_slot_def dest: greatest_idle_Some split: option.split)

lemma with_slot_nth: "j < length ss \<Longrightarrow> with_slot blank c ss ! j = ss ! j"
  by (simp add: with_slot_def nth_append)

text \<open>
  A cryptor whose key and vector are the next two blocks of the random pool in state \<open>r\<close>, and the
  state after them; and the state from which a connect draws, two blocks later if a session has
  been made first.
\<close>

definition drawn :: "('r \<Rightarrow> nat \<Rightarrow> bytes \<times> 'r) \<Rightarrow> 'r \<Rightarrow> 'c cryptor \<Rightarrow> 'r \<Rightarrow> bool" where
  "drawn gen r c r' \<longleftrightarrow> c_key c = fst (gen r 16) \<and> c_iv c = fst (gen (snd (gen r 16)) 16)
     \<and> r' = snd (gen (snd (gen r 16)) 16)"

definition connect_random :: "('r \<Rightarrow> nat \<Rightarrow> bytes \<times> 'r) \<Rightarrow> ('ep, 'c, 'j, 'r) server \<Rightarrow> 'r" where
  "connect_random gen s =
     (if greatest_idle (sv_sessions s) = None then snd (gen (snd (gen (sv_random s) 16)) 16) else sv_random s)"

lemma newCryptor_key: "newCryptor lib k v = Inr c \<Longrightarrow> c_key c = k \<and> c_iv c = v"
  unfolding newCryptor_def rbind_def by (auto split: option.splits sum.splits)

lemma randomCryptor_drawn: "randomCryptor lib gen r = Inr (c, r') \<Longrightarrow> drawn gen r c r'"
  by (auto simp: randomCryptor_def drawn_def split_beta res_iffs dest!: newCryptor_key)

lemma connect_run:
  assumes lib: "random_ok lib gen" and ss: "usable_sessions lib (sv_sessions s)" and small: "slot_for (sv_sessions s) < 32768"
    and blank: "\<And>c. s_cryptor (blank c) = c"
  shows "\<exists>c0 c r. usable lib c \<and> drawn gen (connect_random gen s) c r
    \<and> rpcConnectHandler lib gen blank grow s peer user_name user_password
    = Inr ((SUCCESS, c_key c, c_iv c),
        s\<lparr>sv_sessions := (with_slot blank c0 (sv_sessions s))[slot_for (sv_sessions s) :=
            resetSession c (sv_now s) (with_slot blank c0 (sv_sessions s) ! slot_for (sv_sessions s))
              (of_nat (slot_for (sv_sessions s))) peer], sv_random := r\<rparr>)"
proof -
  let ?ss = "sv_sessions s" and ?i = "slot_for (sv_sessions s)"
  obtain c0 r0 where c0: "randomCryptor lib gen (sv_random s) = Inr (c0, r0)" "usable lib c0"
    using randomCryptor_usable[OF lib] by blast
  let ?r = "if greatest_idle ?ss = None then r0 else sv_random s"
  obtain c r where c: "randomCryptor lib gen ?r = Inr (c, r)" "usable lib c"
    using randomCryptor_usable[OF lib] by blast
  have push: "push_session lib grow ?ss (blank c0) = Inr (?ss @ [blank c0])"
    using ss c0(2) blank by (intro push_session_usable) (simp_all add: usable_sessions_def)
  have "pick_session lib gen blank grow s = Inr (of_nat ?i, with_slot blank c0 ?ss, ?r)"
    using c0 push sint_index16(2)[OF small]
    by (auto simp: pick_session_def Let_def last_idle_greatest slot_for_def with_slot_def split: option.splits)
  moreover have "session_index (with_slot blank c0 ?ss) (of_nat ?i) = Inr ?i"
    using slot_bounds(1) small by (rule session_index_of_nat)
  ultimately have "rpcConnectHandler lib gen blank grow s peer user_name user_password
    = Inr ((SUCCESS, c_key c, c_iv c),
        s\<lparr>sv_sessions := (with_slot blank c0 ?ss)[?i :=
            resetSession c (sv_now s) (with_slot blank c0 ?ss ! ?i) (of_nat ?i) peer], sv_random := r\<rparr>)"
    using c(1) by (simp add: rpcConnectHandler_def Let_def)
  moreover have "?r = connect_random gen s"
    using randomCryptor_drawn[OF c0(1)] by (simp add: connect_random_def drawn_def)
  with randomCryptor_drawn[OF c(1)] have "drawn gen (connect_random gen s) c r" by simp
  ultimately show ?thesis using c(2) by blast
qed

lemma connect_effect:
  assumes lib: "random_ok lib gen" and ss: "usable_sessions lib (sv_sessions s)"
    and small: "slot_for (sv_sessions s) < 32768"
  shows "\<exists>c s'. usable lib c
      \<and> rpcConnectHandler lib gen (\<lambda>c. newSession c ep cid err now) grow s peer user_name user_password
        = Inr ((SUCCESS, c_key c, c_iv c), s')
      \<and> length (sv_sessions s') = max (length (sv_sessions s)) (Suc (slot_for (sv_sessions s)))
      \<and> (\<forall>j. j < length (sv_sessions s) \<and> j \<noteq> slot_for (sv_sessions s) \<longrightarrow> sv_sessions s' ! j = sv_sessions s ! j)
      \<and> isConnected (sv_sessions s' ! slot_for (sv_sessions s))
      \<and> s_endpoint (sv_sessions s' ! slot_for (sv_sessions s)) = peer
      \<and> unat (s_clientId (sv_sessions s' ! slot_for (sv_sessions s))) = slot_for (sv_sessions s)
      \<and> s_cryptor (sv_sessions s' ! slot_for (sv_sessions s)) = c
      \<and> s_transmittedBytes (sv_sessions s' ! slot_for (sv_sessions s)) = 0
      \<and> drawn gen (connect_random gen s) c (sv_random s')"
proof -
  let ?blank = "\<lambda>c. newSession c ep cid err now" and ?i = "slot_for (sv_sessions s)"
  obtain c0 c r where c: "usable lib c" "drawn gen (connect_random gen s) c r" "rpcConnectHandler lib gen ?blank grow s peer user_name user_password
    = Inr ((SUCCESS, c_key c, c_iv c),
        s\<lparr>sv_sessions := (with_slot ?blank c0 (sv_sessions s))[?i :=
            resetSession c (sv_now s) (with_slot ?blank c0 (sv_sessions s) ! ?i) (of_nat ?i) peer], sv_random := r\<rparr>)"
    using connect_run[OF lib ss small, of ?blank grow peer] by (auto simp: newSession_def)
  have "unat (of_nat ?i :: u16) = ?i" using small by (simp add: unat_of_nat)
  with c show ?thesis
    using slot_bounds[where ss = "sv_sessions s" and blank = ?blank and c = c0]
    by (auto simp: with_slot_nth resetSession_def isConnected_def)
qed

text \<open>
  C12. A connect with the right name and password gets a session: the idle one with the greatest
  index, or a new one at the end if none is idle, whatever the configured maximum is. The
  session belongs to the caller's endpoint and has its index as identifier. Its key and vector
  are the next two blocks of the random pool (after those of the session that has just been
  made, if one was), and are the ones returned; every other session is as it was. Any other
  name or password is refused and changes nothing.
\<close>

theorem connect_grants_session:
  assumes lib: "random_ok lib gen" and ss: "usable_sessions lib (sv_sessions s)"
    and small: "slot_for (sv_sessions s) < 32768"
  shows "(\<exists>c s'. usable lib c
      \<and> rpcConnectHandler lib gen (\<lambda>c. newSession c ep cid err now) grow s peer user_name user_password
        = Inr ((SUCCESS, c_key c, c_iv c), s')
      \<and> length (sv_sessions s') = max (length (sv_sessions s)) (Suc (slot_for (sv_sessions s)))
      \<and> (\<forall>j. j < length (sv_sessions s) \<and> j \<noteq> slot_for (sv_sessions s) \<longrightarrow> sv_sessions s' ! j = sv_sessions s ! j)
      \<and> isConnected (sv_sessions s' ! slot_for (sv_sessions s))
      \<and> s_endpoint (sv_sessions s' ! slot_for (sv_sessions s)) = peer
      \<and> unat (s_clientId (sv_sessions s' ! slot_for (sv_sessions s))) = slot_for (sv_sessions s)
      \<and> s_cryptor (sv_sessions s' ! slot_for (sv_sessions s)) = c
      \<and> s_transmittedBytes (sv_sessions s' ! slot_for (sv_sessions s)) = 0
      \<and> drawn gen (connect_random gen s) c (sv_random s'))
    \<and> (name \<noteq> user_name \<or> password \<noteq> user_password \<longrightarrow>
      rpcConnectHandler lib gen (\<lambda>c. newSession c ep cid err now) grow s peer name password
        = Inr ((WRONG_CREDENTIAL, [], []), s))"
  using connect_effect[OF assms, of ep cid err now grow peer] by (auto simp: rpcConnectHandler_def)

section \<open>The table in any sequence of handlers\<close>

datatype 'ep call =
    ConnectCall 'ep bytes bytes
  | PingCall 'ep
  | DisconnectCall 'ep
  | RemoveCall u16

fun call_step :: "'c cryptopp \<Rightarrow> ('r \<Rightarrow> nat \<Rightarrow> bytes \<times> 'r) \<Rightarrow> ('c cryptor \<Rightarrow> ('ep, 'c) session) \<Rightarrow> bool \<Rightarrow>
    ('ep, 'c, 'j, 'r) server \<Rightarrow> 'ep call \<Rightarrow> ('ep, 'c, 'j, 'r) server res" where
  "call_step lib gen blank grow s (ConnectCall peer name password) =
     rbind (rpcConnectHandler lib gen blank grow s peer name password) (\<lambda>(x, s'). Inr s')"
| "call_step lib gen blank grow s (PingCall peer) = Inr (snd (rpcPingHandler s peer))"
| "call_step lib gen blank grow s (DisconnectCall peer) = Inr (snd (rpcDisconnectHandler s peer))"
| "call_step lib gen blank grow s (RemoveCall cid) = removeSession s cid"

fun call_run :: "'c cryptopp \<Rightarrow> ('r \<Rightarrow> nat \<Rightarrow> bytes \<times> 'r) \<Rightarrow> ('c cryptor \<Rightarrow> ('ep, 'c) session) \<Rightarrow> bool \<Rightarrow>
    ('ep, 'c, 'j, 'r) server \<Rightarrow> 'ep call list \<Rightarrow> ('ep, 'c, 'j, 'r) server res" where
  "call_run lib gen blank grow s [] = Inr s"
| "call_run lib gen blank grow s (x # xs) =
     rbind (call_step lib gen blank grow s x) (\<lambda>s'. call_run lib gen blank grow s' xs)"

text \<open>
  A session is idle or connected, has a cryptor ready for the next message, and if it is
  connected its identifier is its index.
\<close>

definition table_ok :: "'c cryptopp \<Rightarrow> ('ep, 'c) session list \<Rightarrow> bool" where
  "table_ok lib ss \<longleftrightarrow> (\<forall>i<length ss. usable lib (s_cryptor (ss ! i))
     \<and> (isIdle (ss ! i) \<or> isConnected (ss ! i) \<and> unat (s_clientId (ss ! i)) = i))"

lemma table_ok_update:
  "table_ok lib ss \<Longrightarrow> usable lib (s_cryptor x) \<Longrightarrow>
     isIdle x \<or> isConnected x \<and> unat (s_clientId x) = i \<Longrightarrow> table_ok lib (ss[i := x])"
  unfolding table_ok_def
proof (intro allI impI)
  fix j
  assume a: "\<forall>i<length ss. usable lib (s_cryptor (ss ! i))
      \<and> (isIdle (ss ! i) \<or> isConnected (ss ! i) \<and> unat (s_clientId (ss ! i)) = i)"
    "usable lib (s_cryptor x)" "isIdle x \<or> isConnected x \<and> unat (s_clientId x) = i" "j < length (ss[i := x])"
  then show "usable lib (s_cryptor (ss[i := x] ! j)) \<and> (isIdle (ss[i := x] ! j)
      \<or> isConnected (ss[i := x] ! j) \<and> unat (s_clientId (ss[i := x] ! j)) = j)"
    by (cases "j = i") simp_all
qed

lemma table_ok_push:
  "table_ok lib ss \<Longrightarrow> usable lib (s_cryptor x) \<Longrightarrow> isIdle x \<Longrightarrow> table_ok lib (ss @ [x])"
  by (auto simp: table_ok_def nth_append less_Suc_eq)

lemma table_ok_usable: "table_ok lib ss \<Longrightarrow> usable_sessions lib ss"
  by (auto simp: table_ok_def usable_sessions_def in_set_conv_nth)

lemma unat_sint16: "0 \<le> sint w \<Longrightarrow> unat w = nat (sint w)" for w :: u16
proof -
  assume p: "0 \<le> sint w"
  have "sint w = take_bit 16 (uint w + 32768) - 32768"
    by (simp only: sint_uint signed_take_bit_eq_take_bit_shift) simp
  also have "\<dots> = (uint w + 32768) mod 65536 - 32768"
    by (simp only: take_bit_eq_mod) simp
  finally have s: "sint w = (uint w + 32768) mod 65536 - 32768" .
  have "sint w = uint w - 65536" if "32768 \<le> uint w"
    using s that uint_bound16[of w] mod_add_self2[of "uint w - 32768" 65536] by (simp add: add.commute)
  with p uint_bound16[of w] have "uint w < 32768" by (cases "32768 \<le> uint w") simp_all
  with s have "sint w = uint w" by simp
  then show ?thesis by (simp only: unat_eq_nat_uint)
qed

lemma session_index_exact: "session_index ss w = Inr i \<Longrightarrow> i < length ss \<and> unat w = i"
  by (auto simp: session_index_def unat_sint16 split: if_splits)

lemma connect_table:
  assumes lib: "random_ok lib gen" and ok: "table_ok lib (sv_sessions s)"
    and blank: "\<And>c. s_cryptor (blank c) = c" "\<And>c. isIdle (blank c)"
    and run: "rpcConnectHandler lib gen blank grow s peer name password = Inr (x, s')"
  shows "table_ok lib (sv_sessions s') \<and> length (sv_sessions s) \<le> length (sv_sessions s')"
proof (cases "name = user_name \<and> password = user_password")
  case False
  with run ok show ?thesis by (auto simp: rpcConnectHandler_def)
next
  case True
  obtain c0 r0 where c0: "randomCryptor lib gen (sv_random s) = Inr (c0, r0)" "usable lib c0"
    using randomCryptor_usable[OF lib] by blast
  have push: "push_session lib grow (sv_sessions s) (blank c0) = Inr (sv_sessions s @ [blank c0])"
    using table_ok_usable[OF ok] c0(2) blank by (intro push_session_usable) (simp_all add: usable_sessions_def)
  obtain w ss r i c r' where *: "pick_session lib gen blank grow s = Inr (w, ss, r)" "session_index ss w = Inr i" "randomCryptor lib gen r = Inr (c, r')"
      "sv_sessions s' = ss[i := resetSession c (sv_now s) (ss ! i) w peer]"
    using run True by (auto simp: rpcConnectHandler_def Let_def res_iffs)
  have ss: "ss = sv_sessions s \<or> ss = sv_sessions s @ [blank c0]"
    using *(1) c0(1) push by (auto simp: pick_session_def Let_def split: if_splits)
  have "usable lib c" using randomCryptor_usable[OF lib, of r] *(3) by auto
  moreover have "table_ok lib ss" using ss ok table_ok_push[OF ok] c0(2) blank by auto
  moreover have "length (sv_sessions s) \<le> length ss" using ss by auto
  ultimately show ?thesis
    using *(4) session_index_exact[OF *(2)]
    by (auto intro!: table_ok_update simp: resetSession_def isConnected_def)
qed

lemma table_okD: "table_ok lib ss \<Longrightarrow> i < length ss \<Longrightarrow> usable lib (s_cryptor (ss ! i))
    \<and> (isIdle (ss ! i) \<or> isConnected (ss ! i) \<and> unat (s_clientId (ss ! i)) = i)"
  by (simp add: table_ok_def)

lemma table_ok_id: "table_ok lib ss \<Longrightarrow> i < length ss \<Longrightarrow> isConnected (ss ! i) \<Longrightarrow> unat (s_clientId (ss ! i)) = i"
  by (auto simp: table_ok_def isConnected_def isIdle_def)

lemma updateTransmit_frame [simp]:
  "s_cryptor (updateTransmit now x n) = s_cryptor x" "isConnected (updateTransmit now x n) = isConnected x"
  "s_endpoint (updateTransmit now x n) = s_endpoint x" "s_clientId (updateTransmit now x n) = s_clientId x"
  "isIdle (updateTransmit now x n) = isIdle x"
  by (simp_all add: updateTransmit_def isConnected_def isIdle_def)

lemma call_step_table:
  assumes lib: "random_ok lib gen" and ok: "table_ok lib (sv_sessions s)"
    and blank: "\<And>c. s_cryptor (blank c) = c" "\<And>c. isIdle (blank c)"
    and run: "call_step lib gen blank grow s e = Inr s'"
  shows "table_ok lib (sv_sessions s') \<and> length (sv_sessions s) \<le> length (sv_sessions s')"
proof (cases e)
  case (ConnectCall peer name password)
  with run connect_table[OF lib ok blank] show ?thesis by (auto simp: res_iffs)
next
  case (PingCall peer)
  with run PingCall ok show ?thesis
    using table_okD[OF ok] table_ok_id[OF ok] by (auto simp: rpcPingHandler_def split: option.splits intro!: table_ok_update
        dest!: connected_of_Some)
next
  case (DisconnectCall peer)
  with run ok show ?thesis
    using table_okD[OF ok] by (auto simp: rpcDisconnectHandler_def isIdle_def split: option.splits
        intro!: table_ok_update dest!: connected_of_Some)
next
  case (RemoveCall cid)
  with run ok show ?thesis
    using table_okD[OF ok] by (auto simp: removeSession_def get_session_def res_iffs isIdle_def
        split: if_splits intro!: table_ok_update)
qed

lemma table_grows:
  assumes lib: "random_ok lib gen" and ok: "table_ok lib (sv_sessions s)"
    and run: "call_run lib gen (\<lambda>c. newSession c ep cid err now) grow s xs = Inr s'"
  shows "table_ok lib (sv_sessions s') \<and> length (sv_sessions s) \<le> length (sv_sessions s')"
  using ok run
proof (induction xs arbitrary: s)
  case (Cons x xs)
  let ?blank = "\<lambda>c. newSession c ep cid err now"
  obtain s1 where s1: "call_step lib gen ?blank grow s x = Inr s1" "call_run lib gen ?blank grow s1 xs = Inr s'"
    using Cons.prems(2) by (auto simp: res_iffs)
  have "table_ok lib (sv_sessions s1) \<and> length (sv_sessions s) \<le> length (sv_sessions s1)"
    by (rule call_step_table[OF lib Cons.prems(1) _ _ s1(1)]) (simp_all add: newSession_def isIdle_def)
  with Cons.IH[OF _ s1(2)] show ?case by force
qed simp

text \<open>
  C10. In any sequence of connects, pings, disconnects and removals the session table keeps its
  form: sessions are never taken out of it, each is idle or connected, its cryptor is ready
  for the next message, and the identifier of a connected one is its index, which is what
  the packets of its client are looked up with.
\<close>

theorem session_table_kept:
  assumes lib: "random_ok lib gen" and ok: "table_ok lib (sv_sessions s)"
    and run: "call_run lib gen (\<lambda>c. newSession c ep cid err now) grow s xs = Inr s'"
  shows "table_ok lib (sv_sessions s') \<and> length (sv_sessions s) \<le> length (sv_sessions s')"
  by (rule table_grows[OF lib ok run])

section \<open>The life of a session\<close>

lemma connected_of_hit:
  assumes "i < length ss" "isConnected (ss ! i)" "s_endpoint (ss ! i) = peer"
    and "\<And>j. j < length ss \<Longrightarrow> j \<noteq> i \<Longrightarrow> \<not> (s_endpoint (ss ! j) = peer \<and> isConnected (ss ! j))"
  shows "connected_of ss peer = Some i"
proof (cases "connected_of ss peer")
  case None
  with assms show ?thesis using nth_mem by (fastforce simp: connected_of_None)
next
  case (Some j)
  with assms(4)[of j] connected_of_Some[OF Some] show ?thesis by auto
qed

lemma idle_not_connected: "\<not> isConnected (x\<lparr>s_status := IDLE\<rparr>)"
  by (simp add: isConnected_def)

lemma disconnect_only:
  assumes "connected_of (sv_sessions s) peer = Some i"
    and only: "\<And>j. j < length (sv_sessions s) \<Longrightarrow> j \<noteq> i \<Longrightarrow>
      \<not> (s_endpoint (sv_sessions s ! j) = peer \<and> isConnected (sv_sessions s ! j))"
  shows "connected_of (sv_sessions (snd (rpcDisconnectHandler s peer))) peer = None"
proof -
  have "\<not> (s_endpoint (sv_sessions (snd (rpcDisconnectHandler s peer)) ! j) = peer
      \<and> isConnected (sv_sessions (snd (rpcDisconnectHandler s peer)) ! j))" if "j < length (sv_sessions s)" for j
    using that only[of j] connected_of_Some[OF assms(1)]
    by (cases "j = i") (simp_all add: rpcDisconnectHandler_def assms(1) idle_not_connected)
  then show ?thesis
    by (auto simp: connected_of_None all_set_conv_all_nth rpcDisconnectHandler_def assms(1))
qed

lemma handlers_answer:
  "fst (rpcPingHandler s peer) = (if connected_of (sv_sessions s) peer = None then NOT_CONNECTED else SUCCESS)"
  "fst (rpcDisconnectHandler s peer) = (if connected_of (sv_sessions s) peer = None then NOT_CONNECTED else SUCCESS)"
  by (auto simp: rpcPingHandler_def rpcDisconnectHandler_def split: option.split)

text \<open>
  The life of a session. An endpoint without a session that connects with the right name
  and password is answered a ping until it disconnects, and afterwards neither a ping nor
  another disconnect finds a session of it.
\<close>

theorem session_lifecycle:
  assumes lib: "random_ok lib gen" and ss: "usable_sessions lib (sv_sessions s)"
    and small: "slot_for (sv_sessions s) < 32768" and fresh: "connected_of (sv_sessions s) peer = None"
  shows "\<exists>x s1 s2 s3. rpcConnectHandler lib gen (\<lambda>c. newSession c ep cid err now) grow s peer user_name user_password = Inr (x, s1)
    \<and> rpcPingHandler s1 peer = (SUCCESS, s2) \<and> rpcDisconnectHandler s2 peer = (SUCCESS, s3)
    \<and> rpcPingHandler s3 peer = (NOT_CONNECTED, s3) \<and> rpcDisconnectHandler s3 peer = (NOT_CONNECTED, s3)"
proof -
  let ?i = "slot_for (sv_sessions s)"
  obtain x s1 where c: "rpcConnectHandler lib gen (\<lambda>c. newSession c ep cid err now) grow s peer user_name user_password = Inr (x, s1)"
    and len: "length (sv_sessions s1) = max (length (sv_sessions s)) (Suc ?i)"
    and same: "\<And>j. j < length (sv_sessions s) \<Longrightarrow> j \<noteq> ?i \<Longrightarrow> sv_sessions s1 ! j = sv_sessions s ! j"
    and i: "isConnected (sv_sessions s1 ! ?i)" "s_endpoint (sv_sessions s1 ! ?i) = peer"
    using connect_effect[OF lib ss small, of ep cid err now grow peer] by metis
  have le: "?i \<le> length (sv_sessions s)"
    by (auto simp: slot_for_def dest!: greatest_idle_Some split: option.split)
  have other: "\<not> (s_endpoint (sv_sessions s1 ! j) = peer \<and> isConnected (sv_sessions s1 ! j))"
    if "j < length (sv_sessions s1)" "j \<noteq> ?i" for j
  proof -
    have "j < length (sv_sessions s)" using that len le by auto
    with same[OF this that(2)] fresh show ?thesis by (auto simp: connected_of_None)
  qed
  have hit: "connected_of (sv_sessions s1) peer = Some ?i"
    using connected_of_hit[OF _ i other] len by simp
  define s2 where "s2 = s1\<lparr>sv_sessions := (sv_sessions s1)[?i := updateTransmit (sv_now s1) (sv_sessions s1 ! ?i) 0]\<rparr>"
  have p: "rpcPingHandler s1 peer = (SUCCESS, s2)" by (simp add: rpcPingHandler_def hit s2_def)
  have other2: "\<not> (s_endpoint (sv_sessions s2 ! j) = peer \<and> isConnected (sv_sessions s2 ! j))"
    if "j < length (sv_sessions s2)" "j \<noteq> ?i" for j
    using other[of j] that by (simp add: s2_def)
  have hit2: "connected_of (sv_sessions s2) peer = Some ?i"
    using connected_of_hit[OF _ _ _ other2] i len by (simp add: s2_def)
  obtain s3 where d: "rpcDisconnectHandler s2 peer = (SUCCESS, s3)"
    using handlers_answer(2)[of s2 peer] hit2 by (cases "rpcDisconnectHandler s2 peer") simp
  have "connected_of (sv_sessions s3) peer = None"
    using disconnect_only[OF hit2 other2] d by simp
  then have "rpcPingHandler s3 peer = (NOT_CONNECTED, s3)" "rpcDisconnectHandler s3 peer = (NOT_CONNECTED, s3)"
    by (simp_all add: rpcPingHandler_def rpcDisconnectHandler_def)
  with c p d show ?thesis by blast
qed

lemma slot_not_connected: "slot_for ss < length ss \<Longrightarrow> \<not> isConnected (ss ! slot_for ss)"
  by (auto simp: slot_for_def isConnected_def isIdle_def dest!: greatest_idle_Some split: option.splits)

lemma slot_le: "slot_for ss \<le> length ss"
  by (auto simp: slot_for_def dest!: greatest_idle_Some split: option.split)

lemma disconnect_one_of_two:
  assumes ab: "a \<noteq> b" and in_range: "a < length (sv_sessions s)" "b < length (sv_sessions s)"
    and con: "\<And>i. i = a \<or> i = b \<Longrightarrow> isConnected (sv_sessions s ! i) \<and> s_endpoint (sv_sessions s ! i) = peer"
  shows "\<exists>s'. rpcDisconnectHandler s peer = (SUCCESS, s') \<and> connected_of (sv_sessions s') peer \<noteq> None"
proof -
  obtain i where i: "connected_of (sv_sessions s) peer = Some i"
    using in_range(1) con[of a] nth_mem[OF in_range(1)]
    by (cases "connected_of (sv_sessions s) peer") (auto simp: connected_of_None)
  obtain j where j: "j = a \<or> j = b" "j \<noteq> i" using ab by auto
  let ?s = "s\<lparr>sv_sessions := (sv_sessions s)[i := (sv_sessions s ! i)\<lparr>s_status := IDLE\<rparr>]\<rparr>"
  have "j < length (sv_sessions ?s)" using j(1) in_range by auto
  moreover have "sv_sessions ?s ! j = sv_sessions s ! j" using j(2) by simp
  ultimately have "\<exists>x\<in>set (sv_sessions ?s). s_endpoint x = peer \<and> isConnected x"
    using con[OF j(1)] nth_mem by metis
  then have "connected_of (sv_sessions ?s) peer \<noteq> None" unfolding connected_of_None by blast
  moreover have "rpcDisconnectHandler s peer = (SUCCESS, ?s)" by (simp add: rpcDisconnectHandler_def i)
  ultimately show ?thesis by blast
qed

text \<open>
  A client that connects twice, for example because the answer to its first request was lost
  and it has started again, holds two sessions, and one disconnect does not end both: it
  still has a connected session afterwards.
\<close>

theorem reconnect_leaks_session:
  assumes lib: "random_ok lib gen" and ss: "usable_sessions lib (sv_sessions s)"
    and small: "length (sv_sessions s) < 32767"
  shows "\<exists>x1 s1 x2 s2 s3 s4.
      rpcConnectHandler lib gen (\<lambda>c. newSession c ep cid err now) grow s peer user_name user_password = Inr (x1, s1)
    \<and> rpcConnectHandler lib gen (\<lambda>c. newSession c ep cid err now) grow s1 peer user_name user_password = Inr (x2, s2)
    \<and> rpcDisconnectHandler s2 peer = (SUCCESS, s3) \<and> rpcPingHandler s3 peer = (SUCCESS, s4)"
proof -
  let ?i = "slot_for (sv_sessions s)"
  have i: "?i < 32768" using slot_le[of "sv_sessions s"] small by simp
  obtain c x1 s1 where 1: "rpcConnectHandler lib gen (\<lambda>c. newSession c ep cid err now) grow s peer user_name user_password = Inr (x1, s1)"
    "usable lib c" "length (sv_sessions s1) = max (length (sv_sessions s)) (Suc ?i)"
    "\<forall>j. j < length (sv_sessions s) \<and> j \<noteq> ?i \<longrightarrow> sv_sessions s1 ! j = sv_sessions s ! j"
    "isConnected (sv_sessions s1 ! ?i)" "s_endpoint (sv_sessions s1 ! ?i) = peer" "s_cryptor (sv_sessions s1 ! ?i) = c"
    using connect_effect[OF lib ss i, of ep cid err now grow peer] by metis
  have len: "length (sv_sessions s1) < 32768" using 1(3) slot_le[of "sv_sessions s"] small by simp
  have "usable lib (s_cryptor (sv_sessions s1 ! j))" if "j < length (sv_sessions s1)" for j
  proof (cases "j = ?i")
    case True
    then show ?thesis using 1(2,7) by simp
  next
    case False
    with that 1(3) slot_le[of "sv_sessions s"] have "j < length (sv_sessions s)" by auto
    with False 1(4) ss show ?thesis by (simp add: usable_sessions_def)
  qed
  then have ss1: "usable_sessions lib (sv_sessions s1)"
    by (auto simp: usable_sessions_def in_set_conv_nth)
  let ?j = "slot_for (sv_sessions s1)"
  have j: "?j < 32768" using slot_le[of "sv_sessions s1"] len by simp
  obtain x2 s2 where 2: "rpcConnectHandler lib gen (\<lambda>c. newSession c ep cid err now) grow s1 peer user_name user_password = Inr (x2, s2)"
    "length (sv_sessions s2) = max (length (sv_sessions s1)) (Suc ?j)"
    "\<forall>k. k < length (sv_sessions s1) \<and> k \<noteq> ?j \<longrightarrow> sv_sessions s2 ! k = sv_sessions s1 ! k"
    "isConnected (sv_sessions s2 ! ?j)" "s_endpoint (sv_sessions s2 ! ?j) = peer"
    using connect_effect[OF lib ss1 j, of ep cid err now grow peer] by metis
  have range: "?i < length (sv_sessions s1)" using 1(3) by simp
  have diff: "?i \<noteq> ?j" using slot_not_connected[of "sv_sessions s1"] 1(5) range by auto
  have "isConnected (sv_sessions s2 ! k) \<and> s_endpoint (sv_sessions s2 ! k) = peer" if "k = ?i \<or> k = ?j" for k
    using that 1(5,6) 2(3-5) diff range by auto
  then obtain s3 where s3: "rpcDisconnectHandler s2 peer = (SUCCESS, s3)" "connected_of (sv_sessions s3) peer \<noteq> None"
    using disconnect_one_of_two[OF diff, of s2 peer] range 2(2) by (auto simp: less_max_iff_disj)
  then obtain s4 where "rpcPingHandler s3 peer = (SUCCESS, s4)"
    using handlers_answer(1)[of s3 peer] by (cases "rpcPingHandler s3 peer") auto
  with 1(1) 2(1) s3(1) show ?thesis by blast
qed

section \<open>Instances\<close>

text \<open>A server of one session on the small cipher.\<close>

definition demo_session :: "(nat, u8 \<times> u8) session" where
  "demo_session = newSession demo_cryptor 0 0 0 0"

definition demo_server :: "(nat, u8 \<times> u8, 'j, nat) server" where
  "demo_server = \<lparr>sv_config = demo_config, sv_tcpNapt = newNapt 1000 1002, sv_udpNapt = newNapt 1000 1002,
     sv_sessions = [demo_session], sv_rpc = newRpcProtocol demo_memory demo_cryptor (newPool 2) () 10,
     sv_receiveEp = 0, sv_running = False, sv_receiving = None, sv_sending = [], sv_ifAddress = 7,
     sv_raw = [], sv_out = [], sv_now = 0, sv_random = 0\<rparr>"

lemma demo_usable: "usable feedback_lib demo_cryptor"
proof -
  have "ready feedback_lib demo_key demo_key demo_cryptor"
    using newCryptor_ready[OF demo_cipher_ok] demo_newCryptor by auto
  then show ?thesis by (simp add: usable_def demo_cryptor_def)
qed

lemma demo_sessions:
  "sv_sessions demo_server = [demo_session]" "usable_sessions feedback_lib [demo_session]"
  "table_ok feedback_lib [demo_session]" "slot_for [demo_session] = 0" "connected_of [demo_session] peer = None"
  using demo_usable
  by (simp_all add: demo_server_def usable_sessions_def demo_session_def newSession_def table_ok_def isIdle_def
      slot_for_def greatest_idle_def connected_of_def isConnected_def)

theorem connect_grants_session_witness:
  "\<exists>s'. rpcConnectHandler feedback_lib demo_random (\<lambda>c. newSession c 0 0 0 0) False
      (demo_server :: (nat, u8 \<times> u8, unit, nat) server) 5 user_name user_password
        = Inr ((SUCCESS, map of_nat [0..<16], map (\<lambda>i. 16 + of_nat i) [0..<16]), s')
    \<and> isConnected (sv_sessions s' ! 0) \<and> s_endpoint (sv_sessions s' ! 0) = 5 \<and> sv_random s' = 32"
proof -
  have r: "connect_random demo_random (demo_server :: (nat, u8 \<times> u8, unit, nat) server) = 0"
    by (simp add: connect_random_def demo_sessions greatest_idle_def) (simp add: demo_server_def demo_session_def newSession_def isIdle_def)
  have d: "drawn demo_random 0 c r \<longleftrightarrow> c_key c = map of_nat [0..<16] \<and> c_iv c = map (\<lambda>i. 16 + of_nat i) [0..<16] \<and> r = 32" for c r
    by (simp add: drawn_def demo_random_def del: upt_rec_numeral map_eq_conv)
  show ?thesis
    using connect_grants_session[OF demo_random_ok, of "demo_server :: (nat, u8 \<times> u8, unit, nat) server" 0 0 0 0 False 5 "[]" "[]",
        unfolded demo_sessions r d, OF demo_sessions(2)]
    by fastforce
qed

theorem session_table_kept_witness:
  "table_ok feedback_lib (sv_sessions (demo_server :: (nat, u8 \<times> u8, unit, nat) server))"
  using session_table_kept[OF demo_random_ok, of "demo_server :: (nat, u8 \<times> u8, unit, nat) server" 0 0 0 0 False
      "[PingCall 5, DisconnectCall 5]" demo_server]
  by (simp add: demo_sessions rpcPingHandler_def rpcDisconnectHandler_def)

theorem session_lifecycle_witness:
  "\<exists>x s1 s2. rpcConnectHandler feedback_lib demo_random (\<lambda>c. newSession c 0 0 0 0) False
      (demo_server :: (nat, u8 \<times> u8, unit, nat) server) 5 user_name user_password = Inr (x, s1)
    \<and> rpcPingHandler s1 5 = (SUCCESS, s2)"
  using session_lifecycle[OF demo_random_ok, of "demo_server :: (nat, u8 \<times> u8, unit, nat) server" 5 0 0 0 0 False]
  by (auto simp: demo_sessions)

theorem reconnect_leaks_session_witness:
  "\<exists>s2 s3 s4. rpcDisconnectHandler (s2 :: (nat, u8 \<times> u8, unit, nat) server) 5 = (SUCCESS, s3)
    \<and> rpcPingHandler s3 5 = (SUCCESS, s4)"
  using reconnect_leaks_session[OF demo_random_ok, of "demo_server :: (nat, u8 \<times> u8, unit, nat) server" 0 0 0 0 False 5]
  by (auto simp: demo_sessions)

end
