(* ===== verification/SessionRegistry.thy ===== *)
theory SessionRegistry
  imports ServerSessions
begin

text \<open>
  What the session table of \<^verbatim>\<open>server/TunnelServer.cc\<close> stands for: a map from endpoints to the
  slot, key and initialisation vector of their session. The handlers implement the obvious
  operations on it, as long as no endpoint connects that is connected already.
\<close>

section \<open>The abstraction\<close>

type_synonym 'ep registry = "'ep \<rightharpoonup> nat \<times> bytes \<times> bytes"

definition entry :: "('ep, 'c) session list \<Rightarrow> nat \<Rightarrow> nat \<times> bytes \<times> bytes" where
  "entry ss i = (i, c_key (s_cryptor (ss ! i)), c_iv (s_cryptor (ss ! i)))"

definition registry :: "('ep, 'c) session list \<Rightarrow> 'ep registry" where
  "registry ss = (\<lambda>ep. map_option (entry ss) (connected_of ss ep))"

definition held_by :: "('ep, 'c) session list \<Rightarrow> nat \<Rightarrow> 'ep \<Rightarrow> bool" where
  "held_by ss i ep \<longleftrightarrow> i < length ss \<and> isConnected (ss ! i) \<and> s_endpoint (ss ! i) = ep"

definition one_each :: "('ep, 'c) session list \<Rightarrow> bool" where
  "one_each ss \<longleftrightarrow> (\<forall>i j ep. held_by ss i ep \<and> held_by ss j ep \<longrightarrow> i = j)"

lemma connected_of_held: "one_each ss \<Longrightarrow> connected_of ss ep = Some i \<longleftrightarrow> held_by ss i ep"
proof
  assume "connected_of ss ep = Some i"
  then show "held_by ss i ep" by (auto simp: held_by_def dest: connected_of_Some)
next
  assume one: "one_each ss" and i: "held_by ss i ep"
  show "connected_of ss ep = Some i"
  proof (cases "connected_of ss ep")
    case None
    with i show ?thesis by (auto simp: connected_of_None held_by_def)
  next
    case (Some j)
    then have "held_by ss j ep" by (auto simp: held_by_def dest: connected_of_Some)
    with Some one i show ?thesis unfolding one_each_def by blast
  qed
qed

lemma registry_held: "one_each ss \<Longrightarrow> registry ss ep = Some x \<longleftrightarrow> (\<exists>i. held_by ss i ep \<and> x = entry ss i)"
  by (auto simp: registry_def connected_of_held)

lemma registry_None: "registry ss ep = None \<longleftrightarrow> (\<forall>i. \<not> held_by ss i ep)"
  by (auto simp: registry_def connected_of_None held_by_def all_set_conv_all_nth)

text \<open>Two tables that differ in one slot.\<close>

definition same_but :: "nat \<Rightarrow> ('ep, 'c) session list \<Rightarrow> ('ep, 'c) session list \<Rightarrow> bool" where
  "same_but i ss ss' \<longleftrightarrow> (\<forall>j. j \<noteq> i \<longrightarrow> (j < length ss' \<longleftrightarrow> j < length ss) \<and> (j < length ss \<longrightarrow> ss' ! j = ss ! j))"

lemma same_but_update: "same_but i ss (ss[i := x])"
  by (simp add: same_but_def)

lemma held_other: "same_but i ss ss' \<Longrightarrow> j \<noteq> i \<Longrightarrow> held_by ss' j ep \<longleftrightarrow> held_by ss j ep"
  by (auto simp: same_but_def held_by_def)

lemma entry_other: "same_but i ss ss' \<Longrightarrow> j \<noteq> i \<Longrightarrow> held_by ss j ep \<Longrightarrow> entry ss' j = entry ss j"
  by (auto simp: same_but_def held_by_def entry_def)

lemma map_eqI: "(\<And>k x. m k = Some x \<longleftrightarrow> n k = Some x) \<Longrightarrow> m = n"
  by (rule ext) (metis not_None_eq)

lemma registry_gain:
  assumes one: "one_each ss" and but: "same_but i ss ss'" and free: "\<And>ep. \<not> held_by ss i ep"
    and i: "held_by ss' i peer" and new: "registry ss peer = None"
  shows "one_each ss'" "registry ss' = (registry ss)(peer \<mapsto> entry ss' i)"
proof -
  have held: "held_by ss' j ep \<longleftrightarrow> held_by ss j ep \<or> j = i \<and> ep = peer" for j ep
    using held_other[OF but] free i by (cases "j = i") (auto simp: held_by_def)
  show one': "one_each ss'"
    using one new free unfolding one_each_def held registry_None by blast
  show "registry ss' = (registry ss)(peer \<mapsto> entry ss' i)"
  proof (rule map_eqI)
    fix ep x
    show "registry ss' ep = Some x \<longleftrightarrow> ((registry ss)(peer \<mapsto> entry ss' i)) ep = Some x"
    proof (cases "ep = peer")
      case True
      have "held_by ss' j peer \<longleftrightarrow> j = i" for j using held[of j peer] new by (auto simp: registry_None)
      with True show ?thesis by (auto simp: registry_held[OF one'])
    next
      case False
      have "entry ss' j = entry ss j" if "held_by ss j ep" for j using entry_other[OF but _ that] that free by blast
      with False held show ?thesis by (auto simp: registry_held[OF one'] registry_held[OF one])
    qed
  qed
qed

definition without_slot :: "nat \<Rightarrow> 'ep registry \<Rightarrow> 'ep registry" where
  "without_slot i R = (\<lambda>ep. case R ep of None \<Rightarrow> None | Some x \<Rightarrow> if fst x = i then None else Some x)"

lemma registry_lose:
  assumes one: "one_each ss" and but: "same_but i ss ss'" and gone: "\<And>ep. \<not> held_by ss' i ep"
  shows "one_each ss'" "registry ss' = without_slot i (registry ss)"
proof -
  have held: "held_by ss' j ep \<longleftrightarrow> held_by ss j ep \<and> j \<noteq> i" for j ep
    using held_other[OF but] gone by (cases "j = i") auto
  show one': "one_each ss'" using one unfolding one_each_def held by blast
  have old: "registry ss ep = Some (j, k, v) \<longleftrightarrow> held_by ss j ep \<and> (j, k, v) = entry ss j" for ep j k v
    by (auto simp: registry_held[OF one] entry_def)
  show "registry ss' = without_slot i (registry ss)"
  proof (rule map_eqI)
    fix ep and x :: "nat \<times> bytes \<times> bytes"
    obtain j k v where x: "x = (j, k, v)" by (metis prod_cases3)
    have "registry ss' ep = Some x \<longleftrightarrow> held_by ss j ep \<and> j \<noteq> i \<and> x = entry ss' j"
      by (auto simp: registry_held[OF one'] held x entry_def)
    moreover have "without_slot i (registry ss) ep = Some x \<longleftrightarrow> registry ss ep = Some x \<and> j \<noteq> i"
      by (auto simp: without_slot_def x split: option.splits)
    ultimately show "registry ss' ep = Some x \<longleftrightarrow> without_slot i (registry ss) ep = Some x"
      using entry_other[OF but] by (auto simp: old x)
  qed
qed

lemma registry_same:
  assumes "same_but i ss ss'" "length ss' = length ss"
    "i < length ss \<Longrightarrow> isConnected (ss' ! i) = isConnected (ss ! i) \<and> s_endpoint (ss' ! i) = s_endpoint (ss ! i)
       \<and> s_cryptor (ss' ! i) = s_cryptor (ss ! i)"
    "one_each ss"
  shows "one_each ss'" "registry ss' = registry ss"
proof -
  have held: "held_by ss' j ep \<longleftrightarrow> held_by ss j ep" for j ep
    using held_other[OF assms(1), of j ep] assms(2,3) by (cases "j = i") (auto simp: held_by_def)
  have ent: "entry ss' j = entry ss j" if "held_by ss j ep" for j ep
    using entry_other[OF assms(1) _ that] that assms(3) by (cases "j = i") (auto simp: entry_def held_by_def)
  show one': "one_each ss'" using assms(4) unfolding one_each_def held .
  show "registry ss' = registry ss"
    by (rule map_eqI) (auto simp: registry_held[OF one'] registry_held[OF assms(4)] held ent)
qed

section \<open>The specification and the simulation\<close>

text \<open>
  A connect with the right name and password gives its endpoint a slot that no other has,
  with some key; a disconnect takes its endpoint out; a removal takes out whoever has the
  slot; nothing else changes anything.
\<close>

fun registry_step :: "'ep registry \<Rightarrow> 'ep call \<Rightarrow> 'ep registry \<Rightarrow> bool" where
  "registry_step R (ConnectCall peer name password) R' \<longleftrightarrow>
     (if name = user_name \<and> password = user_password
      then \<exists>x. R' = R(peer \<mapsto> x) \<and> fst x \<notin> fst ` ran R else R' = R)"
| "registry_step R (PingCall peer) R' \<longleftrightarrow> R' = R"
| "registry_step R (DisconnectCall peer) R' \<longleftrightarrow> R' = R(peer := None)"
| "registry_step R (RemoveCall cid) R' \<longleftrightarrow> R' = without_slot (unat cid) R"

fun registry_run :: "'ep registry \<Rightarrow> 'ep call list \<Rightarrow> 'ep registry \<Rightarrow> bool" where
  "registry_run R [] R' \<longleftrightarrow> R' = R"
| "registry_run R (x # xs) R' \<longleftrightarrow> (\<exists>R1. registry_step R x R1 \<and> registry_run R1 xs R')"

text \<open>No endpoint connects that is connected already.\<close>

definition connects_once :: "'ep call \<Rightarrow> ('ep, 'c) session list \<Rightarrow> bool" where
  "connects_once x ss \<longleftrightarrow> (\<forall>peer. x = ConnectCall peer user_name user_password \<longrightarrow> connected_of ss peer = None)"

fun orderly :: "'c cryptopp \<Rightarrow> ('r \<Rightarrow> nat \<Rightarrow> bytes \<times> 'r) \<Rightarrow> ('c cryptor \<Rightarrow> ('ep, 'c) session) \<Rightarrow> bool \<Rightarrow>
    ('ep, 'c, 'j, 'r) server \<Rightarrow> 'ep call list \<Rightarrow> bool" where
  "orderly lib gen blank grow s [] \<longleftrightarrow> True"
| "orderly lib gen blank grow s (x # xs) \<longleftrightarrow> connects_once x (sv_sessions s)
     \<and> (case call_step lib gen blank grow s x of Inl _ \<Rightarrow> True | Inr s' \<Rightarrow> orderly lib gen blank grow s' xs)"

lemma registry_disconnect:
  assumes "one_each ss" "connected_of ss peer = Some i"
  shows "without_slot i (registry ss) = (registry ss)(peer := None)"
proof
  fix ep
  have "held_by ss i peer" using assms by (simp add: connected_of_held)
  then have "registry ss ep = Some x \<Longrightarrow> fst x = i \<longleftrightarrow> ep = peer" for x
    using assms(1) by (auto simp: registry_held entry_def) (auto simp: held_by_def one_each_def)
  then show "without_slot i (registry ss) ep = ((registry ss)(peer := None)) ep"
    using \<open>held_by ss i peer\<close> registry_None[of ss peer]
    by (cases "registry ss ep") (auto simp: without_slot_def split: option.splits)
qed

lemma connect_refines:
  assumes lib: "random_ok lib gen" and ok: "table_ok lib (sv_sessions s)" and one: "one_each (sv_sessions s)"
    and fresh: "connected_of (sv_sessions s) peer = None" and small: "length (sv_sessions s) < 32768"
    and run: "rpcConnectHandler lib gen (\<lambda>c. newSession c ep cid err now) grow s peer user_name user_password = Inr (x, s')"
  shows "one_each (sv_sessions s') \<and> (\<exists>e. registry (sv_sessions s') = (registry (sv_sessions s))(peer \<mapsto> e)
    \<and> fst e \<notin> fst ` ran (registry (sv_sessions s)))"
proof -
  let ?ss = "sv_sessions s" and ?i = "slot_for (sv_sessions s)"
  have i: "?i \<le> length ?ss" by (rule slot_le)
  have "?i < 32768" using i small by simp
  from connect_effect[OF lib table_ok_usable[OF ok] this, of ep cid err now grow peer] run
  have s': "length (sv_sessions s') = max (length ?ss) (Suc ?i)"
    "\<forall>j. j < length ?ss \<and> j \<noteq> ?i \<longrightarrow> sv_sessions s' ! j = ?ss ! j" "isConnected (sv_sessions s' ! ?i)"
    "s_endpoint (sv_sessions s' ! ?i) = peer" by auto
  have but: "same_but ?i ?ss (sv_sessions s')" using s'(1,2) i by (auto simp: same_but_def less_max_iff_disj)
  have free: "\<not> held_by ?ss ?i e" for e using slot_not_connected[of ?ss] by (auto simp: held_by_def)
  have hold: "held_by (sv_sessions s') ?i peer" using s' by (simp add: held_by_def)
  have new: "registry ?ss peer = None" using fresh by (simp add: registry_def)
  have "fst (entry (sv_sessions s') ?i) \<notin> fst ` ran (registry ?ss)"
    using free one by (auto simp: ran_def registry_held entry_def)
  with registry_gain[OF one but free hold new] show ?thesis by blast
qed

lemma call_refines:
  assumes lib: "random_ok lib gen" and ok: "table_ok lib (sv_sessions s)" and one: "one_each (sv_sessions s)"
    and fresh: "connects_once x (sv_sessions s)" and small: "length (sv_sessions s) < 32768"
    and run: "call_step lib gen (\<lambda>c. newSession c ep cid err now) grow s x = Inr s'"
  shows "one_each (sv_sessions s') \<and> registry_step (registry (sv_sessions s)) x (registry (sv_sessions s'))"
proof (cases x)
  case (ConnectCall peer name password)
  show ?thesis
  proof (cases "name = user_name \<and> password = user_password")
    case True
    then obtain y where "rpcConnectHandler lib gen (\<lambda>c. newSession c ep cid err now) grow s peer user_name user_password = Inr (y, s')"
      using run ConnectCall by (auto simp: res_iffs)
    from connect_refines[OF lib ok one _ small this] fresh True ConnectCall
    show ?thesis by (auto simp: connects_once_def)
  next
    case False
    then have "s' = s" using run ConnectCall by (auto simp: rpcConnectHandler_def res_iffs)
    with False ConnectCall one show ?thesis by auto
  qed
next
  case (PingCall peer)
  show ?thesis
  proof (cases "connected_of (sv_sessions s) peer")
    case (Some i)
    let ?ss' = "(sv_sessions s)[i := updateTransmit (sv_now s) (sv_sessions s ! i) 0]"
    have "s_cryptor (?ss' ! i) = s_cryptor (sv_sessions s ! i)" "isConnected (?ss' ! i) = isConnected (sv_sessions s ! i)"
      "s_endpoint (?ss' ! i) = s_endpoint (sv_sessions s ! i)" if "i < length (sv_sessions s)" using that by simp_all
    with registry_same[OF same_but_update _ _ one, of i "updateTransmit (sv_now s) (sv_sessions s ! i) 0"] run PingCall Some
    show ?thesis by (auto simp: rpcPingHandler_def)
  qed (use run PingCall one in \<open>simp add: rpcPingHandler_def\<close>)
next
  case (DisconnectCall peer)
  show ?thesis
  proof (cases "connected_of (sv_sessions s) peer")
    case None
    then have "registry (sv_sessions s) peer = None" by (simp add: registry_def)
    then have "(registry (sv_sessions s))(peer := None) = registry (sv_sessions s)" by (simp add: fun_upd_idem)
    with None run DisconnectCall one show ?thesis by (simp add: rpcDisconnectHandler_def)
  next
    case (Some i)
    let ?ss' = "(sv_sessions s)[i := (sv_sessions s ! i)\<lparr>s_status := IDLE\<rparr>]"
    have "\<not> held_by ?ss' i e" for e by (auto simp: held_by_def isConnected_def)
    moreover have "s' = s\<lparr>sv_sessions := ?ss'\<rparr>" using run DisconnectCall Some by (simp add: rpcDisconnectHandler_def)
    ultimately show ?thesis
      using registry_lose[OF one same_but_update] registry_disconnect[OF one Some] DisconnectCall by simp
  qed
next
  case (RemoveCall c)
  show ?thesis
  proof (cases "unat c \<le> length (sv_sessions s)")
    case True
    let ?ss' = "(sv_sessions s)[unat c := (sv_sessions s ! unat c)\<lparr>s_status := IDLE\<rparr>]"
    have "sv_sessions s' = ?ss'" using run RemoveCall True by (auto simp: removeSession_def get_session_def res_iffs split: if_splits)
    moreover have "\<not> held_by ?ss' (unat c) e" for e by (auto simp: held_by_def isConnected_def)
    ultimately show ?thesis using registry_lose[OF one same_but_update, of "unat c"] RemoveCall by simp
  next
    case False
    have "registry (sv_sessions s) e \<noteq> Some (unat c, y)" for e y
      using False by (auto simp: registry_held[OF one] entry_def held_by_def)
    then have "without_slot (unat c) (registry (sv_sessions s)) = registry (sv_sessions s)"
      by (auto simp: without_slot_def fun_eq_iff split: option.split)
    with run RemoveCall False one show ?thesis by (simp add: removeSession_def)
  qed
qed

text \<open>
  C11. The session table refines a registry. Read as a map from endpoints to slot, key and
  vector, the table is changed by any sequence of connects, pings, disconnects and removals
  exactly as the specification says, if no endpoint connects twice without a disconnect: a
  connect gives a slot of its own, no endpoint ever has two sessions, and a ping or disconnect
  succeeds exactly for the endpoints of the map.
\<close>

theorem sessions_refine_registry:
  assumes lib: "random_ok lib gen" and ok: "table_ok lib (sv_sessions s)" and one: "one_each (sv_sessions s)"
    and order: "orderly lib gen (\<lambda>c. newSession c ep cid err now) grow s xs"
    and run: "call_run lib gen (\<lambda>c. newSession c ep cid err now) grow s xs = Inr s'" and small: "length (sv_sessions s') < 32768"
  shows "registry_run (registry (sv_sessions s)) xs (registry (sv_sessions s')) \<and> one_each (sv_sessions s')
    \<and> (\<forall>peer. fst (rpcPingHandler s' peer) = (if registry (sv_sessions s') peer = None then NOT_CONNECTED else SUCCESS)
        \<and> fst (rpcDisconnectHandler s' peer) = (if registry (sv_sessions s') peer = None then NOT_CONNECTED else SUCCESS))"
proof -
  let ?blank = "\<lambda>c. newSession c ep cid err now"
  have "length (sv_sessions s) \<le> length (sv_sessions s')
      \<and> registry_run (registry (sv_sessions s)) xs (registry (sv_sessions s')) \<and> one_each (sv_sessions s')"
    using ok one order run
  proof (induction xs arbitrary: s)
    case (Cons x xs)
    obtain s1 where s1: "call_step lib gen ?blank grow s x = Inr s1" "call_run lib gen ?blank grow s1 xs = Inr s'"
      using Cons.prems(4) by (auto simp: res_iffs)
    have t: "table_ok lib (sv_sessions s1) \<and> length (sv_sessions s) \<le> length (sv_sessions s1)"
      by (rule call_step_table[OF lib Cons.prems(1) _ _ s1(1)]) (simp_all add: newSession_def isIdle_def)
    have once: "connects_once x (sv_sessions s)" "orderly lib gen ?blank grow s1 xs" using Cons.prems(3) s1(1) by simp_all
    have grown: "length (sv_sessions s) < 32768"
      using t table_grows[OF lib _ s1(2)] small by force
    from call_refines[OF lib Cons.prems(1,2) once(1) grown s1(1)]
    have r: "one_each (sv_sessions s1)" "registry_step (registry (sv_sessions s)) x (registry (sv_sessions s1))" by auto
    with Cons.IH[OF _ r(1) once(2) s1(2)] t show ?case by force
  qed simp
  then show ?thesis by (auto simp: handlers_answer registry_def)
qed

section \<open>An instance\<close>

theorem sessions_refine_registry_witness:
  "\<exists>s' e. call_run feedback_lib demo_random (\<lambda>c. newSession c 0 0 0 0) False
      (demo_server :: (nat, u8 \<times> u8, unit, nat) server) [ConnectCall 5 user_name user_password] = Inr s'
    \<and> registry (sv_sessions s') = [5 \<mapsto> e] \<and> fst (rpcPingHandler s' 5) = SUCCESS"
proof -
  let ?s = "demo_server :: (nat, u8 \<times> u8, unit, nat) server" and ?blank = "\<lambda>c. newSession c 0 0 0 0"
  have none: "\<not> held_by (sv_sessions ?s) i ep" for i ep
    by (auto simp: held_by_def demo_sessions demo_session_def newSession_def isConnected_def)
  have usable: "usable_sessions feedback_lib (sv_sessions ?s)" "slot_for (sv_sessions ?s) < 32768"
    by (simp_all add: demo_sessions)
  obtain x s' where s': "rpcConnectHandler feedback_lib demo_random ?blank False ?s 5 user_name user_password = Inr (x, s')"
    "length (sv_sessions s') = 1"
    using connect_effect[OF demo_random_ok usable, of 0 0 0 0 False 5] by (auto simp: demo_sessions)
  then have run: "call_run feedback_lib demo_random ?blank False ?s [ConnectCall 5 user_name user_password] = Inr s'" by simp
  have ok: "table_ok feedback_lib (sv_sessions ?s)" by (simp add: demo_sessions)
  have one: "one_each (sv_sessions ?s)" using none by (simp add: one_each_def)
  have order: "orderly feedback_lib demo_random ?blank False ?s [ConnectCall 5 user_name user_password]"
    by (auto simp: connects_once_def demo_sessions split: sum.split)
  have "registry (sv_sessions ?s) = Map.empty" using none by (auto simp: registry_None)
  with sessions_refine_registry[OF demo_random_ok ok one order run] s'(2)
  obtain e where "registry (sv_sessions s') = [5 \<mapsto> e]" "fst (rpcPingHandler s' 5) = SUCCESS" by auto
  with run show ?thesis by blast
qed

end
