(* ===== verification/ServerPaths.thy ===== *)
theory ServerPaths
  imports ServerSessions
begin

text \<open>
  The two ways of a packet through the server of \<^verbatim>\<open>server/TunnelServer.cc\<close>, for a server in any
  state: from a client's datagram to the raw socket, and from the raw socket to a client.
\<close>

section \<open>Packets as bytes\<close>

definition be16_at :: "bytes \<Rightarrow> nat \<Rightarrow> u16" where
  "be16_at bs i = be16 (bs ! i) (bs ! (i + 1))"

definition be32_at :: "bytes \<Rightarrow> nat \<Rightarrow> u32" where
  "be32_at bs i = be32 (bs ! i) (bs ! (i + 1)) (bs ! (i + 2)) (bs ! (i + 3))"

text \<open>The length of the IP header of a packet.\<close>

definition header_length :: "bytes \<Rightarrow> nat" where
  "header_length bs = 4 * unat (bs ! 0 AND 15)"

lemma header_length_uint: "uint (bs ! 0 AND 15) * 4 = int (header_length bs)"
  by (simp add: header_length_def)

lemma load_at:
  assumes "load_bytes h p n = Inr bs"
  shows "i < n \<Longrightarrow> load8 h (padd p (int i)) = Inr (bs ! i)"
    "i + 2 \<le> n \<Longrightarrow> load16 h (padd p (int i)) = Inr (be16_at bs i)"
    "i + 4 \<le> n \<Longrightarrow> load32 h (padd p (int i)) = Inr (be32_at bs i)"
  using byte.ld_sub[OF assms, of i] half.ld_sub[OF assms, of i] full.ld_sub[OF assms, of i] load_bytes_length[OF assms]
  by (simp_all add: be16_at_def be32_at_def)

lemma ip4_at:
  assumes ld: "load_bytes h p n = Inr bs" and n: "20 \<le> n"
  shows "ip4_headerLen h (mkIp4 p len) = Inr (bs ! 0 AND 15)" "ip4_protocol h (mkIp4 p len) = Inr (bs ! 9)"
    "ip4_totalLen h (mkIp4 p len) = Inr (be16_at bs 2)"
    "ip4_sourceIP h (mkIp4 p len) = Inr (be32_at bs 12)" "ip4_destIP h (mkIp4 p len) = Inr (be32_at bs 16)"
  using load_at[OF ld, of 0] load_at[OF ld, of 9] load_at[OF ld, of 2] load_at[OF ld, of 12] load_at[OF ld, of 16] n
  by (simp_all add: ip4_headerLen_def ip4_protocol_def ip4_totalLen_def ip4_sourceIP_def ip4_destIP_def mkIp4_def)

lemma ip4_payload_at:
  assumes "load_bytes h p n = Inr bs" "20 \<le> n"
  shows "\<exists>m. ip4_payload h (mkIp4 p len) = Inr \<lparr>mb_data = Some (padd p (int (header_length bs))), mb_size = m\<rparr>"
  using ip4_at(1,3)[OF assms, of len] header_length_uint[of bs] by (simp add: ip4_payload_def mkIp4_def)

lemma udp_at:
  assumes ld: "load_bytes h p n = Inr bs" and n: "20 \<le> header_length bs" "header_length bs + 8 \<le> n"
  shows "\<exists>u. mkUdp h (mkIp4 p len) = Inr u \<and> udp_header u = padd p (int (header_length bs))
    \<and> udp_sourcePort h u = Inr (be16_at bs (header_length bs))
    \<and> udp_destPort h u = Inr (be16_at bs (header_length bs + 2))"
proof -
  obtain m where "ip4_payload h (mkIp4 p len) = Inr \<lparr>mb_data = Some (padd p (int (header_length bs))), mb_size = m\<rparr>"
    using ip4_payload_at[OF ld, of len] n by auto
  moreover have "load16 h (padd p (int (header_length bs))) = Inr (be16_at bs (header_length bs))"
    "load16 h (padd p (int (header_length bs + 2))) = Inr (be16_at bs (header_length bs + 2))"
    using n by (intro load_at(2)[OF ld]; simp)+
  ultimately show ?thesis
    by (simp add: mkUdp_def udp_sourcePort_def udp_destPort_def algebra_simps)
qed

text \<open>A packet whose UDP ports and addresses have been rewritten, before the header checksum.\<close>

definition rewritten_udp :: "u16 \<Rightarrow> u32 \<Rightarrow> bytes \<Rightarrow> bytes" where
  "rewritten_udp port addr bs = patch (header_length bs + 6) (bytes16 0) (patch 12 (bytes32 addr)
     (patch (header_length bs) (bytes16 port) bs))"

lemma store16_at:
  assumes "load_bytes h p n = Inr bs" "i + 2 \<le> n"
  shows "\<exists>h'. store16 h (padd p (int i)) w = Inr h' \<and> load_bytes h' p n = Inr (patch i (bytes16 w) bs)"
proof -
  have "in_bounds h p n" using assms(1) by (auto simp: load_bytes_ok)
  from in_bounds_part[OF this assms(2)] obtain h' where "store16 h (padd p (int i)) w = Inr h'"
    using half.st_ok by blast
  with half.st_patch[OF assms(1) this assms(2)] show ?thesis by blast
qed

lemma store32_at:
  assumes "load_bytes h p n = Inr bs" "i + 4 \<le> n"
  shows "\<exists>h'. store32 h (padd p (int i)) w = Inr h' \<and> load_bytes h' p n = Inr (patch i (bytes32 w) bs)"
proof -
  have "in_bounds h p n" using assms(1) by (auto simp: load_bytes_ok)
  from in_bounds_part[OF this assms(2)] obtain h' where "store32 h (padd p (int i)) w = Inr h'"
    using full.st_ok by blast
  with full.st_patch[OF assms(1) this assms(2)] show ?thesis by blast
qed

lemma checksum_at:
  assumes ld: "load_bytes h p n = Inr bs" and n: "20 \<le> header_length bs" "header_length bs \<le> n"
  shows "\<exists>h' ck. ip4_calculateChecksumInplace h (mkIp4 p len) = Inr h' \<and> load_bytes h' p n = Inr (patch 10 (bytes16 ck) bs)
    \<and> ones_sum (words_total (take (header_length bs) (patch 10 (bytes16 ck) bs))) = 65535"
proof -
  let ?hl = "bs ! 0 AND 15" and ?m = "header_length bs" and ?ip = "mkIp4 p len"
  have len: "length bs = n" using ld by (rule load_bytes_length)
  have hl: "ip4_headerLen h ?ip = Inr ?hl" using ip4_at(1)[OF ld] n by simp
  have m: "load_bytes h (ip_header ?ip) (4 * unat ?hl) = Inr (take ?m bs)"
    using load_bytes_sub[OF ld, of 0 ?m] n by (simp add: mkIp4_def slice_def header_length_def)
  obtain h' c where c: "ip4_calculateChecksumInplace h ?ip = Inr h'"
    "store_bytes h (padd p 10) (bytes16 c) = Inr h'" "ones_sum (words_total (patch 10 (bytes16 c) (take ?m bs))) = 65535"
    using ip4_inplace_spec[OF hl _ m] n(1) by (auto simp: header_length_def mkIp4_def)
  have "load_bytes h' p n = Inr (patch 10 (bytes16 c) bs)"
    using load_store_patch[OF ld, of 10 "bytes16 c" h'] c(2) n by simp
  moreover have "patch 10 (bytes16 c) (take ?m bs) = take ?m (patch 10 (bytes16 c) bs)"
    using n len by (intro nth_equalityI) (simp_all add: nth_patch)
  ultimately show ?thesis using c by auto
qed

lemma patch_first: "0 < i \<Longrightarrow> i < length xs \<Longrightarrow> patch i ys xs ! 0 = xs ! 0"
  by (simp add: patch_def nth_append)

lemma rewritten_header:
  assumes "20 \<le> header_length bs" "header_length bs + 8 \<le> length bs"
  shows "header_length (rewritten_udp port addr bs) = header_length bs"
    "length (rewritten_udp port addr bs) = length bs"
proof -
  let ?m = "header_length bs"
  let ?b1 = "patch ?m (bytes16 port) bs"
  let ?b2 = "patch 12 (bytes32 addr) ?b1"
  have l: "length ?b1 = length bs" "length ?b2 = length bs" using assms by simp_all
  then show "length (rewritten_udp port addr bs) = length bs"
    unfolding rewritten_udp_def using assms by simp
  have "rewritten_udp port addr bs ! 0 = ?b2 ! 0"
    unfolding rewritten_udp_def using assms l by (intro patch_first) simp_all
  also have "\<dots> = ?b1 ! 0" using assms l by (intro patch_first) simp_all
  also have "\<dots> = bs ! 0" using assms by (intro patch_first) simp_all
  finally show "header_length (rewritten_udp port addr bs) = header_length bs"
    by (simp add: header_length_def)
qed

lemma rewrite_udp_spec:
  assumes ld: "load_bytes (sv_heap s) p n = Inr bs" and n: "20 \<le> header_length bs" "header_length bs + 8 \<le> n"
    and napt: "createIfNotExist (sv_udpNapt s) cid (be16_at bs (header_length bs)) (be32_at bs 16)
      (be16_at bs (header_length bs + 2)) = Inr (t, Some c)" "c < length (conns t)"
  shows "\<exists>h' ck. rewrite_udp s cid (mkIp4 p len) = Inr ((set_heap s h')\<lparr>sv_udpNapt := t\<rparr>)
    \<and> load_bytes h' p n
      = Inr (patch 10 (bytes16 ck) (rewritten_udp (clientPort (conns t ! c)) (sv_ifAddress s) bs))
    \<and> ones_sum (words_total (take (header_length bs) (patch 10 (bytes16 ck)
        (rewritten_udp (clientPort (conns t ! c)) (sv_ifAddress s) bs)))) = 65535"
proof -
  let ?h = "sv_heap s" and ?ip = "mkIp4 p len" and ?m = "header_length bs" and ?x = "conns t ! c"
  have len: "length bs = n" using ld by (rule load_bytes_length)
  obtain u where u: "mkUdp ?h ?ip = Inr u" "udp_header u = padd p (int ?m)"
    "udp_sourcePort ?h u = Inr (be16_at bs ?m)" "udp_destPort ?h u = Inr (be16_at bs (?m + 2))"
    using udp_at[OF ld n] by blast
  obtain h1 where h1: "store16 ?h (padd p (int ?m)) (clientPort ?x) = Inr h1"
      "load_bytes h1 p n = Inr (patch ?m (bytes16 (clientPort ?x)) bs)"
    using store16_at[OF ld, of ?m] n by auto
  obtain h2 where h2: "store32 h1 (padd p (int 12)) (sv_ifAddress s) = Inr h2"
      "load_bytes h2 p n = Inr (patch 12 (bytes32 (sv_ifAddress s)) (patch ?m (bytes16 (clientPort ?x)) bs))"
    using store32_at[OF h1(2), of 12] n by auto
  obtain h3 where h3: "store16 h2 (padd p (int (?m + 6))) 0 = Inr h3"
      "load_bytes h3 p n = Inr (rewritten_udp (clientPort ?x) (sv_ifAddress s) bs)"
    using store16_at[OF h2(2), of "?m + 6"] n by (auto simp: rewritten_udp_def)
  let ?bs = "rewritten_udp (clientPort ?x) (sv_ifAddress s) bs"
  have m: "header_length ?bs = ?m" using rewritten_header(1)[OF n(1)] n(2) len by simp
  obtain h4 ck where h4: "ip4_calculateChecksumInplace h3 ?ip = Inr h4" "load_bytes h4 p n = Inr (patch 10 (bytes16 ck) ?bs)"
      "ones_sum (words_total (take ?m (patch 10 (bytes16 ck) ?bs))) = 65535"
    using checksum_at[OF h3(2), of len] m n by auto
  have "rewrite_udp s cid ?ip = Inr ((set_heap s h4)\<lparr>sv_udpNapt := t\<rparr>)"
    using u h1(1) h2(1) h3(1) h4(1) napt ip4_at(5)[OF ld, of len] n
    by (simp add: rewrite_udp_def Let_def deref_conn_def udp_set_sourcePort_def ip4_set_sourceIP_def
        udp_set_checksum_def mkIp4_def algebra_simps)
  with h4(2,3) show ?thesis by blast
qed

section \<open>From a client to the raw socket\<close>

lemma transmit_allowed_True:
  "transmit_allowed s cid ip = Inr True \<longleftrightarrow> unat cid < length (sv_sessions s)
     \<and> s_endpoint (sv_sessions s ! unat cid) = sv_receiveEp s \<and> isConnected (sv_sessions s ! unat cid)
     \<and> (\<exists>w. ip4_calculateChecksum (sv_heap s) ip = Inr w \<and> ip4_checksum (sv_heap s) ip = Inr w)"
  by (auto simp: transmit_allowed_def Let_def res_iffs)

lemma rewrite_frame:
  "rewrite_udp s cid ip = Inr s' \<Longrightarrow> sv_sessions s' = sv_sessions s \<and> sv_raw s' = sv_raw s \<and> sv_out s' = sv_out s"
  "rewrite_tcp s cid ip = Inr s' \<Longrightarrow> sv_sessions s' = sv_sessions s \<and> sv_raw s' = sv_raw s \<and> sv_out s' = sv_out s"
  by (auto simp: rewrite_udp_def rewrite_tcp_def Let_def res_iffs split: option.splits)

text \<open>
  C9. Nothing goes to the raw socket, and no session is touched, but for a datagram of a
  connected session: if \<open>_processTransmit\<close> changes anything, then the identifier in the
  datagram is the index of a connected session, the datagram has come from the endpoint of
  that session and the header checksum of what follows the identifier is right; then at most one
  packet is written, and only that session changes.
\<close>

theorem transmit_authorized:
  assumes "processTransmit lib s b = Inr s'"
  shows "s' = s \<or> (\<exists>cid out. load16 (sv_heap s) (b_data b) = Inr cid
    \<and> unat cid < length (sv_sessions s) \<and> isConnected (sv_sessions s ! unat cid)
    \<and> s_endpoint (sv_sessions s ! unat cid) = sv_receiveEp s
    \<and> ip4_calculateChecksum (sv_heap s) (mkIp4 (padd (b_data b) 2) (b_size b - 2))
      = ip4_checksum (sv_heap s) (mkIp4 (padd (b_data b) 2) (b_size b - 2))
    \<and> sv_raw s' = sv_raw s @ out \<and> length out \<le> 1 \<and> sv_out s' = sv_out s
    \<and> length (sv_sessions s') = length (sv_sessions s)
    \<and> (\<forall>j. j \<noteq> unat cid \<longrightarrow> sv_sessions s' ! j = sv_sessions s ! j))"
proof -
  obtain cid where cid: "load16 (sv_heap s) (b_data b) = Inr cid"
    using assms by (auto simp: processTransmit_def res_iffs)
  let ?ip = "mkIp4 (padd (b_data b) 2) (b_size b - 2)"
  obtain ok where ok: "transmit_allowed s cid ?ip = Inr ok"
    using assms cid by (auto simp: processTransmit_def res_iffs Let_def)
  show ?thesis
  proof (cases ok)
    case False
    with assms cid ok show ?thesis by (simp add: processTransmit_def Let_def)
  next
    case True
    with ok have allowed: "transmit_allowed s cid ?ip = Inr True" by simp
    let ?ss = "sv_sessions s ! unat cid"
    obtain h c proto where d: "decrypt lib (sv_heap s) (s_cryptor ?ss) (padd (b_data b) 2) (b_size b - 2) = Inr (h, c)"
      "ip4_protocol h ?ip = Inr proto"
      using assms cid allowed by (auto simp: processTransmit_def res_iffs Let_def)
    let ?s1 = "(set_heap s h)\<lparr>sv_sessions := (sv_sessions s)[unat cid :=
        updateTransmit (sv_now s) (?ss\<lparr>s_cryptor := c\<rparr>) (b_size b + 1)]\<rparr>"
    have "\<exists>out. sv_raw s' = sv_raw s @ out \<and> length out \<le> 1 \<and> sv_out s' = sv_out s \<and> sv_sessions s' = sv_sessions ?s1"
    proof (cases "proto = TCP \<or> proto = UDP")
      case False
      with assms cid allowed d have "?s1 = s'" by (simp add: processTransmit_def Let_def)
      then show ?thesis by auto
    next
      case True
      then obtain s2 bs where "rewrite_tcp ?s1 cid ?ip = Inr s2 \<or> rewrite_udp ?s1 cid ?ip = Inr s2"
        "s' = s2\<lparr>sv_raw := sv_raw s2 @ [bs]\<rparr>"
        using assms cid allowed d by (auto simp: processTransmit_def Let_def res_iffs split: if_splits)
      then show ?thesis by (auto dest!: rewrite_frame)
    qed
    with cid allowed show ?thesis by (auto simp: transmit_allowed_True)
  qed
qed

lemma decrypt_usable:
  assumes "usable lib c" "load_bytes h p (unat len) = Inr xs"
  shows "\<exists>h'. decrypt lib h c p len = Inr (h', c) \<and> load_bytes h' p (unat len) = Inr (unseal lib c xs)"
  using decrypt_spec[of lib "c_key c" "c_iv c" c h p len xs] assms by (auto simp: usable_def)

lemma udp_forwarded:
  assumes cid: "load16 (sv_heap s) (b_data b) = Inr cid" and n: "n = unat (b_size b - 2)"
    and enc: "load_bytes (sv_heap s) (padd (b_data b) 2) n = Inr enc"
    and session: "unat cid < length (sv_sessions s)" "s_endpoint (sv_sessions s ! unat cid) = sv_receiveEp s"
      "isConnected (sv_sessions s ! unat cid)" "usable lib (s_cryptor (sv_sessions s ! unat cid))"
    and sum: "ip4_calculateChecksum (sv_heap s) (mkIp4 (padd (b_data b) 2) (b_size b - 2)) = Inr w"
      "ip4_checksum (sv_heap s) (mkIp4 (padd (b_data b) 2) (b_size b - 2)) = Inr w"
    and bs: "bs = unseal lib (s_cryptor (sv_sessions s ! unat cid)) enc"
    and packet: "bs ! 9 = UDP" "20 \<le> header_length bs" "header_length bs + 8 \<le> n"
    and napt: "createIfNotExist (sv_udpNapt s) cid (be16_at bs (header_length bs)) (be32_at bs 16)
      (be16_at bs (header_length bs + 2)) = Inr (t, Some c)" "c < length (conns t)"
  shows "\<exists>s' ck. processTransmit lib s b = Inr s' \<and> sv_udpNapt s' = t
    \<and> sv_raw s' = sv_raw s @ [patch 10 (bytes16 ck) (rewritten_udp (clientPort (conns t ! c)) (sv_ifAddress s) bs)]
    \<and> ones_sum (words_total (take (header_length bs)
        (patch 10 (bytes16 ck) (rewritten_udp (clientPort (conns t ! c)) (sv_ifAddress s) bs)))) = 65535
    \<and> sv_sessions s' = (sv_sessions s)[unat cid := updateTransmit (sv_now s) (sv_sessions s ! unat cid) (b_size b + 1)]
    \<and> sv_tcpNapt s' = sv_tcpNapt s \<and> sv_out s' = sv_out s \<and> sv_pool s' = sv_pool s"
proof -
  let ?ss = "sv_sessions s ! unat cid" and ?p = "padd (b_data b) 2" and ?ip = "mkIp4 (padd (b_data b) 2) (b_size b - 2)"
  obtain h where h: "decrypt lib (sv_heap s) (s_cryptor ?ss) ?p (b_size b - 2) = Inr (h, s_cryptor ?ss)"
    "load_bytes h ?p n = Inr bs"
    using decrypt_usable[OF session(4), of "sv_heap s" ?p "b_size b - 2" enc] enc bs n by auto
  let ?s1 = "(set_heap s h)\<lparr>sv_sessions := (sv_sessions s)[unat cid := updateTransmit (sv_now s) ?ss (b_size b + 1)]\<rparr>"
  have napt1: "createIfNotExist (sv_udpNapt ?s1) cid (be16_at bs (header_length bs)) (be32_at bs 16)
      (be16_at bs (header_length bs + 2)) = Inr (t, Some c)" and ld1: "load_bytes (sv_heap ?s1) ?p n = Inr bs"
    and addr: "sv_ifAddress ?s1 = sv_ifAddress s"
    using napt(1) h(2) by simp_all
  obtain h' ck where r: "rewrite_udp ?s1 cid ?ip = Inr ((set_heap ?s1 h')\<lparr>sv_udpNapt := t\<rparr>)"
    "load_bytes h' ?p n = Inr (patch 10 (bytes16 ck) (rewritten_udp (clientPort (conns t ! c)) (sv_ifAddress s) bs))"
    "ones_sum (words_total (take (header_length bs) (patch 10 (bytes16 ck)
        (rewritten_udp (clientPort (conns t ! c)) (sv_ifAddress s) bs)))) = 65535"
    using rewrite_udp_spec[OF ld1 packet(2,3) napt1 napt(2), of "b_size b - 2"] unfolding addr by blast
  have proto: "ip4_protocol h ?ip = Inr UDP" using ip4_at(2)[OF h(2)] packet by simp
  have allowed: "transmit_allowed s cid ?ip = Inr True"
    using session sum by (simp add: transmit_allowed_True)
  have "UDP \<noteq> TCP" by (simp add: UDP_def TCP_def)
  then have "processTransmit lib s b = Inr (((set_heap ?s1 h')\<lparr>sv_udpNapt := t\<rparr>)\<lparr>sv_raw := sv_raw s @
      [patch 10 (bytes16 ck) (rewritten_udp (clientPort (conns t ! c)) (sv_ifAddress s) bs)]\<rparr>)"
    using cid allowed h(1) proto r(1,2) n by (simp add: processTransmit_def Let_def)
  with r(3) show ?thesis by (auto simp: set_heap_def sv_pool_def)
qed

text \<open>
  The header checksum is compared before the packet is decrypted: a packet that has not by chance
  a right one as it arrives is dropped.
\<close>

lemma encrypted_checksum_wrong:
  assumes "load16 (sv_heap s) (b_data b) = Inr cid"
    and "unat cid < length (sv_sessions s)" "s_endpoint (sv_sessions s ! unat cid) = sv_receiveEp s"
      "isConnected (sv_sessions s ! unat cid)"
    and "ip4_calculateChecksum (sv_heap s) (mkIp4 (padd (b_data b) 2) (b_size b - 2)) = Inr w"
      "ip4_checksum (sv_heap s) (mkIp4 (padd (b_data b) 2) (b_size b - 2)) = Inr w'" "w \<noteq> w'"
  shows "processTransmit lib s b = Inr s"
  using assms by (simp add: processTransmit_def transmit_allowed_def Let_def)

text \<open>
  C2. The way of a UDP packet. The encrypted packet of a datagram of a connected session, from its
  endpoint, that decrypts to a UDP packet, is forwarded only if its header checksum is right by
  chance as it arrives, still encrypted; otherwise nothing happens at all. If it is right, the
  decrypted packet is forwarded with the server's address as its source, the client port of its
  connection in the table as its source port, no UDP checksum and a valid header checksum; the
  session's counter grows by the length of the datagram.
\<close>

theorem udp_packet_forwarded:
  assumes cid: "load16 (sv_heap s) (b_data b) = Inr cid" and n: "n = unat (b_size b - 2)"
    and enc: "load_bytes (sv_heap s) (padd (b_data b) 2) n = Inr enc"
    and session: "unat cid < length (sv_sessions s)" "s_endpoint (sv_sessions s ! unat cid) = sv_receiveEp s"
      "isConnected (sv_sessions s ! unat cid)" "usable lib (s_cryptor (sv_sessions s ! unat cid))"
    and sum: "ip4_calculateChecksum (sv_heap s) (mkIp4 (padd (b_data b) 2) (b_size b - 2)) = Inr w"
      "ip4_checksum (sv_heap s) (mkIp4 (padd (b_data b) 2) (b_size b - 2)) = Inr w'"
    and bs: "bs = unseal lib (s_cryptor (sv_sessions s ! unat cid)) enc"
    and packet: "bs ! 9 = UDP" "20 \<le> header_length bs" "header_length bs + 8 \<le> n"
    and napt: "createIfNotExist (sv_udpNapt s) cid (be16_at bs (header_length bs)) (be32_at bs 16)
      (be16_at bs (header_length bs + 2)) = Inr (t, Some c)" "c < length (conns t)"
  shows "if w \<noteq> w' then processTransmit lib s b = Inr s
    else (\<exists>s' ck. processTransmit lib s b = Inr s' \<and> sv_udpNapt s' = t
      \<and> sv_raw s' = sv_raw s @ [patch 10 (bytes16 ck) (rewritten_udp (clientPort (conns t ! c)) (sv_ifAddress s) bs)]
      \<and> ones_sum (words_total (take (header_length bs)
          (patch 10 (bytes16 ck) (rewritten_udp (clientPort (conns t ! c)) (sv_ifAddress s) bs)))) = 65535
      \<and> sv_sessions s' = (sv_sessions s)[unat cid := updateTransmit (sv_now s) (sv_sessions s ! unat cid) (b_size b + 1)])"
proof (cases "w = w'")
  case True
  with udp_forwarded[OF cid n enc session sum(1) _ bs packet napt] sum(2) show ?thesis by auto
qed (use encrypted_checksum_wrong[OF cid session(1-3) sum] in simp)

section \<open>From the raw socket to a client\<close>

lemma tcp_at:
  assumes ld: "load_bytes h p n = Inr bs" and n: "20 \<le> header_length bs" "header_length bs + 8 \<le> n"
  shows "\<exists>u. mkTcp h (mkIp4 p len) = Inr u \<and> tcp_header u = padd p (int (header_length bs))
    \<and> tcp_sourcePort h u = Inr (be16_at bs (header_length bs))
    \<and> tcp_destPort h u = Inr (be16_at bs (header_length bs + 2))"
proof -
  obtain m where "ip4_payload h (mkIp4 p len) = Inr \<lparr>mb_data = Some (padd p (int (header_length bs))), mb_size = m\<rparr>"
    using ip4_payload_at[OF ld, of len] n by auto
  moreover have "load16 h (padd p (int (header_length bs))) = Inr (be16_at bs (header_length bs))"
    "load16 h (padd p (int (header_length bs + 2))) = Inr (be16_at bs (header_length bs + 2))"
    using n by (intro load_at(2)[OF ld]; simp)+
  ultimately show ?thesis
    by (simp add: mkTcp_def tcp_sourcePort_def tcp_destPort_def algebra_simps)
qed

text \<open>The connection of an answer in the table of its protocol.\<close>

definition answer_table :: "('ep, 'c, 'j, 'r) server \<Rightarrow> bytes \<Rightarrow> u32 napt" where
  "answer_table s bs = (if bs ! 9 = TCP then sv_tcpNapt s else sv_udpNapt s)"

definition answer_connection :: "('ep, 'c, 'j, 'r) server \<Rightarrow> bytes \<Rightarrow> nat option" where
  "answer_connection s bs =
     find_server (answer_table s bs) (be32_at bs 12) (be16_at bs (header_length bs)) (be16_at bs (header_length bs + 2))"

lemma find_server_range: "napt_wf n \<Longrightarrow> find_server n ip sport q = Some c \<Longrightarrow> portFrom n \<le> q \<and> q \<le> portTo n"
  by (fastforce simp: napt_wf_def find_server_def)

lemma answer_target_at:
  assumes ld: "load_bytes (sv_heap s) p n = Inr bs" and n: "20 \<le> header_length bs" "header_length bs + 8 \<le> n"
    and proto: "bs ! 9 = TCP \<or> bs ! 9 = UDP"
  shows "answer_target s (mkIp4 p len) = answer_client s (answer_table s bs) (answer_connection s bs)
    (store16 (sv_heap s) (padd p (int (header_length bs + 2))))"
proof -
  let ?h = "sv_heap s" and ?ip = "mkIp4 p len"
  obtain u where u: "mkUdp ?h ?ip = Inr u" "udp_header u = padd p (int (header_length bs))"
    "udp_sourcePort ?h u = Inr (be16_at bs (header_length bs))" "udp_destPort ?h u = Inr (be16_at bs (header_length bs + 2))"
    using udp_at[OF ld n] by blast
  obtain v where v: "mkTcp ?h ?ip = Inr v" "tcp_header v = padd p (int (header_length bs))"
    "tcp_sourcePort ?h v = Inr (be16_at bs (header_length bs))" "tcp_destPort ?h v = Inr (be16_at bs (header_length bs + 2))"
    using tcp_at[OF ld n] by blast
  have set: "udp_set_destPort ?h u = store16 ?h (padd p (int (header_length bs + 2)))"
    "tcp_set_destPort ?h v = store16 ?h (padd p (int (header_length bs + 2)))"
    using u(2) v(2) by (auto simp: udp_set_destPort_def tcp_set_destPort_def algebra_simps)
  have "TCP \<noteq> UDP" by (simp add: TCP_def UDP_def)
  with u v set proto show ?thesis
    using ip4_at(2)[OF ld, of len] ip4_at(4)[OF ld, of len] n
    by (auto simp: answer_target_def Let_def answer_connection_def answer_table_def)
qed

text \<open>
  Only a local port of the table leads back to a client: an answer to any port outside the
  configured range is dropped and nothing changes. The packets of \<open>_processTransmit\<close> leave with
  the client's own port as their source, so that is what happens to the answer to a packet
  whose client port is not by chance one of the range.
\<close>

theorem answer_outside_range_dropped:
  assumes ld: "load_bytes (sv_heap s) p n = Inr bs" and n: "20 \<le> header_length bs" "header_length bs + 8 \<le> n"
    and proto: "bs ! 9 = TCP \<or> bs ! 9 = UDP" and wf: "napt_wf (sv_tcpNapt s)" "napt_wf (sv_udpNapt s)"
    and port: "be16_at bs (header_length bs + 2) < portFrom (answer_table s bs)
      \<or> be16_at bs (header_length bs + 2) > portTo (answer_table s bs)"
  shows "rawSocketPacketHandler lib s p len = Inr s"
proof -
  have "napt_wf (answer_table s bs)" using wf by (simp add: answer_table_def)
  then have "answer_connection s bs = None"
    using port find_server_range[of "answer_table s bs"]
    by (cases "answer_connection s bs") (auto simp: answer_connection_def not_less[symmetric])
  then show ?thesis
    by (simp add: rawSocketPacketHandler_def answer_target_at[OF ld n proto] answer_client_def)
qed

lemma pool_alloc_apart:
  assumes own: "pool_owns 1600 (h, p) out" and q: "in_bounds h q n" "blk q \<notin> blk ` set (memoryChunks p)"
  shows "\<exists>h' p' d. pool_alloc 1600 h p = Inr (h', p', mkBuffer d 1600) \<and> pool_owns 1600 (h', p') (add_mset d out)
    \<and> blk d \<noteq> blk q \<and> load_bytes h' q n = load_bytes h q n \<and> in_bounds h' q n"
proof -
  obtain h' p' d where a: "pool_alloc 1600 h p = Inr (h', p', mkBuffer d 1600)" "pool_owns 1600 (h', p') (add_mset d out)"
    using pool_take_owns[OF own] by (auto simp: pool_take_def res_iffs)
  have wf: "heap_wf h" using own by (simp add: pool_owns_def)
  have "mset (slots 1600 p') = add_mset d (mset (available p') + out)"
    using a(2) by (simp add: pool_owns_def)
  then have "d \<in> set (slots 1600 p')" by (metis set_mset_mset union_single_eq_member)
  then have chunk: "blk d \<in> blk ` set (memoryChunks p')" by (auto simp: slots_def dest!: chunk_slots_blk)
  show ?thesis
  proof (cases "available p = []")
    case True
    obtain h1 e where new: "heap_new h (unat (1600 * buffersPerChunk p)) = (h1, e)" by fastforce
    have "h' = h1" "memoryChunks p' = memoryChunks p @ [e]"
      using a(1) True new by (auto simp: pool_alloc_def allocChunk_def Let_def split: list.splits)
    with heap_new_old[OF wf new q(1)] chunk q a show ?thesis by auto
  next
    case False
    then have "h' = h" "memoryChunks p' = memoryChunks p"
      using a(1) by (auto simp: pool_alloc_def split: list.splits)
    with chunk q a show ?thesis by auto
  qed
qed

lemma answer_buffer:
  assumes "pool_owns 1600 (h, p) (add_mset d out)"
  shows "b_data (moveFrontBoundary (mkBuffer d 1600) 10) = padd d 10"
    "b_internal (moveFrontBoundary (mkBuffer d 1600) 10) = d"
    "len \<le> 1590 \<Longrightarrow> b_size (setSize (moveFrontBoundary (mkBuffer d 1600) 10) len) = len"
    "1590 < len \<Longrightarrow> b_size (setSize (moveFrontBoundary (mkBuffer d 1600) 10) len) = 1590"
    "b_data (setSize b len) = b_data b" "b_internal (setSize b len) = b_internal b"
    "in_bounds h d 1600"
  using pool.owns_mem[OF assms]
  by (auto simp: moveFrontBoundary_def mkBuffer_def prefixSpace_def setSize_def)

lemma encryptTo_usable:
  assumes "usable lib c" "load_bytes h src (unat len) = Inr xs" "in_bounds h dest (unat len)"
  shows "\<exists>h'. encryptTo lib h c src dest len = Inr (h', c) \<and> store_bytes h dest (seal lib c xs) = Inr h'
    \<and> length (seal lib c xs) = unat len"
proof -
  have r: "ready lib (c_key c) (c_iv c) c" using assms(1) by (simp add: usable_def)
  have l: "length (seal lib c xs) = unat len" using ready_lengths(1)[OF r, of xs] load_bytes_length[OF assms(2)] by simp
  then obtain h' where "store_bytes h dest (seal lib c xs) = Inr h'"
    using assms(3) store_bytes_ok[of h dest "seal lib c xs"] by auto
  with l assms(2) show ?thesis by (simp add: encryptTo_ready[OF r])
qed

text \<open>The answer as the client gets it: with its own port as destination, encrypted.\<close>

definition answer_packet :: "u16 \<Rightarrow> bytes \<Rightarrow> bytes" where
  "answer_packet port bs = patch (header_length bs + 2) (bytes16 port) bs"

lemma answer_path:
  assumes ld: "load_bytes (sv_heap s) p n = Inr bs" and len: "n = unat len"
    and n: "20 \<le> header_length bs" "header_length bs + 8 \<le> n"
    and proto: "bs ! 9 = TCP \<or> bs ! 9 = UDP"
    and conn: "answer_connection s bs = Some c" "c < length (conns (answer_table s bs))"
    and x: "x = conns (answer_table s bs) ! c"
    and session: "unat (clientID x) < length (sv_sessions s)" "isConnected (sv_sessions s ! unat (clientID x))"
    and own: "pool_owns 1600 (sv_heap s, sv_pool s) out" and apart: "blk p \<notin> blk ` set (memoryChunks (sv_pool s))"
  obtains h1 h2 p' d h3 where
    "answer_target s (mkIp4 p len) = Inr (Some (clientID x, h1))"
    "pool_alloc 1600 h1 (sv_pool s) = Inr (h2, p', mkBuffer d 1600)"
    "pool_owns 1600 (h2, p') (add_mset d out)" "blk d \<noteq> blk p"
    "store8 h2 (padd d 10) TRANSMIT = Inr h3" "load_bytes h3 p n = Inr (answer_packet (clientPort x) bs)"
    "\<forall>q l. in_bounds h1 q l = in_bounds (sv_heap s) q l"
proof -
  obtain h1 where h1: "store16 (sv_heap s) (padd p (int (header_length bs + 2))) (clientPort x) = Inr h1"
    "load_bytes h1 p n = Inr (answer_packet (clientPort x) bs)"
    using store16_at[OF ld, of "header_length bs + 2"] n by (auto simp: answer_packet_def)
  have "pool_owns 1600 (h1, sv_pool s) out"
    using pool_owns_blocks[OF own] h1(1) by (auto simp: half.st_eq intro: same_blocks_store)
  moreover have "in_bounds h1 p n" using h1(2) by (auto simp: load_bytes_ok)
  ultimately obtain h2 p' d where a: "pool_alloc 1600 h1 (sv_pool s) = Inr (h2, p', mkBuffer d 1600)"
    "pool_owns 1600 (h2, p') (add_mset d out)" "blk d \<noteq> blk p" "load_bytes h2 p n = load_bytes h1 p n"
    using pool_alloc_apart[of h1 "sv_pool s" out p n] apart by blast
  have "in_bounds h2 (padd d (int 10)) 1"
    using answer_buffer(7)[OF a(2)] by (rule in_bounds_part) simp
  then obtain h3 where h3: "store8 h2 (padd d 10) TRANSMIT = Inr h3"
    using byte.st_ok[of h2 "padd d 10"] by auto
  have "load_bytes h3 p n = Inr (answer_packet (clientPort x) bs)"
    using byte.load_bytes_st_disjoint[OF h3, of p n] a(3,4) h1(2) by (simp add: disjoint_ranges_def)
  moreover have "answer_target s (mkIp4 p len) = Inr (Some (clientID x, h1))"
    using h1(1) conn x session
    by (simp add: answer_target_at[OF ld n proto] answer_client_def deref_conn_def get_session_def)
  moreover have "\<forall>q l. in_bounds h1 q l = in_bounds (sv_heap s) q l"
    using half.in_bounds_st[OF h1(1)] by simp
  ultimately show ?thesis by (intro that[OF _ a(1-3) h3])
qed

lemma answer_sent:
  assumes ld: "load_bytes (sv_heap s) p n = Inr bs" and len: "n = unat len"
    and n: "20 \<le> header_length bs" "header_length bs + 8 \<le> n" and fits: "n \<le> 1589"
    and proto: "bs ! 9 = TCP \<or> bs ! 9 = UDP"
    and conn: "answer_connection s bs = Some c" "c < length (conns (answer_table s bs))"
    and x: "x = conns (answer_table s bs) ! c"
    and session: "unat (clientID x) < length (sv_sessions s)" "isConnected (sv_sessions s ! unat (clientID x))"
      "usable lib (s_cryptor (sv_sessions s ! unat (clientID x)))"
    and own: "pool_owns 1600 (sv_heap s, sv_pool s) out" and apart: "blk p \<notin> blk ` set (memoryChunks (sv_pool s))"
  shows "\<exists>s' b. rawSocketPacketHandler lib s p len = Inr s' \<and> sv_sending s' = sv_sending s @ [b]
    \<and> sv_out s' = sv_out s @ [(s_endpoint (sv_sessions s ! unat (clientID x)),
        TRANSMIT # seal lib (s_cryptor (sv_sessions s ! unat (clientID x))) (answer_packet (clientPort x) bs))]
    \<and> sv_sessions s' = sv_sessions s \<and> sv_tcpNapt s' = sv_tcpNapt s \<and> sv_udpNapt s' = sv_udpNapt s
    \<and> pool_owns 1600 (sv_heap s', sv_pool s') (add_mset (b_internal b) out)"
proof -
  let ?ss = "sv_sessions s ! unat (clientID x)" and ?pk = "answer_packet (clientPort x) bs"
  obtain h1 h2 p' d h3 where a: "answer_target s (mkIp4 p len) = Inr (Some (clientID x, h1))"
    "pool_alloc 1600 h1 (sv_pool s) = Inr (h2, p', mkBuffer d 1600)"
    "pool_owns 1600 (h2, p') (add_mset d out)" "blk d \<noteq> blk p"
    "store8 h2 (padd d 10) TRANSMIT = Inr h3" "load_bytes h3 p n = Inr ?pk"
    using answer_path[OF ld len n proto conn x session(1,2) own apart] by metis
  let ?b = "setSize (moveFrontBoundary (mkBuffer d 1600) 10) (len + 1)"
  have len1: "unat (len + 1) = Suc n" using len fits by (simp add: unat_word_ariths)
  then have "len + 1 \<le> 1590" using fits by (simp add: word_le_nat_alt)
  then have b: "b_data ?b = padd d 10" "b_internal ?b = d" "b_size ?b = len + 1"
    using answer_buffer[OF a(3)] by simp_all
  have "11 + n \<le> 1600" using fits by linarith
  from in_bounds_part[OF answer_buffer(7)[OF a(3)] this] have "in_bounds h3 (padd d 11) n"
    using byte.in_bounds_st[OF a(5)] by simp
  then obtain h4 where h4: "encryptTo lib h3 (s_cryptor ?ss) p (padd d 11) len = Inr (h4, s_cryptor ?ss)"
    "store_bytes h3 (padd d 11) (seal lib (s_cryptor ?ss) ?pk) = Inr h4" "length (seal lib (s_cryptor ?ss) ?pk) = n"
    using encryptTo_usable[OF session(3), of h3 p len ?pk "padd d 11"] a(6) len by auto
  have "load_bytes h3 (padd d 10) 1 = Inr [TRANSMIT]"
    using load_store_same[of h2 "padd d 10" "[TRANSMIT]" h3] a(5) by (simp add: store8_def)
  then have "load_bytes h4 (padd d 10) 1 = Inr [TRANSMIT]"
    using load_store_disjoint[OF h4(2), of "padd d 10" 1] by (simp add: disjoint_ranges_def)
  moreover have "load_bytes h4 (padd d 11) n = Inr (seal lib (s_cryptor ?ss) ?pk)"
    using load_store_same[OF h4(2)] h4(3) by simp
  ultimately have sent: "load_bytes h4 (padd d 10) (Suc n) = Inr (TRANSMIT # seal lib (s_cryptor ?ss) ?pk)"
    using load_bytes_append[of h4 "padd d 10" 1 "[TRANSMIT]" n] by simp
  let ?s = "(set_pool (set_heap s h4) p')\<lparr>sv_sessions := (sv_sessions s)[unat (clientID x) := ?ss],
      sv_sending := sv_sending s @ [?b],
      sv_out := sv_out s @ [(s_endpoint ?ss, TRANSMIT # seal lib (s_cryptor ?ss) ?pk)]\<rparr>"
  have "rawSocketPacketHandler lib s p len = Inr ?s"
    using a(1,2,5) b h4(1) sent len1 session(1)
    by (simp add: rawSocketPacketHandler_def Let_def get_session_def answer_buffer[OF a(3)])
  moreover have "pool_owns 1600 (h4, p') (add_mset d out)"
    by (rule pool_owns_blocks[OF a(3) same_blocks_trans[OF same_blocks_store[OF a(5)[unfolded store8_def]]
        same_blocks_store[OF h4(2)]]])
  moreover have "sv_heap ?s = h4" "sv_pool ?s = p'"
    by (simp_all add: sv_heap_def sv_pool_def set_heap_def set_pool_def)
  moreover have "sv_sessions ?s = sv_sessions s" "sv_tcpNapt ?s = sv_tcpNapt s" "sv_udpNapt ?s = sv_udpNapt s"
    by (simp_all add: set_heap_def set_pool_def)
  ultimately show ?thesis using b(2) by (intro exI[of _ ?s] exI[of _ ?b]) simp
qed

text \<open>
  The way of an answer. A packet from the raw socket that belongs to a connection of a
  connected session, and fits a buffer, is sent to the endpoint of that session: one
  datagram, the command byte and the packet with the client's port as its destination,
  encrypted with the cryptor of the session. The buffer it is sent from is out of the pool until
  the send has ended.
\<close>

theorem answer_returned:
  assumes ld: "load_bytes (sv_heap s) p n = Inr bs" and len: "n = unat len"
    and n: "20 \<le> header_length bs" "header_length bs + 8 \<le> n" and fits: "n \<le> 1589"
    and proto: "bs ! 9 = TCP \<or> bs ! 9 = UDP"
    and conn: "answer_connection s bs = Some c" "c < length (conns (answer_table s bs))"
    and x: "x = conns (answer_table s bs) ! c"
    and session: "unat (clientID x) < length (sv_sessions s)" "isConnected (sv_sessions s ! unat (clientID x))"
      "usable lib (s_cryptor (sv_sessions s ! unat (clientID x)))"
    and own: "pool_owns 1600 (sv_heap s, sv_pool s) out" and apart: "blk p \<notin> blk ` set (memoryChunks (sv_pool s))"
  shows "\<exists>s' b. rawSocketPacketHandler lib s p len = Inr s' \<and> sv_sending s' = sv_sending s @ [b]
    \<and> sv_out s' = sv_out s @ [(s_endpoint (sv_sessions s ! unat (clientID x)),
        TRANSMIT # seal lib (s_cryptor (sv_sessions s ! unat (clientID x))) (answer_packet (clientPort x) bs))]
    \<and> sv_sessions s' = sv_sessions s \<and> pool_owns 1600 (sv_heap s', sv_pool s') (add_mset (b_internal b) out)"
  using answer_sent[OF assms] by blast

text \<open>
  C15. There is no bound on the packets of the raw socket. One of 1590 bytes or more that belongs
  to a connection of a connected session does not fit a buffer with its command byte, and is
  not refused: \<open>size\<close> ignores the request, and the encryption writes the whole packet from the
  start of the buffer on. Where the memory of the buffer the pool hands out next (\<open>d\<close>) goes on far
  enough, which is where the buffers of others lie, it is overwritten with the rest of the packet,
  and the datagram is cut at 1590 bytes; where it does not, the write leaves the block.
\<close>

theorem oversized_answer_overflows:
  assumes ld: "load_bytes (sv_heap s) p n = Inr bs" and len: "n = unat len"
    and n: "20 \<le> header_length bs" "header_length bs + 8 \<le> n" and big: "1590 \<le> n" "n < 4294967295"
    and proto: "bs ! 9 = TCP \<or> bs ! 9 = UDP"
    and conn: "answer_connection s bs = Some c" "c < length (conns (answer_table s bs))"
    and x: "x = conns (answer_table s bs) ! c"
    and session: "unat (clientID x) < length (sv_sessions s)" "isConnected (sv_sessions s ! unat (clientID x))"
      "usable lib (s_cryptor (sv_sessions s ! unat (clientID x)))"
    and own: "pool_owns 1600 (sv_heap s, sv_pool s) out" and apart: "blk p \<notin> blk ` set (memoryChunks (sv_pool s))"
    and free: "available (sv_pool s) = d # rest"
  shows "if in_bounds (sv_heap s) (padd d 11) n
    then \<exists>s' b. rawSocketPacketHandler lib s p len = Inr s' \<and> b_internal b = d \<and> sv_sending s' = sv_sending s @ [b]
      \<and> sv_out s' = sv_out s @ [(s_endpoint (sv_sessions s ! unat (clientID x)), TRANSMIT #
          take 1589 (seal lib (s_cryptor (sv_sessions s ! unat (clientID x))) (answer_packet (clientPort x) bs)))]
      \<and> load_bytes (sv_heap s') (padd d 1600) (n - 1589)
        = Inr (drop 1589 (seal lib (s_cryptor (sv_sessions s ! unat (clientID x))) (answer_packet (clientPort x) bs)))
    else rawSocketPacketHandler lib s p len = Inl OutOfBounds"
proof -
  let ?ss = "sv_sessions s ! unat (clientID x)" and ?pk = "answer_packet (clientPort x) bs"
  let ?ys = "seal lib (s_cryptor ?ss) ?pk"
  obtain h1 h2 p' d' h3 where a: "answer_target s (mkIp4 p len) = Inr (Some (clientID x, h1))"
    "pool_alloc 1600 h1 (sv_pool s) = Inr (h2, p', mkBuffer d' 1600)"
    "pool_owns 1600 (h2, p') (add_mset d' out)" "blk d' \<noteq> blk p"
    "store8 h2 (padd d' 10) TRANSMIT = Inr h3" "load_bytes h3 p n = Inr ?pk"
    "\<forall>q l. in_bounds h1 q l = in_bounds (sv_heap s) q l"
    using answer_path[OF ld len n proto conn x session(1,2) own apart] .
  have d': "d' = d" "h2 = h1" using a(2) free by (auto simp: pool_alloc_def mkBuffer_def)
  let ?b = "setSize (moveFrontBoundary (mkBuffer d 1600) 10) (len + 1)"
  have "unat (len + 1) = Suc n" using len big by (simp add: unat_word_ariths)
  then have "1590 < len + 1" using big by (simp add: word_less_nat_alt)
  then have b: "b_data ?b = padd d 10" "b_internal ?b = d" "b_size ?b = 1590"
    using answer_buffer[OF a(3)] d' by simp_all
  have r: "ready lib (c_key (s_cryptor ?ss)) (c_iv (s_cryptor ?ss)) (s_cryptor ?ss)"
    using session(3) by (simp add: usable_def)
  have ys: "length ?ys = n" using ready_lengths(1)[OF r] load_bytes_length[OF a(6)] by simp
  have enc: "encryptTo lib h3 (s_cryptor ?ss) p (padd d 11) len
      = rbind (store_bytes h3 (padd d 11) ?ys) (\<lambda>h'. Inr (h', s_cryptor ?ss))"
    using a(6) len by (simp add: encryptTo_ready[OF r])
  have same: "in_bounds h3 q l = in_bounds (sv_heap s) q l" for q l
    using byte.in_bounds_st[OF a(5)] a(7) d'(2) by simp
  show ?thesis
  proof (cases "in_bounds h3 (padd d 11) n")
    case False
    then have "store_bytes h3 (padd d 11) ?ys = Inl OutOfBounds" using ys by (simp add: store_bytes_def)
    then have "rawSocketPacketHandler lib s p len = Inl OutOfBounds"
      using a(1,2,5) b enc session(1) d'
      by (simp add: rawSocketPacketHandler_def Let_def get_session_def answer_buffer[OF a(3)[unfolded d']])
    then show ?thesis using False same by simp
  next
    case True
    then obtain h4 where h4: "store_bytes h3 (padd d 11) ?ys = Inr h4"
      using store_bytes_ok[of h3 "padd d 11" ?ys] ys by auto
    have whole: "load_bytes h4 (padd d 11) n = Inr ?ys" using load_store_same[OF h4] ys by simp
    from load_bytes_sub[OF this, of 1589 "n - 1589"] big have
      behind: "load_bytes h4 (padd d 1600) (n - 1589) = Inr (drop 1589 ?ys)"
      using ys by (simp add: slice_def)
    have "load_bytes h3 (padd d 10) 1 = Inr [TRANSMIT]"
      using load_store_same[of h2 "padd d 10" "[TRANSMIT]" h3] a(5) d'(1) by (simp add: store8_def)
    then have "load_bytes h4 (padd d 10) 1 = Inr [TRANSMIT]"
      using load_store_disjoint[OF h4, of "padd d 10" 1] by (simp add: disjoint_ranges_def)
    then have "load_bytes h4 (padd d 10) (Suc n) = Inr (TRANSMIT # ?ys)"
      using load_bytes_append[of h4 "padd d 10" 1 "[TRANSMIT]" n] whole by simp
    from load_bytes_sub[OF this, of 0 1590] big have dgram: "load_bytes h4 (padd d 10) 1590 = Inr (TRANSMIT # take 1589 ?ys)"
      by (simp add: slice_def take_Cons')
    let ?s = "(set_pool (set_heap s h4) p')\<lparr>sv_sessions := (sv_sessions s)[unat (clientID x) := ?ss],
        sv_sending := sv_sending s @ [?b], sv_out := sv_out s @ [(s_endpoint ?ss, TRANSMIT # take 1589 ?ys)]\<rparr>"
    have "rawSocketPacketHandler lib s p len = Inr ?s"
      using a(1,2,5) b enc h4 dgram session(1) d'
      by (simp add: rawSocketPacketHandler_def Let_def get_session_def answer_buffer[OF a(3)[unfolded d']])
    moreover have "sv_heap ?s = h4" by (simp add: sv_heap_def set_heap_def set_pool_def)
    ultimately show ?thesis using b(2) behind True same by auto
  qed
qed

section \<open>Instances\<close>

text \<open>
  A cipher that does nothing, so that the packets of the repository's tests can be used as they
  are; a server with one connected session, whose last datagram was the UDP packet.
\<close>

definition plain_cipher :: "unit cipher" where
  "plain_cipher = \<lparr>setKey = (\<lambda>k v. Some ()), process = (\<lambda>c xs. (c, xs)), resync = (\<lambda>c v. Some c)\<rparr>"

definition plain_lib :: "unit cryptopp" where
  "plain_lib = \<lparr>lib_encryption = plain_cipher, lib_decryption = plain_cipher\<rparr>"

definition plain_cryptor :: "unit cryptor" where
  "plain_cryptor = \<lparr>c_key = demo_key, c_iv = demo_key, c_encryption = (), c_decryption = ()\<rparr>"

lemma plain_usable: "usable plain_lib plain_cryptor"
  by (simp add: usable_def ready_def cipher_ok_def resets_def plain_lib_def plain_cipher_def plain_cryptor_def demo_key_def)

lemma plain_seal [simp]: "seal plain_lib c xs = xs" "unseal plain_lib c xs = xs"
  by (simp_all add: seal_def unseal_def plain_lib_def plain_cipher_def)

text \<open>An answer to that packet: the addresses and ports exchanged, to local port 1000.\<close>

definition answer_sample :: bytes where
  "answer_sample =
     [0x45, 0x00, 0x00, 0x1c, 0x51, 0x3f, 0x00, 0x00, 0x40, 0x11, 0x00, 0x00,
      0xbc, 0xa6, 0x10, 0xe4, 0xc0, 0xa8, 0x01, 0x06, 0x11, 0x94, 0x03, 0xe8,
      0x00, 0x08, 0x00, 0x00]"

definition keyed_session :: "'c cryptor \<Rightarrow> (nat, 'c) session" where
  "keyed_session c = \<lparr>s_cryptor = c, s_endpoint = 5, s_clientId = 0, s_lastActiveAt = 0,
     s_transmittedBytes = 0, s_status = CONNECTED, s_error = SUCCESS\<rparr>"

definition route_session :: "(nat, unit) session" where
  "route_session = keyed_session plain_cryptor"

definition route_napt :: "u32 napt" where
  "route_napt = add_conn (newNapt 1000 1002) 0 4500 (be32 0xbc 0xa6 0x10 0xe4) 4500 1000"

definition keyed_server :: "'c cryptor \<Rightarrow> bytes \<Rightarrow> u32 napt \<Rightarrow> (nat, 'c, unit, nat) server" where
  "keyed_server c memory table = \<lparr>sv_config = demo_config, sv_tcpNapt = newNapt 1000 1002, sv_udpNapt = table,
     sv_sessions = [keyed_session c],
     sv_rpc = newRpcProtocol \<lparr>blocks = [0 \<mapsto> memory], next_block = 1, junk = (\<lambda>_. 0)\<rparr> c (newPool 2) () 10,
     sv_receiveEp = 5, sv_running = True, sv_receiving = None, sv_sending = [], sv_ifAddress = 7,
     sv_raw = [], sv_out = [], sv_now = 3, sv_random = 0\<rparr>"

definition route_server :: "bytes \<Rightarrow> u32 napt \<Rightarrow> (nat, unit, unit, nat) server" where
  "route_server = keyed_server plain_cryptor"

text \<open>The first connection of a table gets the first port.\<close>

lemma newNapt_fields: "portFrom (newNapt a b) = a" "portTo (newNapt a b) = b" "conns (newNapt a b) = []"
  by (simp_all add: newNapt_def)

lemma fresh_create:
  assumes "a \<le> b" "b < 65535"
  shows "createIfNotExist (newNapt a b) cid cport ip sport = Inr (add_conn (newNapt a b) cid cport ip sport a, Some 0)"
proof -
  let ?n = "newNapt a b"
  have n: "needs_new ?n cid cport ip sport"
    by (simp add: needs_new_def newNapt_def find_client_def client_keys_ok_def client_less_strict_weak)
  have "unat a < Suc (unat b)" using assms(1) by (simp add: word_le_nat_alt)
  then have "first_free (port_used ?n ip sport) (unat a) (Suc (unat b)) = Some (unat a)"
    by (simp add: first_free_def port_used_def find_server_def newNapt_def upt_conv_Cons del: upt_Suc)
  moreover have "\<not> b < a" "b \<noteq> 65535" using assms by auto
  ultimately show ?thesis by (simp add: needs_new_create[OF n] create_conn_eq pick_port_eq newNapt_fields)
qed

lemma route_create:
  "createIfNotExist (newNapt 1000 1002) 0 4500 (be32 0xbc 0xa6 0x10 0xe4) 4500 = Inr (route_napt, Some 0)"
  unfolding route_napt_def by (rule fresh_create) simp_all

lemma keyed_memory:
  "sv_heap (keyed_server c m t) = \<lparr>blocks = [0 \<mapsto> m], next_block = 1, junk = (\<lambda>_. 0)\<rparr>"
  "sv_pool (keyed_server c m t) = newPool 2" "sv_udpNapt (keyed_server c m t) = t"
  "sv_sessions (keyed_server c m t) = [keyed_session c]" "sv_receiveEp (keyed_server c m t) = 5"
  "sv_tcpNapt (keyed_server c m t) = newNapt 1000 1002" "sv_raw (keyed_server c m t) = []" "sv_out (keyed_server c m t) = []"
  by (simp_all add: keyed_server_def sv_heap_def sv_pool_def newRpcProtocol_def newRpc_def)

lemmas route_memory = keyed_memory[of plain_cryptor, folded route_server_def route_session_def]

lemma keyed_load: "length m = n \<Longrightarrow> load_bytes (sv_heap (keyed_server c m t)) (Ptr 0 0) n = Inr m"
  by (simp add: keyed_memory load_bytes_def in_bounds_def slice_def)

lemmas route_load = keyed_load[of _ _ plain_cryptor, folded route_server_def]

text \<open>A datagram of session 0 that holds some bytes, and that session.\<close>

definition keyed_buffer :: "nat \<Rightarrow> buffer" where
  "keyed_buffer n = \<lparr>b_internal = Ptr 0 0, b_internalSize = of_nat n + 2, b_data = Ptr 0 0, b_size = of_nat n + 2\<rparr>"

lemma keyed_datagram:
  assumes "length bs = n"
  shows "load16 (sv_heap (keyed_server c ([0, 0] @ bs) t)) (b_data (keyed_buffer n)) = Inr 0"
    "load_bytes (sv_heap (keyed_server c ([0, 0] @ bs) t)) (padd (b_data (keyed_buffer n)) 2) n = Inr bs"
proof -
  have ld: "load_bytes (sv_heap (keyed_server c ([0, 0] @ bs) t)) (Ptr 0 0) (n + 2) = Inr ([0, 0] @ bs)"
    by (rule keyed_load) (simp add: assms)
  show "load16 (sv_heap (keyed_server c ([0, 0] @ bs) t)) (b_data (keyed_buffer n)) = Inr 0"
    using load_at(2)[OF ld, of 0] by (simp add: keyed_buffer_def be16_at_def be16_def)
  show "load_bytes (sv_heap (keyed_server c ([0, 0] @ bs) t)) (padd (b_data (keyed_buffer n)) 2) n = Inr bs"
    using load_bytes_sub[OF ld, of 2 n] by (simp add: keyed_buffer_def slice_def assms)
qed

lemma keyed_connected:
  assumes "usable lib c"
  shows "unat (0 :: u16) < length (sv_sessions (keyed_server c m t))"
    "s_endpoint (sv_sessions (keyed_server c m t) ! unat (0 :: u16)) = sv_receiveEp (keyed_server c m t)"
    "isConnected (sv_sessions (keyed_server c m t) ! unat (0 :: u16))"
    "usable lib (s_cryptor (sv_sessions (keyed_server c m t) ! unat (0 :: u16)))"
  using assms by (simp_all add: keyed_memory keyed_session_def isConnected_def)

text \<open>The header checksum of bytes in memory.\<close>

lemma checksum_here:
  assumes ld: "load_bytes h p n = Inr bs" and n: "20 \<le> n" "header_length bs \<le> n" and m: "m = header_length bs"
  shows "ip4_calculateChecksum h (mkIp4 p len) = Inr (of_nat (65535 - ones_sum (words_sum 10 0 (take m bs))))"
    "ip4_checksum h (mkIp4 p len) = Inr (be16_at bs 10)"
proof -
  have hl: "ip4_headerLen h (mkIp4 p len) = Inr (bs ! 0 AND 15)" using ip4_at(1)[OF ld] n by simp
  have "load_bytes h (ip_header (mkIp4 p len)) (4 * unat (bs ! 0 AND 15)) = Inr (take m bs)"
    using load_bytes_sub[OF ld, of 0 m] n(2) m by (simp add: mkIp4_def slice_def header_length_def)
  note eq = ip4_calculateChecksum_eq[OF hl this]
  have "finish_sum (of_nat (words_sum 10 0 (take m bs))) = of_nat (65535 - ones_sum (words_sum 10 0 (take m bs)))"
    using unat_finish_sum[of "of_nat (words_sum 10 0 (take m bs))"] eq(2) by (metis of_nat_unat ucast_id)
  with eq(1) show "ip4_calculateChecksum h (mkIp4 p len) = Inr (of_nat (65535 - ones_sum (words_sum 10 0 (take m bs))))" by simp
  show "ip4_checksum h (mkIp4 p len) = Inr (be16_at bs 10)"
    using load_at(2)[OF ld, of 10] n by (simp add: ip4_checksum_def mkIp4_def)
qed

lemma route_pool: "pool_owns 1600 (sv_heap (route_server m t), sv_pool (route_server m t)) {#}"
  by (simp add: route_memory pool_owns_def newPool_def slots_def heap_wf_def)

definition route_buffer :: buffer where
  "route_buffer = \<lparr>b_internal = Ptr 0 0, b_internalSize = 30, b_data = Ptr 0 0, b_size = 30\<rparr>"

lemma route_header: "header_length udp_sample = 20" "header_length answer_sample = 20"
  by (simp_all add: header_length_def udp_sample_def answer_sample_def)

lemma route_datagram:
  "load16 (sv_heap (route_server ([0, 0] @ udp_sample) t)) (b_data route_buffer) = Inr 0"
  "load_bytes (sv_heap (route_server ([0, 0] @ udp_sample) t)) (padd (b_data route_buffer) 2) 28 = Inr udp_sample"
proof -
  have ld: "load_bytes (sv_heap (route_server ([0, 0] @ udp_sample) t)) (Ptr 0 0) 30 = Inr ([0, 0] @ udp_sample)"
    by (rule route_load) (simp add: udp_sample_def)
  show "load16 (sv_heap (route_server ([0, 0] @ udp_sample) t)) (b_data route_buffer) = Inr 0"
    using load_at(2)[OF ld, of 0] by (simp add: route_buffer_def be16_at_def be16_def)
  show "load_bytes (sv_heap (route_server ([0, 0] @ udp_sample) t)) (padd (b_data route_buffer) 2) 28 = Inr udp_sample"
    using load_bytes_sub[OF ld, of 2 28] by (simp add: route_buffer_def slice_def udp_sample_def)
qed

lemma route_checksum:
  assumes ld: "load_bytes h p 28 = Inr udp_sample"
  shows "ip4_calculateChecksum h (mkIp4 p len) = Inr 38881" "ip4_checksum h (mkIp4 p len) = Inr 38881"
proof -
  have hl: "ip4_headerLen h (mkIp4 p len) = Inr 5" using ip4_at(1)[OF ld] by (simp add: udp_sample_def)
  have "load_bytes h (ip_header (mkIp4 p len)) (4 * unat (5 :: u8)) = Inr (take 20 udp_sample)"
    using load_bytes_sub[OF ld, of 0 20] by (simp add: mkIp4_def slice_def)
  note eq = ip4_calculateChecksum_eq[OF hl this]
  have "unat (finish_sum (of_nat (words_sum 10 0 (take 20 udp_sample)))) = 38881"
    unfolding unat_finish_sum eq(2) by (simp add: udp_sample_def ones_sum_def)
  then have "finish_sum (of_nat (words_sum 10 0 (take 20 udp_sample))) = 38881"
    by (simp add: word_unat_eq_iff)
  with eq(1) show "ip4_calculateChecksum h (mkIp4 p len) = Inr 38881" by simp
  show "ip4_checksum h (mkIp4 p len) = Inr 38881"
    using load_at(2)[OF ld, of 10] by (simp add: ip4_checksum_def mkIp4_def be16_at_def udp_sample_def be16_def)
qed

lemma route_ports:
  "be16_at udp_sample 20 = 4500" "be16_at udp_sample 22 = 4500" "be32_at udp_sample 16 = be32 0xbc 0xa6 0x10 0xe4"
  "be16_at answer_sample 20 = 4500" "be16_at answer_sample 22 = 1000" "be32_at answer_sample 12 = be32 0xbc 0xa6 0x10 0xe4"
  by (simp_all add: be16_at_def be32_at_def udp_sample_def answer_sample_def be16_def)

theorem transmit_authorized_witness:
  "processTransmit plain_lib (route_server [0, 9, 69, 0] (newNapt 1000 1002)) route_buffer
    = Inr (route_server [0, 9, 69, 0] (newNapt 1000 1002))"
proof -
  let ?s = "route_server [0, 9, 69, 0] (newNapt 1000 1002)"
  have cid: "load16 (sv_heap ?s) (b_data route_buffer) = Inr 9"
    using load_at(2)[OF route_load[of "[0, 9, 69, 0]" 4], of 0] by (simp add: route_buffer_def be16_at_def be16_def)
  then have run: "processTransmit plain_lib ?s route_buffer = Inr ?s"
    by (simp add: processTransmit_def transmit_allowed_def Let_def route_memory)
  from transmit_authorized[OF run] cid run show ?thesis by simp
qed

text \<open>
  A UDP packet as the cipher with feedback makes it of one whose own checksum has been chosen
  so that the one of the encrypted packet is right.
\<close>

definition udp_plain :: bytes where
  "udp_plain =
     [0x45, 0x00, 0x00, 0x1c, 0x51, 0x3f, 0x00, 0x00, 0x40, 0x11, 0x9e, 0x5c, 0xc0, 0xa8, 0x01, 0x06, 0xbc, 0xa6, 0x10, 0xe4,
      0x11, 0x94, 0x11, 0x94, 0x00, 0x08, 0x00, 0x00]"

definition udp_sealed :: bytes where
  "udp_sealed =
     [0x47, 0x48, 0x49, 0x56, 0x06, 0x38, 0x39, 0x3a, 0x7b, 0x6d, 0xf0, 0xad, 0x6e, 0xc7, 0xc9, 0xcc, 0x71, 0xd4, 0xc5, 0x22,
      0x32, 0xa7, 0xb9, 0x2e, 0x2f, 0x38, 0x39, 0x3a]"

lemma udp_sealed_simps:
  "unseal feedback_lib demo_cryptor udp_sealed = udp_plain" "length udp_sealed = 28" "header_length udp_sealed = 28"
  "be16_at udp_sealed 10 = 61613" "65535 - ones_sum (words_sum 10 0 (take 28 udp_sealed)) = 61613"
  "header_length udp_plain = 20" "udp_plain ! 9 = UDP" "be16_at udp_plain 20 = 4500" "be16_at udp_plain 22 = 4500"
  "be32_at udp_plain 16 = be32 0xbc 0xa6 0x10 0xe4"
  by (simp_all add: udp_sealed_def udp_plain_def unseal_def feedback_lib_def feedback_cipher_def demo_cryptor_def
      header_length_def be16_at_def be32_at_def be16_def ones_sum_def UDP_def)

lemma keyed_usable: "usable feedback_lib demo_cryptor"
proof -
  have "ready feedback_lib demo_key demo_key demo_cryptor"
    using newCryptor_ready[OF demo_cipher_ok] demo_newCryptor by auto
  then show ?thesis by (simp add: usable_def demo_cryptor_def)
qed

theorem udp_packet_forwarded_witness:
  "\<exists>s' packet. processTransmit feedback_lib (keyed_server demo_cryptor ([0, 0] @ udp_sealed) (newNapt 1000 1002)) (keyed_buffer 28) = Inr s'
    \<and> sv_raw s' = [packet] \<and> take 2 (drop 20 packet) = take 2 (drop 20 udp_plain) \<and> sv_udpNapt s' = route_napt"
proof -
  let ?s = "keyed_server demo_cryptor ([0, 0] @ udp_sealed) (newNapt 1000 1002)"
  note ld = keyed_datagram[OF udp_sealed_simps(2), of demo_cryptor "newNapt 1000 1002"]
  have n: "28 = unat (b_size (keyed_buffer 28) - 2)" by (simp add: keyed_buffer_def)
  have m: "20 \<le> (28 :: nat)" "header_length udp_sealed \<le> 28" "28 = header_length udp_sealed" by (simp_all add: udp_sealed_simps)
  note sum = checksum_here[OF ld(2) m, unfolded udp_sealed_simps]
  have packet: "udp_plain ! 9 = UDP" "20 \<le> header_length udp_plain" "header_length udp_plain + 8 \<le> 28"
    by (simp_all add: udp_sealed_simps)
  have napt: "createIfNotExist (sv_udpNapt ?s) 0 (be16_at udp_plain (header_length udp_plain)) (be32_at udp_plain 16)
      (be16_at udp_plain (header_length udp_plain + 2)) = Inr (route_napt, Some 0)" "0 < length (conns route_napt)"
    by (simp_all add: udp_sealed_simps keyed_memory route_create) (simp add: route_napt_def add_conn_def Let_def)
  have plain: "udp_plain = unseal feedback_lib (s_cryptor (sv_sessions ?s ! unat (0 :: u16))) udp_sealed"
    by (simp add: keyed_memory keyed_session_def udp_sealed_simps)
  have port: "clientPort (conns route_napt ! 0) = 4500" by (simp add: route_napt_def add_conn_def newNapt_def Let_def)
  from udp_packet_forwarded[OF ld(1) n ld(2) keyed_connected[OF keyed_usable] sum plain packet napt]
  obtain s' ck where s': "processTransmit feedback_lib ?s (keyed_buffer 28) = Inr s'" "sv_udpNapt s' = route_napt"
    "sv_raw s' = [patch 10 (bytes16 ck) (rewritten_udp 4500 (sv_ifAddress ?s) udp_plain)]"
    by (auto simp: keyed_memory port)
  moreover have "take 2 (drop 20 (patch 10 (bytes16 ck) (rewritten_udp 4500 (sv_ifAddress ?s) udp_plain))) = take 2 (drop 20 udp_plain)"
    by (simp add: rewritten_udp_def patch_def udp_plain_def header_length_def bytes16_def bytes32_def)
  ultimately show ?thesis by blast
qed

lemma route_answer_load: "load_bytes (sv_heap (route_server answer_sample t)) (Ptr 0 0) 28 = Inr answer_sample"
  by (rule route_load) (simp add: answer_sample_def)

lemma route_answer_header:
  "20 \<le> header_length answer_sample" "header_length answer_sample + 8 \<le> 28"
  "answer_sample ! 9 = TCP \<or> answer_sample ! 9 = UDP"
  by (simp_all add: route_header) (simp add: answer_sample_def UDP_def)

lemma route_napt_wf: "napt_wf (newNapt 1000 1002)" "napt_wf (newNapt 2000 2002)"
  by (simp_all add: newNapt_wf)

lemma answer_is_udp: "answer_sample ! 9 \<noteq> TCP"
  by (simp add: answer_sample_def TCP_def)

theorem answer_outside_range_dropped_witness:
  "rawSocketPacketHandler plain_lib (route_server answer_sample (newNapt 2000 2002)) (Ptr 0 0) 28
    = Inr (route_server answer_sample (newNapt 2000 2002))"
proof (rule answer_outside_range_dropped[OF route_answer_load route_answer_header])
  show "napt_wf (sv_tcpNapt (route_server answer_sample (newNapt 2000 2002)))"
    "napt_wf (sv_udpNapt (route_server answer_sample (newNapt 2000 2002)))"
    by (simp_all add: route_memory newNapt_wf)
  show "be16_at answer_sample (header_length answer_sample + 2)
      < portFrom (answer_table (route_server answer_sample (newNapt 2000 2002)) answer_sample)
    \<or> be16_at answer_sample (header_length answer_sample + 2)
      > portTo (answer_table (route_server answer_sample (newNapt 2000 2002)) answer_sample)"
    by (simp add: route_header route_ports answer_table_def answer_is_udp route_memory newNapt_def)
qed

lemma route_answer_connection:
  assumes "header_length bs = 20" "bs ! 9 \<noteq> TCP" "be16_at bs 20 = 4500" "be16_at bs 22 = 1000"
    "be32_at bs 12 = be32 0xbc 0xa6 0x10 0xe4"
  shows "answer_connection (route_server m route_napt) bs = Some 0"
    "answer_table (route_server m route_napt) bs = route_napt"
    "0 < length (conns (answer_table (route_server m route_napt) bs))"
    "conns route_napt ! 0 = \<lparr>serverIP = be32 0xbc 0xa6 0x10 0xe4, serverPort = 4500, clientID = 0,
       clientPort = 4500, localPort = 1000\<rparr>"
  using assms add_conn_finds[of "newNapt 1000 1002" 0 4500 "be32 0xbc 0xa6 0x10 0xe4" 4500 1000]
  by (simp_all add: answer_connection_def answer_table_def route_memory route_napt_def)
     (simp_all add: newNapt_def add_conn_def Let_def)

lemma route_answer_session:
  "unat (clientID (conns route_napt ! 0)) < length (sv_sessions (route_server m t))"
  "isConnected (sv_sessions (route_server m t) ! unat (clientID (conns route_napt ! 0)))"
  "usable plain_lib (s_cryptor (sv_sessions (route_server m t) ! unat (clientID (conns route_napt ! 0))))"
  using route_answer_connection(4)[OF route_header(2) answer_is_udp route_ports(4-6)]
  by (simp_all add: route_memory route_session_def keyed_session_def isConnected_def plain_usable)

lemma route_apart: "blk (Ptr 0 0) \<notin> blk ` set (memoryChunks (sv_pool (route_server m t)))"
  by (simp add: route_memory newPool_def)

theorem answer_returned_witness:
  "\<exists>s' dgram. rawSocketPacketHandler plain_lib (route_server answer_sample route_napt) (Ptr 0 0) 28 = Inr s'
    \<and> sv_out s' = [(5, TRANSMIT # dgram)] \<and> length dgram = 28"
proof -
  let ?s = "route_server answer_sample route_napt"
  note c = route_answer_connection[OF route_header(2) answer_is_udp route_ports(4-6)]
  have n: "28 = unat (28 :: u32)" "28 \<le> (1589 :: nat)" by simp_all
  have l: "length (answer_packet p answer_sample) = 28" for p
    by (simp add: answer_packet_def route_header) (simp add: answer_sample_def)
  have "conns route_napt ! 0 = conns (answer_table ?s answer_sample) ! 0" using c(2) by simp
  from answer_returned[OF route_answer_load n(1) route_answer_header(1,2) n(2) route_answer_header(3) c(1,3) this
      route_answer_session route_pool route_apart] l show ?thesis
    by (auto simp: route_memory route_session_def keyed_session_def route_answer_connection(4)[OF route_header(2) answer_is_udp route_ports(4-6)])
qed

text \<open>The same answer with 1572 bytes of content behind it.\<close>

definition long_answer :: bytes where
  "long_answer = answer_sample @ replicate 1572 0"

lemma long_answer_first: "i < 28 \<Longrightarrow> long_answer ! i = answer_sample ! i"
  by (simp add: long_answer_def nth_append) (simp add: answer_sample_def)

lemma long_answer_header:
  "header_length long_answer = 20" "long_answer ! 9 \<noteq> TCP" "be16_at long_answer 20 = 4500" "be16_at long_answer 22 = 1000"
  "be32_at long_answer 12 = be32 0xbc 0xa6 0x10 0xe4" "long_answer ! 9 = TCP \<or> long_answer ! 9 = UDP"
  using route_header(2) answer_is_udp route_ports(4-6) route_answer_header(3)
  by (simp_all add: header_length_def be16_at_def be32_at_def long_answer_first)

text \<open>
  A server with one chunk of two buffers, of which the second is in use elsewhere: the long
  answer ends up in it.
\<close>

definition long_heap :: heap where
  "long_heap = \<lparr>blocks = [0 \<mapsto> long_answer, 1 \<mapsto> replicate 3200 7], next_block = 2, junk = (\<lambda>_. 0)\<rparr>"

definition long_pool :: pool where
  "long_pool = \<lparr>buffersPerChunk = 2, memoryChunks = [Ptr 1 0], available = [Ptr 1 0]\<rparr>"

definition long_server :: "(nat, unit, unit, nat) server" where
  "long_server = set_pool (set_heap (route_server long_answer route_napt) long_heap) long_pool"

lemma long_server_simps:
  "sv_heap long_server = long_heap" "sv_pool long_server = long_pool"
  "sv_sessions long_server = sv_sessions (route_server long_answer route_napt)"
  "answer_connection long_server bs = answer_connection (route_server long_answer route_napt) bs"
  "answer_table long_server bs = answer_table (route_server long_answer route_napt) bs" "sv_out long_server = []"
  by (simp_all add: long_server_def answer_connection_def answer_table_def route_memory)

lemma long_pool_owns: "pool_owns 1600 (long_heap, long_pool) {#Ptr 1 1600#}"
  by (simp add: pool_owns_def long_heap_def long_pool_def heap_wf_def slots_def chunk_slots_def in_bounds_def
      upt_conv_Cons padd_def)

lemma long_server_session:
  "unat (clientID (conns route_napt ! 0)) < length (sv_sessions long_server)"
  "isConnected (sv_sessions long_server ! unat (clientID (conns route_napt ! 0)))"
  "usable plain_lib (s_cryptor (sv_sessions long_server ! unat (clientID (conns route_napt ! 0))))"
  "s_endpoint (sv_sessions long_server ! unat (clientID (conns route_napt ! 0))) = 5"
  using route_answer_session[of long_answer route_napt] route_answer_connection(4)[OF long_answer_header(1-5)]
  by (simp_all add: long_server_simps) (simp add: route_memory route_session_def keyed_session_def)

theorem oversized_answer_overflows_witness:
  "\<exists>s' dgram. rawSocketPacketHandler plain_lib long_server (Ptr 0 0) 1600 = Inr s'
    \<and> sv_out s' = [(5, dgram)] \<and> length dgram = 1590 \<and> load_bytes (sv_heap s') (Ptr 1 1600) 11 = Inr (replicate 11 0)"
proof -
  note c = route_answer_connection[OF long_answer_header(1-5)]
  have len: "length long_answer = 1600" by (simp add: long_answer_def answer_sample_def)
  have ld: "load_bytes (sv_heap long_server) (Ptr 0 0) 1600 = Inr long_answer"
    by (simp add: long_server_simps long_heap_def load_bytes_def in_bounds_def slice_def len)
  have n: "1600 = unat (1600 :: u32)" "20 \<le> header_length long_answer" "header_length long_answer + 8 \<le> 1600"
    "1590 \<le> (1600 :: nat)" "1600 < (4294967295 :: nat)"
    by (simp_all add: long_answer_header)
  have c': "answer_connection long_server long_answer = Some 0" "0 < length (conns (answer_table long_server long_answer))"
    "conns route_napt ! 0 = conns (answer_table long_server long_answer) ! 0"
    using c by (simp_all add: long_server_simps)
  have own: "pool_owns 1600 (sv_heap long_server, sv_pool long_server) {#Ptr 1 1600#}"
    using long_pool_owns by (simp add: long_server_simps)
  have apart: "blk (Ptr 0 0) \<notin> blk ` set (memoryChunks (sv_pool long_server))"
    and free: "available (sv_pool long_server) = Ptr 1 0 # []" by (simp_all add: long_server_simps long_pool_def)
  have room: "in_bounds (sv_heap long_server) (padd (Ptr 1 0) 11) 1600"
    by (simp add: long_server_simps long_heap_def in_bounds_def)
  have tail: "drop 1589 (answer_packet q long_answer) = replicate 11 0" "length (answer_packet q long_answer) = 1600" for q
    by (simp_all add: answer_packet_def long_answer_header patch_def len) (simp add: long_answer_def answer_sample_def)
  from oversized_answer_overflows[OF ld n long_answer_header(6) c' long_server_session(1-3) own apart free]
    room tail
  show ?thesis by (auto simp: long_server_simps(6) long_server_session(4) padd_def)
qed

end
