(* ===== verification/RawSocket.thy ===== *)
theory RawSocket
  imports Tcp
begin

text \<open>
  \<^verbatim>\<open>libtun/include/libtun/impl/RawSocket/RawSocket_darwin.h\<close>, \<^verbatim>\<open>InterfaceInfo.h\<close> there, and the choice of an
  interface of \<^verbatim>\<open>libtun/include/libtun/RawSocket.h\<close>: the packet filter device of the system, the buffer
  its packets are read into, and the walk over the packets of a read. The threads that use
  them are in \<open>RawReader\<close>.
\<close>

section \<open>Interfaces\<close>

record interface_info =
  if_name :: bytes
  if_address :: u32

text \<open>The exceptions of the class, without the text of \<open>errno\<close>.\<close>

datatype raw_error =
    GetifaddrsFailed
  | GetnameinfoFailed
  | BadHost
  | NoInterfaces
  | InterfaceNotFound
  | CannotOpen
  | IoctlFailed
  | NotOpen

text \<open>
  An entry of the list of \<open>getifaddrs\<close>: its name, the family and address of \<open>ifa_addr\<close> if
  that is not null, and whether \<open>IFF_UP\<close> and \<open>IFF_LOOPBACK\<close> are set. The answer of
  \<open>getnameinfo\<close> and the text it stores, and \<open>make_address_v4\<close> of that text, are arguments.
\<close>

record ifaddr =
  ifa_name :: bytes
  ifa_addr :: "(nat \<times> u32) option"
  ifa_up :: bool
  ifa_loopback :: bool

record resolver =
  getnameinfo :: "u32 \<Rightarrow> int \<times> bytes"
  make_address_v4 :: "bytes \<Rightarrow> u32 option"

text \<open>\<open>AF_INET\<close>.\<close>

definition AF_INET :: nat where "AF_INET = 2"

fun interface_list :: "resolver \<Rightarrow> ifaddr list \<Rightarrow> raw_error + interface_info list" where
  "interface_list R [] = Inr []"
| "interface_list R (cur # rest) =
     (case ifa_addr cur of
        None \<Rightarrow> interface_list R rest
      | Some (family, a) \<Rightarrow>
          if family \<noteq> AF_INET \<or> \<not> ifa_up cur \<or> ifa_loopback cur then interface_list R rest
          else case getnameinfo R a of (rc, host) \<Rightarrow>
            if rc = - 1 then Inl GetnameinfoFailed
            else case make_address_v4 R host of
              None \<Rightarrow> Inl BadHost
            | Some address \<Rightarrow>
                rbind (interface_list R rest) (\<lambda>ifs.
                  Inr (\<lparr>if_name = ifa_name cur, if_address = address\<rparr> # ifs)))"

text \<open>\<open>None\<close> is the answer -1 of \<open>getifaddrs\<close>.\<close>

definition getInterfaces :: "resolver \<Rightarrow> ifaddr list option \<Rightarrow> raw_error + interface_info list" where
  "getInterfaces R addrs = (case addrs of None \<Rightarrow> Inl GetifaddrsFailed | Some xs \<Rightarrow> interface_list R xs)"

definition useInterface :: "resolver \<Rightarrow> ifaddr list option \<Rightarrow> bytes \<Rightarrow> raw_error + interface_info" where
  "useInterface R addrs name =
     rbind (getInterfaces R addrs) (\<lambda>ifs.
       case ifs of
         [] \<Rightarrow> Inl NoInterfaces
       | i # _ \<Rightarrow>
           if name = [] then Inr i
           else case find (\<lambda>i. if_name i = name) ifs of
             None \<Rightarrow> Inl InterfaceNotFound
           | Some i \<Rightarrow> Inr i)"

section \<open>The device\<close>

text \<open>\<open>RawSocketImpl\<close>. \<open>_buf\<close> is not initialised before \<open>open\<close>.\<close>

record raw_impl =
  rs_fd :: int
  rs_bufLen :: int
  rs_buf :: "ptr option"
  rs_readableLen :: int

definition newRawSocketImpl :: raw_impl where
  "newRawSocketImpl = \<lparr>rs_fd = - 1, rs_bufLen = 0, rs_buf = None, rs_readableLen = 0\<rparr>"

text \<open>
  The answers of the system: of \<open>open\<close> of the device of each number; of the four \<open>ioctl\<close>s,
  the first with the name given to it, the third with the length it stores.
\<close>

record bpf_os =
  dev_open :: "nat \<Rightarrow> int"
  set_if :: "bytes \<Rightarrow> int"
  set_immediate :: int
  get_blen :: "int \<times> int"
  set_seesent :: int

fun open_device :: "(nat \<Rightarrow> int) \<Rightarrow> nat list \<Rightarrow> int \<Rightarrow> int" where
  "open_device dev [] fd = fd"
| "open_device dev (i # is) fd = (if fd = - 1 then open_device dev is (dev i) else fd)"

text \<open>
  The condition of the four \<open>ioctl\<close>s, each called only if the one before has failed: whether
  it holds, and \<open>_bufLen\<close> after it. The third stores its result if it succeeds.
\<close>

definition setup_failed :: "bpf_os \<Rightarrow> bytes \<Rightarrow> int \<Rightarrow> bool \<times> int" where
  "setup_failed os bound len =
     (if set_if os bound \<noteq> - 1 then (False, len)
      else if set_immediate os \<noteq> - 1 then (False, len)
      else case get_blen os of (rc, n) \<Rightarrow>
        if rc \<noteq> - 1 then (False, n)
        else (set_seesent os = - 1, len))"

text \<open>
  \<open>open\<close>. \<open>.ifr_name = *(ifName.data())\<close> sets the first character only. The outer result is a
  fault, the inner one an exception of the class.
\<close>

definition open_raw :: "bpf_os \<Rightarrow> raw_impl \<Rightarrow> heap \<Rightarrow> bytes \<Rightarrow> (raw_error + raw_impl \<times> heap) res" where
  "open_raw os r h name =
     (let fd = open_device (dev_open os) [0..<99] (rs_fd r) in
      if fd = - 1 then Inr (Inl CannotOpen)
      else case setup_failed os (if name = [] then [0] else [hd name]) (rs_bufLen r) of (bad, len) \<Rightarrow>
        if bad then Inr (Inl IoctlFailed)
        else if len < 0 then Inl LibraryException
        else let (h', p) = heap_new h (nat len) in
          Inr (Inr (r\<lparr>rs_fd := fd, rs_bufLen := len, rs_buf := Some p\<rparr>, h')))"

definition close_raw :: "raw_impl \<Rightarrow> heap \<Rightarrow> (raw_impl \<times> heap) res" where
  "close_raw r h =
     (case rs_buf r of
        None \<Rightarrow> Inl Uninitialized
      | Some p \<Rightarrow> if blocks h (blk p) = None then Inl DoubleFree else Inr (r\<lparr>rs_fd := - 1\<rparr>, heap_delete h p))"

definition opened :: "raw_impl \<Rightarrow> bool" where
  "opened r \<longleftrightarrow> rs_fd r > 0"

definition consumable :: "raw_impl \<Rightarrow> bool" where
  "consumable r \<longleftrightarrow> rs_readableLen r > 0"

text \<open>
  \<open>read\<close> after the test that the socket is open: \<open>got\<close> is what the system has for the call,
  \<open>None\<close> for the answer -1. A call that brings no byte does not touch the buffer.
\<close>

definition finish_read :: "raw_impl \<Rightarrow> heap \<Rightarrow> bytes option \<Rightarrow> (raw_impl \<times> heap) res" where
  "finish_read r h got =
     (case got of
        None \<Rightarrow> Inr (r\<lparr>rs_readableLen := - 1\<rparr>, h)
      | Some bs \<Rightarrow>
          let xs = take (nat (rs_bufLen r)) bs in
          case rs_buf r of
            None \<Rightarrow> Inl Uninitialized
          | Some p \<Rightarrow>
              if xs = [] then Inr (r\<lparr>rs_readableLen := 0\<rparr>, h)
              else rbind (store_bytes h p xs) (\<lambda>h'. Inr (r\<lparr>rs_readableLen := int (length xs)\<rparr>, h')))"

definition read_raw :: "raw_impl \<Rightarrow> heap \<Rightarrow> bytes option \<Rightarrow> (raw_error + raw_impl \<times> heap) res" where
  "read_raw r h got =
     (if \<not> opened r then Inr (Inl NotOpen) else rbind (finish_read r h got) (\<lambda>x. Inr (Inr x)))"

text \<open>\<open>write\<close>: the bytes handed to the system, which answers with a number.\<close>

definition write_raw :: "heap \<Rightarrow> ptr \<Rightarrow> u32 \<Rightarrow> (int \<Rightarrow> bytes \<Rightarrow> int) \<Rightarrow> raw_impl \<Rightarrow> int res" where
  "write_raw h p n sys r = rbind (load_bytes h p (unat n)) (\<lambda>bs. Inr (sys (rs_fd r) bs))"

section \<open>The packets of a read\<close>

text \<open>
  \<open>bpf_hdr\<close> of the system: its size, the two fields the code reads of it, and
  \<open>BPF_WORDALIGN\<close>, all arguments.
\<close>

record bpf =
  bh_size :: nat
  bh_hdrlen :: "bytes \<Rightarrow> u16"
  bh_caplen :: "bytes \<Rightarrow> u32"
  wordalign :: "u32 \<Rightarrow> u64"

definition ETHER_HEADER_LEN :: u32 where "ETHER_HEADER_LEN = 14"

text \<open>What the two trace lines read of a packet. The TCP view serves for UDP as well.\<close>

definition trace_packet :: "heap \<Rightarrow> ip4 \<Rightarrow> unit res" where
  "trace_packet h ip =
     rbind (ip4_protocol h ip) (\<lambda>proto.
       if proto = TCP \<or> proto = UDP then
         rbind (mkTcp h ip) (\<lambda>tcp.
         rbind (ip4_sourceIP h ip) (\<lambda>_. rbind (tcp_sourcePort h tcp) (\<lambda>_.
         rbind (ip4_destIP h ip) (\<lambda>_. rbind (tcp_destPort h tcp) (\<lambda>_.
         rbind (ip4_totalLen h ip) (\<lambda>_. Inr ()))))))
       else
         rbind (ip4_sourceIP h ip) (\<lambda>_. rbind (ip4_destIP h ip) (\<lambda>_.
         rbind (ip4_totalLen h ip) (\<lambda>_. Inr ()))))"

text \<open>
  The loop of \<open>consume\<close>, with \<open>cur - _buf\<close> for its pointer, and at most \<open>fuel\<close> rounds: a
  header of lengths 0 would be looked at for ever. \<open>onPacket\<close> works on the memory and a state
  of its own.
\<close>

type_synonym 's packet_handler = "ptr \<Rightarrow> u32 \<Rightarrow> heap \<times> 's \<Rightarrow> (heap \<times> 's) res"

fun consume_loop :: "bpf \<Rightarrow> 's packet_handler \<Rightarrow> nat \<Rightarrow> ptr \<Rightarrow> int \<Rightarrow> int \<Rightarrow> heap \<times> 's \<Rightarrow> (heap \<times> 's) res" where
  "consume_loop B onPacket 0 buf cur len (h, s) = (if cur < len then Inl Diverges else Inr (h, s))"
| "consume_loop B onPacket (Suc fuel) buf cur len (h, s) =
     (if cur < len then
        rbind (load_bytes h (padd buf cur) (bh_size B)) (\<lambda>hdr.
          let hdrlen = ucast (bh_hdrlen B hdr) :: u32;
              caplen = bh_caplen B hdr;
              ipData = padd buf (cur + uint hdrlen + uint ETHER_HEADER_LEN);
              ipSize = caplen - ETHER_HEADER_LEN
          in rbind (trace_packet h (mkIp4 ipData ipSize)) (\<lambda>_.
             rbind (onPacket ipData ipSize (h, s)) (\<lambda>hs'.
               consume_loop B onPacket fuel buf (cur + uint (wordalign B (hdrlen + caplen))) len hs')))
      else Inr (h, s))"

definition consume :: "bpf \<Rightarrow> 's packet_handler \<Rightarrow> nat \<Rightarrow> raw_impl \<Rightarrow> heap \<times> 's \<Rightarrow> (raw_impl \<times> heap \<times> 's) res" where
  "consume B onPacket fuel r hs =
     (if \<not> consumable r then Inr (r, hs)
      else case rs_buf r of
        None \<Rightarrow> Inl Uninitialized
      | Some buf \<Rightarrow>
          rbind (consume_loop B onPacket fuel buf 0 (rs_readableLen r) hs) (\<lambda>hs'.
            Inr (r\<lparr>rs_readableLen := 0\<rparr>, hs')))"

section \<open>The choice of an interface\<close>

definition eligible :: "ifaddr \<Rightarrow> bool" where
  "eligible a \<longleftrightarrow> ifa_up a \<and> \<not> ifa_loopback a \<and> (\<exists>x. ifa_addr a = Some (AF_INET, x))"

definition ifa_ip :: "ifaddr \<Rightarrow> u32" where
  "ifa_ip a = (case ifa_addr a of None \<Rightarrow> 0 | Some (_, x) \<Rightarrow> x)"

definition resolves :: "resolver \<Rightarrow> u32 \<Rightarrow> bool" where
  "resolves R a \<longleftrightarrow> fst (getnameinfo R a) \<noteq> - 1 \<and> make_address_v4 R (snd (getnameinfo R a)) = Some a"

definition info_of :: "ifaddr \<Rightarrow> interface_info" where
  "info_of a = \<lparr>if_name = ifa_name a, if_address = ifa_ip a\<rparr>"

lemma interface_list_eq:
  "\<forall>a\<in>set as. eligible a \<longrightarrow> resolves R (ifa_ip a) \<Longrightarrow>
     interface_list R as = Inr (map info_of (filter eligible as))"
proof (induction as)
  case (Cons a as)
  then have IH: "interface_list R as = Inr (map info_of (filter eligible as))" by simp
  show ?case
  proof (cases "eligible a")
    case True
    then have "fst (getnameinfo R (ifa_ip a)) \<noteq> - 1" "make_address_v4 R (snd (getnameinfo R (ifa_ip a))) = Some (ifa_ip a)"
      using Cons.prems by (auto simp: resolves_def)
    moreover obtain x where x: "ifa_addr a = Some (AF_INET, x)" "ifa_up a" "\<not> ifa_loopback a"
      using True by (auto simp: eligible_def)
    then have "info_of a = \<lparr>if_name = ifa_name a, if_address = x\<rparr>" "ifa_ip a = x" by (simp_all add: info_of_def ifa_ip_def)
    ultimately show ?thesis using IH True x by (auto split: prod.split)
  next
    case False
    then have "interface_list R (a # as) = interface_list R as" by (auto simp: eligible_def split: option.split)
    with IH False show ?thesis by simp
  qed
qed simp

text \<open>
  The interface that is used: of the IPv4 interfaces that are up and not the loopback, the
  first one if no name is given, otherwise the first of that name, with the address the system
  lists for it. There is an exception if there is none, and none other if the system resolves
  the addresses it lists.
\<close>

theorem useInterface_result:
  assumes "\<forall>a\<in>set as. eligible a \<longrightarrow> resolves R (ifa_ip a)"
  shows "useInterface R (Some as) name =
    (if \<forall>a\<in>set as. \<not> eligible a then Inl NoInterfaces
     else if name = [] then Inr (info_of (hd (filter eligible as)))
     else case find (\<lambda>a. eligible a \<and> ifa_name a = name) as of
       None \<Rightarrow> Inl InterfaceNotFound | Some a \<Rightarrow> Inr (info_of a))"
proof -
  have find: "find (\<lambda>i. if_name i = name) (map info_of (filter eligible as))
      = map_option info_of (find (\<lambda>a. eligible a \<and> ifa_name a = name) as)"
    by (induction as) (auto simp: info_of_def)
  have none: "filter eligible as = [] \<longleftrightarrow> (\<forall>a\<in>set as. \<not> eligible a)" by (simp add: filter_empty_conv)
  show ?thesis
  proof (cases "filter eligible as")
    case Nil
    with none show ?thesis by (simp add: useInterface_def getInterfaces_def interface_list_eq[OF assms])
  next
    case (Cons a rest)
    with none have "\<not> (\<forall>a\<in>set as. \<not> eligible a)" by simp
    with Cons find show ?thesis
      by (auto simp: useInterface_def getInterfaces_def interface_list_eq[OF assms] split: option.split)
  qed
qed

definition demo_resolver :: resolver where
  "demo_resolver = \<lparr>getnameinfo = (\<lambda>a. (0, bytes32 a)),
     make_address_v4 = (\<lambda>bs. Some (be32 (bs ! 0) (bs ! 1) (bs ! 2) (bs ! 3)))\<rparr>"

theorem useInterface_result_witness:
  "useInterface demo_resolver (Some [\<lparr>ifa_name = [108], ifa_addr = Some (2, 0x7F000001), ifa_up = True, ifa_loopback = True\<rparr>,
      \<lparr>ifa_name = [101], ifa_addr = Some (2, 0xC0A80105), ifa_up = True, ifa_loopback = False\<rparr>]) []
    = Inr \<lparr>if_name = [101], if_address = 0xC0A80105\<rparr>"
proof -
  have "resolves demo_resolver a" for a
    by (simp add: resolves_def demo_resolver_def bytes32_def)
  then show ?thesis
    by (subst useInterface_result) (auto simp: eligible_def AF_INET_def info_of_def ifa_ip_def)
qed

section \<open>Opening\<close>

text \<open>
  \<open>open\<close> calls each of its \<open>ioctl\<close>s only if the one before has failed, and throws only if
  all four have. So after it has bound the device, whose name is the first letter of what it
  was given, the buffer has no room, and no read leaves anything to consume.
\<close>

lemma open_leaves_no_room:
  assumes "open_raw os newRawSocketImpl h name = Inr x"
    and "set_if os (if name = [] then [0] else [hd name]) \<noteq> - 1 \<or> set_immediate os \<noteq> - 1"
  shows "case x of
      Inl e \<Rightarrow> e = CannotOpen \<and> (\<forall>i<99. dev_open os i = - 1)
    | Inr (r, h') \<Rightarrow> rs_bufLen r = 0 \<and> (\<forall>got r' h''. finish_read r h' got = Inr (r', h'') \<longrightarrow> \<not> consumable r')"
proof -
  have dev: "open_device dev ns fd = - 1 \<Longrightarrow> fd = - 1 \<and> (\<forall>i\<in>set ns. dev i = - 1)" for dev ns fd
    by (induction ns arbitrary: fd) (auto split: if_splits)
  have ok: "setup_failed os (if name = [] then [0] else [hd name]) 0 = (False, 0)"
    using assms(2) by (auto simp: setup_failed_def)
  show ?thesis
  proof (cases "open_device (dev_open os) [0..<99] (- 1) = - 1")
    case True
    have "i \<in> set [0..<99]" if "i < 99" for i :: nat using that by (simp del: upt_rec_numeral)
    with dev[OF True] have "\<forall>i<99. dev_open os i = - 1" by blast
    with True assms(1) show ?thesis
      by (auto simp: open_raw_def newRawSocketImpl_def simp del: upt_rec_numeral)
  next
    case False
    with assms(1) ok show ?thesis
      by (auto simp: open_raw_def newRawSocketImpl_def finish_read_def consumable_def res_iffs
          split: prod.splits option.splits simp del: upt_rec_numeral)
  qed
qed

definition demo_bpf_os :: bpf_os where
  "demo_bpf_os = \<lparr>dev_open = (\<lambda>i. if i = 2 then 7 else - 1), set_if = (\<lambda>_. 0), set_immediate = 0,
     get_blen = (0, 4096), set_seesent = 0\<rparr>"

section \<open>The packets of a read are handed on\<close>

text \<open>
  A captured packet: the header of the system, the Ethernet header, the IP packet, and the
  bytes up to where the next header begins.
\<close>

record capture =
  c_hdr :: bytes
  c_ether :: bytes
  c_ip :: bytes
  c_pad :: bytes

definition capture_bytes :: "capture \<Rightarrow> bytes" where
  "capture_bytes c = c_hdr c @ c_ether c @ c_ip c @ c_pad c"

text \<open>An IP packet that holds what the trace line reads.\<close>

definition traceable :: "bytes \<Rightarrow> bool" where
  "traceable ip \<longleftrightarrow> 20 \<le> length ip
     \<and> (ip ! 9 \<in> {TCP, UDP} \<longrightarrow> 4 * unat (ip ! 0 AND 15) + 4 \<le> length ip)"

definition header_says :: "bpf \<Rightarrow> capture \<Rightarrow> bool" where
  "header_says B c \<longleftrightarrow> bh_size B \<le> length (c_hdr c) \<and> length (c_ether c) = 14
     \<and> int (length (c_hdr c)) = uint (bh_hdrlen B (take (bh_size B) (c_hdr c)))
     \<and> 14 + int (length (c_ip c)) = uint (bh_caplen B (take (bh_size B) (c_hdr c)))"

text \<open>Where the code goes on after a packet.\<close>

definition record_len :: "bpf \<Rightarrow> capture \<Rightarrow> int" where
  "record_len B c = uint (wordalign B (ucast (bh_hdrlen B (take (bh_size B) (c_hdr c)))
     + bh_caplen B (take (bh_size B) (c_hdr c))))"

text \<open>All packets but the last are followed by their padding.\<close>

fun captures_ok :: "bpf \<Rightarrow> capture list \<Rightarrow> bool" where
  "captures_ok B [] = True"
| "captures_ok B (c # cs) \<longleftrightarrow> header_says B c \<and> traceable (c_ip c) \<and> captures_ok B cs
     \<and> (if cs = [] then int (length (capture_bytes c)) \<le> record_len B c
        else int (length (capture_bytes c)) = record_len B c)"

lemma trace_packet_ok:
  assumes ld: "load_bytes h p (length ip) = Inr ip" and "traceable ip"
  shows "trace_packet h (mkIp4 p n) = Inr ()"
proof -
  let ?ip = "mkIp4 p n"
  have len: "20 \<le> length ip" using assms(2) by (simp add: traceable_def)
  have b: "load8 h (padd p (int i)) = Inr (ip ! i)" if "i < 20" for i
    using byte.ld_sub[OF ld, of i] that len by (simp add: slice_def)
  have w: "\<exists>v. load32 h (padd p (int i)) = Inr v" if "i + 4 \<le> 20" for i
    using full.ld_sub[OF ld, of i] that len by auto
  have v: "\<exists>v. load16 h (padd p (int i)) = Inr v" if "i + 2 \<le> length ip" for i
    using half.ld_sub[OF ld, of i] that by auto
  have proto: "ip4_protocol h ?ip = Inr (ip ! 9)" using b[of 9] by (simp add: ip4_protocol_def mkIp4_def)
  have "load8 h p = Inr (ip ! 0)" using b[of 0] by simp
  then have hl: "ip4_headerLen h ?ip = Inr (ip ! 0 AND 15)" by (simp add: ip4_headerLen_def mkIp4_def)
  obtain tl where tl: "ip4_totalLen h ?ip = Inr tl" using v[of 2] len by (auto simp: ip4_totalLen_def mkIp4_def)
  obtain src dst where addr: "ip4_sourceIP h ?ip = Inr src" "ip4_destIP h ?ip = Inr dst"
    using w[of 12] w[of 16] by (auto simp: ip4_sourceIP_def ip4_destIP_def mkIp4_def)
  show ?thesis
  proof (cases "ip ! 9 = TCP \<or> ip ! 9 = UDP")
    case True
    let ?o = "4 * unat (ip ! 0 AND 15)"
    have o: "?o + 4 \<le> length ip" using True assms(2) by (auto simp: traceable_def)
    have tcp: "mkTcp h ?ip = Inr \<lparr>tcp_header = padd p (int ?o),
        tcp_size = ucast (word_of_int (uint tl - uint (ip ! 0 AND 15) * 4) :: u64), tcp_ip = ?ip\<rparr>"
      using hl tl by (simp add: mkTcp_def ip4_payload_def mkIp4_def mult.commute)
    obtain sp dp where "load16 h (padd p (int ?o)) = Inr sp" "load16 h (padd p (int (?o + 2))) = Inr dp"
      using v[of ?o] v[of "?o + 2"] o by auto
    then show ?thesis using True
      by (auto simp: trace_packet_def proto tcp addr tl tcp_sourcePort_def tcp_destPort_def add.commute)
  qed (simp add: trace_packet_def proto addr tl)
qed

text \<open>
  What \<open>onPacket\<close> is called with for the packets that lie one after the other from an offset on,
  and these calls in their order.
\<close>

fun packets_at :: "bpf \<Rightarrow> ptr \<Rightarrow> int \<Rightarrow> capture list \<Rightarrow> (ptr \<times> u32) list" where
  "packets_at B buf cur [] = []"
| "packets_at B buf cur (c # cs) =
     (padd buf (cur + int (length (c_hdr c) + 14)), of_nat (length (c_ip c))) # packets_at B buf (cur + record_len B c) cs"

fun handle_all :: "'s packet_handler \<Rightarrow> (ptr \<times> u32) list \<Rightarrow> heap \<times> 's \<Rightarrow> (heap \<times> 's) res" where
  "handle_all onPacket [] hs = Inr hs"
| "handle_all onPacket ((p, n) # ps) hs = rbind (onPacket p n hs) (handle_all onPacket ps)"

lemma consume_first:
  assumes "header_says B c" "traceable (c_ip c)"
    and ld: "load_bytes h (padd buf cur) (length (capture_bytes c)) = Inr (capture_bytes c)" and "cur < len"
  shows "consume_loop B onPacket (Suc fuel) buf cur len (h, s)
      = rbind (onPacket (padd buf (cur + int (length (c_hdr c) + 14))) (of_nat (length (c_ip c))) (h, s))
          (consume_loop B onPacket fuel buf (cur + record_len B c) len)"
    and "load_bytes h (padd buf (cur + int (length (c_hdr c) + 14))) (length (c_ip c)) = Inr (c_ip c)"
    and "unat (of_nat (length (c_ip c)) :: u32) = length (c_ip c)"
proof -
  let ?hdr = "take (bh_size B) (c_hdr c)"
  let ?o = "length (c_hdr c) + 14"
  have hdr: "load_bytes h (padd buf cur) (bh_size B) = Inr ?hdr"
    using load_bytes_sub[OF ld, of 0 "bh_size B"] assms(1) by (simp add: header_says_def capture_bytes_def slice_def)
  have "capture_bytes c = (c_hdr c @ c_ether c) @ c_ip c @ c_pad c" by (simp add: capture_bytes_def)
  then show ip: "load_bytes h (padd buf (cur + int ?o)) (length (c_ip c)) = Inr (c_ip c)"
    using load_bytes_sub[OF ld, of ?o "length (c_ip c)"] assms(1) by (simp add: header_says_def slice_def)
  have hl: "uint (ucast (bh_hdrlen B ?hdr) :: u32) = int (length (c_hdr c))"
    using assms(1) by (simp add: header_says_def unsigned_ucast_eq)
  have cl: "uint (bh_caplen B ?hdr - ETHER_HEADER_LEN) = int (length (c_ip c))"
    using assms(1) by (simp add: header_says_def ETHER_HEADER_LEN_def uint_diff_le)
  then have u: "unat (bh_caplen B ?hdr - ETHER_HEADER_LEN) = length (c_ip c)" by (simp only: uint_nat)
  have size: "bh_caplen B ?hdr - ETHER_HEADER_LEN = of_nat (length (c_ip c))"
    unfolding u[symmetric] by simp
  then show "unat (of_nat (length (c_ip c)) :: u32) = length (c_ip c)" using u by (simp only:)
  have "uint ETHER_HEADER_LEN = 14" by (simp add: ETHER_HEADER_LEN_def)
  then show "consume_loop B onPacket (Suc fuel) buf cur len (h, s)
      = rbind (onPacket (padd buf (cur + int ?o)) (of_nat (length (c_ip c))) (h, s))
          (consume_loop B onPacket fuel buf (cur + record_len B c) len)"
    using \<open>cur < len\<close> hdr trace_packet_ok[OF ip assms(2)] size hl
    by (simp add: Let_def record_len_def add.assoc)
qed

text \<open>
  The contract of \<open>onPacket\<close>: it may change the packet it is given, and memory elsewhere, but
  no other part of the block the device is read into.
\<close>

locale packet_handler =
  fixes onPacket :: "'s packet_handler"
    and inv :: "heap \<times> 's \<Rightarrow> bool"
    and dev :: nat
  assumes keeps: "inv (h, s) \<Longrightarrow> blk p = dev \<Longrightarrow> load_bytes h p (unat n) = Inr ip \<Longrightarrow> traceable ip \<Longrightarrow>
      onPacket p n (h, s) = Inr (h', s') \<Longrightarrow>
        inv (h', s') \<and> (\<forall>q m. blk q = dev \<and> disjoint_ranges p (unat n) q m \<longrightarrow> load_bytes h' q m = load_bytes h q m)"
begin

text \<open>After a packet, the packets behind it are still there.\<close>

lemma rest_kept:
  assumes ok: "header_says B c" "traceable (c_ip c)"
    and ld: "load_bytes h (padd buf cur) (length (capture_bytes c @ rest)) = Inr (capture_bytes c @ rest)"
    and inv: "inv (h, s)" "blk buf = dev"
    and step: "onPacket (padd buf (cur + int (length (c_hdr c) + 14))) (of_nat (length (c_ip c))) (h, s) = Inr (h', s')"
  shows "inv (h', s') \<and> load_bytes h' (padd buf (cur + int (length (capture_bytes c)))) (length rest) = Inr rest"
proof -
  let ?n = "length (capture_bytes c)" and ?p = "padd buf (cur + int (length (c_hdr c) + 14))"
  have c: "load_bytes h (padd buf cur) ?n = Inr (capture_bytes c)"
    using load_bytes_sub[OF ld, of 0 ?n] by (simp add: slice_def)
  note first = consume_first(2,3)[OF ok c, of "cur + 1"]
  have k: "inv (h', s')" "\<And>q m. blk q = dev \<Longrightarrow> disjoint_ranges ?p (length (c_ip c)) q m \<Longrightarrow> load_bytes h' q m = load_bytes h q m"
    using keeps[OF inv(1) _ _ ok(2) step] first inv(2) by auto
  have "length (c_hdr c) + 14 + length (c_ip c) \<le> ?n" using ok(1) by (simp add: header_says_def capture_bytes_def)
  then have "disjoint_ranges ?p (length (c_ip c)) (padd buf (cur + int ?n)) (length rest)"
    by (simp add: disjoint_ranges_def)
  with k inv(2) show ?thesis using load_bytes_sub[OF ld, of ?n "length rest"] by (simp add: slice_def)
qed

lemma consume_each:
  assumes "captures_ok B cs" "load_bytes h (padd buf cur) (length (concat (map capture_bytes cs))) = Inr (concat (map capture_bytes cs))"
    "cs = [] \<longrightarrow> len \<le> cur" "cs \<noteq> [] \<longrightarrow> len = cur + int (length (concat (map capture_bytes cs)))" "length cs \<le> fuel"
    "inv (h, s)" "blk buf = dev"
  shows "consume_loop B onPacket fuel buf cur len (h, s) = handle_all onPacket (packets_at B buf cur cs) (h, s)"
  using assms
proof (induction cs arbitrary: cur fuel h s)
  case Nil
  then show ?case by (cases fuel) auto
next
  case (Cons c cs)
  obtain f where f: "fuel = Suc f" using Cons.prems(5) by (cases fuel) auto
  let ?n = "length (capture_bytes c)" and ?rest = "concat (map capture_bytes cs)"
  let ?p = "padd buf (cur + int (length (c_hdr c) + 14))"
  have ld: "load_bytes h (padd buf cur) (length (capture_bytes c @ ?rest)) = Inr (capture_bytes c @ ?rest)"
    using Cons.prems(2) by simp
  have c: "load_bytes h (padd buf cur) ?n = Inr (capture_bytes c)"
    using load_bytes_sub[OF ld, of 0 ?n] by (simp add: slice_def)
  have ok: "header_says B c" "traceable (c_ip c)" "captures_ok B cs" using Cons.prems(1) by auto
  have "cur < len" using Cons.prems(4) ok(1) by (simp add: header_says_def capture_bytes_def)
  note first = consume_first[OF ok(1,2) c this]
  have next_ok: "consume_loop B onPacket f buf (cur + record_len B c) len (h', s')
      = handle_all onPacket (packets_at B buf (cur + record_len B c) cs) (h', s')"
    if step: "onPacket ?p (of_nat (length (c_ip c))) (h, s) = Inr (h', s')" for h' s'
  proof (cases "cs = []")
    case True
    with Cons.prems(1,4) have "len \<le> cur + record_len B c" by simp
    with True show ?thesis by (cases f) auto
  next
    case False
    with Cons.prems(1) have "record_len B c = int ?n" by simp
    with False show ?thesis
      using rest_kept[OF ok(1,2) ld Cons.prems(6,7) step] Cons.prems(4,5,7) ok(3) f by (intro Cons.IH) simp_all
  qed
  show ?case unfolding f first(1)
    by (cases "onPacket ?p (of_nat (length (c_ip c))) (h, s)") (auto simp: next_ok)
qed

text \<open>What every packet keeps, given those already handled, holds after all of them.\<close>

lemma handle_each:
  assumes step: "\<And>p n ip seen h s. blk p = dev \<Longrightarrow> load_bytes h p (unat n) = Inr ip \<Longrightarrow> ip \<in> A \<Longrightarrow> traceable ip \<Longrightarrow>
      inv (h, s) \<Longrightarrow> Q seen (h, s) \<Longrightarrow> \<exists>h' s'. onPacket p n (h, s) = Inr (h', s') \<and> Q (seen @ [ip]) (h', s')"
    and "captures_ok B cs" "load_bytes h (padd buf cur) (length (concat (map capture_bytes cs))) = Inr (concat (map capture_bytes cs))"
    "c_ip ` set cs \<subseteq> A" "inv (h, s)" "blk buf = dev" "Q seen (h, s)"
  shows "\<exists>h' s'. handle_all onPacket (packets_at B buf cur cs) (h, s) = Inr (h', s') \<and> Q (seen @ map c_ip cs) (h', s')"
  using assms(2-7)
proof (induction cs arbitrary: cur h s seen)
  case (Cons c cs)
  let ?n = "length (capture_bytes c)" and ?rest = "concat (map capture_bytes cs)"
  let ?p = "padd buf (cur + int (length (c_hdr c) + 14))"
  have ld: "load_bytes h (padd buf cur) (length (capture_bytes c @ ?rest)) = Inr (capture_bytes c @ ?rest)"
    using Cons.prems(2) by simp
  have c: "load_bytes h (padd buf cur) ?n = Inr (capture_bytes c)"
    using load_bytes_sub[OF ld, of 0 ?n] by (simp add: slice_def)
  have ok: "header_says B c" "traceable (c_ip c)" "captures_ok B cs" using Cons.prems(1) by auto
  note first = consume_first(2,3)[OF ok(1,2) c, of "cur + 1"]
  obtain h1 s1 where h1: "onPacket ?p (of_nat (length (c_ip c))) (h, s) = Inr (h1, s1)" "Q (seen @ [c_ip c]) (h1, s1)"
    using step[of ?p h "of_nat (length (c_ip c))" "c_ip c" s seen] first ok(2) Cons.prems(3-6) by auto
  note kept = rest_kept[OF ok(1,2) ld Cons.prems(4,5) h1(1)]
  have "\<exists>h' s'. handle_all onPacket (packets_at B buf (cur + record_len B c) cs) (h1, s1) = Inr (h', s')
      \<and> Q ((seen @ [c_ip c]) @ map c_ip cs) (h', s')"
  proof (cases "cs = []")
    case False
    with Cons.prems(1) have n: "record_len B c = int ?n" by simp
    show ?thesis using kept Cons.prems(3,5) h1(2) ok(3) unfolding n by (intro Cons.IH) simp_all
  qed (use h1(2) in simp)
  with h1(1) show ?case by simp
qed simp

lemma consume_packets:
  assumes "captures_ok B cs" "cs \<noteq> []" "rs_buf r = Some buf"
    and "load_bytes h buf (length (concat (map capture_bytes cs))) = Inr (concat (map capture_bytes cs))"
    and "rs_readableLen r = int (length (concat (map capture_bytes cs)))" "length cs \<le> fuel"
    and "inv (h, s)" "blk buf = dev"
  shows "consume B onPacket fuel r (h, s)
    = rbind (handle_all onPacket (packets_at B buf 0 cs) (h, s)) (\<lambda>hs. Inr (r\<lparr>rs_readableLen := 0\<rparr>, hs))"
proof -
  obtain c cs' where "cs = c # cs'" using assms(2) by (cases cs) auto
  with assms(1) have "0 < length (concat (map capture_bytes cs))" by (simp add: header_says_def capture_bytes_def)
  then have "consumable r" using assms(5) by (simp add: consumable_def)
  moreover have "consume_loop B onPacket fuel buf 0 (rs_readableLen r) (h, s) = handle_all onPacket (packets_at B buf 0 cs) (h, s)"
    using assms by (intro consume_each) simp_all
  ultimately show ?thesis using assms(3) by (simp add: consume_def)
qed

end

text \<open>A handler that only takes note of what it is given.\<close>

definition note_packet :: "bytes list packet_handler" where
  "note_packet p n = (\<lambda>(h, s). rbind (load_bytes h p (unat n)) (\<lambda>bs. Inr (h, s @ [bs])))"

interpretation noted: packet_handler note_packet "\<lambda>_. True" dev for dev
  by unfold_locales (auto simp: note_packet_def res_iffs)

lemma note_all:
  assumes "captures_ok B cs" "load_bytes h (padd buf cur) (length (concat (map capture_bytes cs))) = Inr (concat (map capture_bytes cs))"
  shows "handle_all note_packet (packets_at B buf cur cs) (h, s) = Inr (h, s @ map c_ip cs)"
proof -
  let ?Q = "\<lambda>seen (h', s'). h' = h \<and> s' = s @ seen"
  have "\<exists>h' s'. handle_all note_packet (packets_at B buf cur cs) (h, s) = Inr (h', s') \<and> ?Q ([] @ map c_ip cs) (h', s')"
    by (rule noted.handle_each[where A = UNIV and Q = ?Q, OF _ assms]) (auto simp: note_packet_def)
  then show ?thesis by simp
qed

lemma consume_captures_all:
  assumes "captures_ok B cs" "cs \<noteq> []" "rs_buf r = Some buf"
    and "load_bytes h buf (length (concat (map capture_bytes cs))) = Inr (concat (map capture_bytes cs))"
    and "rs_readableLen r = int (length (concat (map capture_bytes cs)))" "length cs \<le> fuel"
  shows "consume B note_packet fuel r (h, s) = Inr (r\<lparr>rs_readableLen := 0\<rparr>, h, s @ map c_ip cs)"
  using noted.consume_packets[OF assms _ refl, of s] note_all[OF assms(1), of h buf 0 s] assms(4) by simp

text \<open>
  The walk over a read. If what was read is a sequence of captured packets as the system lays
  them out, each with a header that tells its lengths and all but the last padded to where the
  alignment macro puts the next one, then \<open>consume\<close> hands each IP packet, without its
  Ethernet header, to \<open>onPacket\<close> once, in order, and the buffer is free for the next read.
  As many rounds as there are packets are enough.
\<close>

theorem consume_hands_on_packets:
  assumes "captures_ok B cs" "cs \<noteq> []" "rs_buf r = Some buf"
    and "load_bytes h buf (length (concat (map capture_bytes cs))) = Inr (concat (map capture_bytes cs))"
    and "rs_readableLen r = int (length (concat (map capture_bytes cs)))" "length cs \<le> fuel"
  shows "consume B note_packet fuel r (h, s) = Inr (r\<lparr>rs_readableLen := 0\<rparr>, h, s @ map c_ip cs)"
  using assms by (rule consume_captures_all)

text \<open>
  The header of the system on a little-endian host: two 32-bit times, the two lengths, and
  the length of the header itself. An answer of a name server and an echo request.
\<close>

definition darwin_bpf :: bpf where
  "darwin_bpf = \<lparr>bh_size = 18, bh_hdrlen = (\<lambda>bs. be16 (bs ! 17) (bs ! 16)),
     bh_caplen = (\<lambda>bs. be32 (bs ! 11) (bs ! 10) (bs ! 9) (bs ! 8)),
     wordalign = (\<lambda>x. (ucast x + 3) AND NOT 3)\<rparr>"

definition demo_capture :: "u8 \<Rightarrow> bytes \<Rightarrow> bytes \<Rightarrow> capture" where
  "demo_capture n ip pad = \<lparr>c_hdr = [0, 0, 0, 0, 0, 0, 0, 0, n, 0, 0, 0, n, 0, 0, 0, 18, 0], c_ether = replicate 14 0,
     c_ip = ip, c_pad = pad\<rparr>"

definition demo_captures :: "capture list" where
  "demo_captures =
     [demo_capture 43 ([69, 0, 0, 29, 0, 0, 0, 0, 64, 17, 0, 0, 8, 8, 8, 8, 10, 0, 0, 1] @ [0, 53, 39, 16, 0, 9, 0, 0, 7]) [0, 0, 0],
      demo_capture 34 [69, 0, 0, 20, 0, 0, 0, 0, 64, 1, 0, 0, 8, 8, 8, 8, 10, 0, 0, 1] []]"

lemma demo_captures_ok: "captures_ok darwin_bpf demo_captures"
  by (simp add: demo_captures_def demo_capture_def header_says_def traceable_def record_len_def capture_bytes_def
      darwin_bpf_def be16_def be32_def TCP_def UDP_def)

theorem consume_hands_on_packets_witness:
  "\<exists>r h. consume darwin_bpf note_packet 2 r (h, []) = Inr (r\<lparr>rs_readableLen := 0\<rparr>, h,
     [[69, 0, 0, 29, 0, 0, 0, 0, 64, 17, 0, 0, 8, 8, 8, 8, 10, 0, 0, 1, 0, 53, 39, 16, 0, 9, 0, 0, 7],
      [69, 0, 0, 20, 0, 0, 0, 0, 64, 1, 0, 0, 8, 8, 8, 8, 10, 0, 0, 1]])"
proof -
  let ?bs = "concat (map capture_bytes demo_captures)"
  let ?h = "\<lparr>blocks = [0 \<mapsto> ?bs], next_block = 1, junk = (\<lambda>_. 0)\<rparr>"
  let ?r = "\<lparr>rs_fd = 7, rs_bufLen = 4096, rs_buf = Some (Ptr 0 0), rs_readableLen = int (length ?bs)\<rparr>"
  have "demo_captures \<noteq> []" "length demo_captures \<le> 2" by (simp_all add: demo_captures_def)
  moreover have "load_bytes ?h (Ptr 0 0) (length ?bs) = Inr ?bs" by (simp add: load_bytes_def in_bounds_def slice_def)
  moreover note demo_captures_ok
  ultimately have c: "consume darwin_bpf note_packet 2 ?r (?h, []) = Inr (?r\<lparr>rs_readableLen := 0\<rparr>, ?h, [] @ map c_ip demo_captures)"
    by (intro consume_hands_on_packets) simp_all
  have ips: "[] @ map c_ip demo_captures =
     [[69, 0, 0, 29, 0, 0, 0, 0, 64, 17, 0, 0, 8, 8, 8, 8, 10, 0, 0, 1, 0, 53, 39, 16, 0, 9, 0, 0, 7],
      [69, 0, 0, 20, 0, 0, 0, 0, 64, 1, 0, 0, 8, 8, 8, 8, 10, 0, 0, 1]]"
    by (simp add: demo_captures_def demo_capture_def)
  show ?thesis unfolding ips[symmetric] by (intro exI) (rule c)
qed

end
