(* ===== verification/ServerCapture.thy ===== *)
theory ServerCapture
  imports ServerPaths RawSocket
begin

text \<open>
  The raw socket and the server together: \<open>_rawSocketPacketHandler\<close> of \<^verbatim>\<open>server/TunnelServer.cc\<close> as
  the \<open>onPacket\<close> of \<^verbatim>\<open>RawSocket.h\<close>, which \<open>TunnelServer::start\<close> makes it.
\<close>

section \<open>The handler\<close>

definition capture_handler :: "'c cryptopp \<Rightarrow> ('ep, 'c, 'j, 'r) server packet_handler" where
  "capture_handler lib p n = (\<lambda>(h, s). rbind (rawSocketPacketHandler lib (set_heap s h) p n) (\<lambda>s'. Inr (sv_heap s', s')))"

text \<open>The pool has no buffer in the block of the device, and takes none from it.\<close>

definition pool_apart :: "nat \<Rightarrow> heap \<times> ('ep, 'c, 'j, 'r) server \<Rightarrow> bool" where
  "pool_apart dev = (\<lambda>(h, s). dev < next_block h
     \<and> (\<forall>d\<in>set (available (sv_pool s)) \<union> set (memoryChunks (sv_pool s)). blk d \<noteq> dev))"

definition same_block :: "nat \<Rightarrow> heap \<Rightarrow> heap \<Rightarrow> bool" where
  "same_block dev h h' \<longleftrightarrow> blocks h' dev = blocks h dev \<and> next_block h \<le> next_block h'"

lemma same_block_refl [simp]: "same_block dev h h"
  by (simp add: same_block_def)

lemma same_block_trans: "same_block dev h h1 \<Longrightarrow> same_block dev h1 h2 \<Longrightarrow> same_block dev h h2"
  by (auto simp: same_block_def)

lemma same_block_store: "store_bytes h p bs = Inr h' \<Longrightarrow> blk p \<noteq> dev \<Longrightarrow> same_block dev h h'"
  by (auto simp: store_bytes_def same_block_def split: if_splits)

lemma same_block_load: "same_block dev h h' \<Longrightarrow> blk q = dev \<Longrightarrow> load_bytes h' q m = load_bytes h q m"
  by (simp add: same_block_def load_bytes_def in_bounds_def)

lemma disjoint_part: "disjoint_ranges p k q m \<Longrightarrow> i + n \<le> k \<Longrightarrow> disjoint_ranges (padd p (int i)) n q m"
  using of_nat_mono[of "i + n" k, where 'a = int] by (auto simp: disjoint_ranges_def)

lemma pool_alloc_other_block:
  assumes "pool_alloc 1600 h p = Inr (h', p', b)" "dev < next_block h"
    "\<forall>d\<in>set (available p) \<union> set (memoryChunks p). blk d \<noteq> dev"
  shows "same_block dev h h' \<and> blk (b_data b) \<noteq> dev \<and> (\<forall>d\<in>set (available p') \<union> set (memoryChunks p'). blk d \<noteq> dev)"
proof (cases "available p = []")
  case True
  obtain h1 e where new: "heap_new h (unat (1600 * buffersPerChunk p)) = (h1, e)" by fastforce
  have e: "blk e = next_block h" "same_block dev h h1" using new assms(2) by (auto simp: heap_new_def same_block_def)
  have "\<forall>d\<in>set (available (snd (allocChunk 1600 h p))). blk d \<noteq> dev"
    using True new e(1) assms(2) by (auto simp: allocChunk_def foldl_push)
  then show ?thesis
    using assms True new e by (auto simp: pool_alloc_def allocChunk_def mkBuffer_def split: list.splits)
next
  case False
  then show ?thesis using assms(1,3) by (auto simp: pool_alloc_def mkBuffer_def split: list.splits)
qed

lemma same_block_encrypt:
  assumes "encryptTo lib h c src dest n = Inr (h', c')" "blk dest \<noteq> dev"
  shows "same_block dev h h'"
proof -
  obtain xs where "store_bytes h dest (snd (process (lib_encryption lib) (c_encryption c) xs)) = Inr h'"
    using assms(1) by (auto simp: encryptTo_def res_iffs split_beta split: option.splits)
  then show ?thesis using assms(2) by (rule same_block_store)
qed

lemma answer_target_frame:
  assumes ld: "load_bytes (sv_heap s) p (unat n) = Inr ip" and tr: "traceable ip"
    and run: "answer_target s (mkIp4 p n) = Inr (Some (cid, h'))"
  shows "\<exists>i bs. store_bytes (sv_heap s) (padd p (int i)) bs = Inr h' \<and> i + length bs \<le> unat n"
proof -
  have len: "length ip = unat n" using ld by (rule load_bytes_length)
  then have ld': "load_bytes (sv_heap s) p (length ip) = Inr ip" using ld by simp
  have 20: "20 \<le> length ip" using tr by (simp add: traceable_def)
  have proto: "ip4_protocol (sv_heap s) (mkIp4 p n) = Inr (ip ! 9)"
    using byte.ld_sub[OF ld', of 9] 20 by (simp add: ip4_protocol_def mkIp4_def slice_def)
  have "load8 (sv_heap s) p = Inr (ip ! 0)" using byte.ld_sub[OF ld', of 0] 20 by (simp add: slice_def)
  then have hl: "ip4_headerLen (sv_heap s) (mkIp4 p n) = Inr (ip ! 0 AND 15)" by (simp add: ip4_headerLen_def mkIp4_def)
  obtain tl where "ip4_totalLen (sv_heap s) (mkIp4 p n) = Inr tl"
    using half.ld_sub[OF ld', of 2] 20 by (auto simp: ip4_totalLen_def mkIp4_def)
  with hl obtain z where pay: "ip4_payload (sv_heap s) (mkIp4 p n)
      = Inr \<lparr>mb_data = Some (padd p (int (4 * unat (ip ! 0 AND 15)))), mb_size = z\<rparr>"
    by (simp add: ip4_payload_def mkIp4_def mult.commute)
  let ?o = "4 * unat (ip ! 0 AND 15)"
  from run proto have tcp_udp: "ip ! 9 \<in> {TCP, UDP}" by (auto simp: answer_target_def Let_def split: if_splits)
  then have o: "?o + 4 \<le> unat n" using tr len by (auto simp: traceable_def)
  have "\<exists>port. store16 (sv_heap s) (padd p (int ?o + 2)) port = Inr h'"
    using run proto pay
    by (auto simp: answer_target_def Let_def answer_client_def mkTcp_def mkUdp_def tcp_set_destPort_def udp_set_destPort_def res_iffs
        split: if_splits option.splits)
  then obtain port where "store_bytes (sv_heap s) (padd p (int (?o + 2))) (bytes16 port) = Inr h'"
    by (auto simp: store16_def add.commute)
  with o show ?thesis by (intro exI[of _ "?o + 2"] exI[of _ "bytes16 port"]) simp
qed

lemma set_heap_simps [simp]:
  "sv_heap (set_heap s h) = h" "sv_pool (set_heap s h) = sv_pool s" "sv_out (set_heap s h) = sv_out s"
  by (simp_all add: set_heap_def sv_heap_def sv_pool_def)

lemma setSize_data: "b_data (setSize b n) = b_data b"
  by (simp add: setSize_def)

lemma handler_parts:
  assumes run: "rawSocketPacketHandler lib s p n = Inr s1" "answer_target s (mkIp4 p n) = Inr (Some (cid, h0))"
  shows "\<exists>h1 pl b q h2 k h3 c. pool_alloc 1600 h0 (sv_pool s) = Inr (h1, pl, b) \<and> blk q = blk (b_data b)
    \<and> store8 h1 q TRANSMIT = Inr h2 \<and> encryptTo lib h2 k p (padd q 1) n = Inr (h3, c)
    \<and> sv_heap s1 = h3 \<and> sv_pool s1 = pl"
proof -
  note def = run[unfolded rawSocketPacketHandler_def]
  obtain h1 pl b where 1: "pool_alloc 1600 h0 (sv_pool s) = Inr (h1, pl, b)"
    using def by (cases "pool_alloc 1600 h0 (sv_pool s)") auto
  let ?q = "b_data (moveFrontBoundary b 10)"
  obtain h2 where 2: "store8 h1 ?q TRANSMIT = Inr h2"
    using def 1 by (cases "store8 h1 ?q TRANSMIT") (auto simp: Let_def)
  obtain ss where 3: "get_session s (unat cid) = Inr ss"
    using def 1 2 by (cases "get_session s (unat cid)") (auto simp: Let_def)
  obtain h3 c where 4: "encryptTo lib h2 (s_cryptor ss) p (padd ?q 1) n = Inr (h3, c)"
    using def 1 2 3 by (cases "encryptTo lib h2 (s_cryptor ss) p (padd ?q 1) n") (auto simp: setSize_data Let_def)
  have "sv_heap s1 = h3 \<and> sv_pool s1 = pl"
    using def 1 2 3 4
    by (auto simp: setSize_data Let_def res_iffs sv_heap_def sv_pool_def set_heap_def set_pool_def)
  moreover have "blk ?q = blk (b_data b)" by (simp add: moveFrontBoundary_def)
  ultimately show ?thesis using 1 2 4 by blast
qed

lemma handler_keeps:
  assumes inv: "pool_apart dev (h, s)" and p: "blk p = dev" "load_bytes h p (unat n) = Inr ip" "traceable ip"
    and run: "capture_handler lib p n (h, s) = Inr (h', s')"
  shows "pool_apart dev (h', s') \<and> (\<forall>q m. blk q = dev \<and> disjoint_ranges p (unat n) q m \<longrightarrow> load_bytes h' q m = load_bytes h q m)"
proof -
  obtain s1 where s1: "rawSocketPacketHandler lib (set_heap s h) p n = Inr s1" "h' = sv_heap s1" "s' = s1"
    using run by (auto simp: capture_handler_def res_iffs)
  obtain t where t: "answer_target (set_heap s h) (mkIp4 p n) = Inr t"
    using s1(1) by (auto simp: rawSocketPacketHandler_def res_iffs)
  show ?thesis
  proof (cases t)
    case None
    then have "s1 = set_heap s h" using s1(1) t by (simp add: rawSocketPacketHandler_def)
    with s1(2,3) inv show ?thesis by (simp add: pool_apart_def)
  next
    case (Some x)
    obtain cid h0 where x: "x = (cid, h0)" by fastforce
    obtain i bs where st: "store_bytes h (padd p (int i)) bs = Inr h0" "i + length bs \<le> unat n"
      using answer_target_frame[of "set_heap s h" p n ip cid h0] p(2,3) t Some x by auto
    have h0: "load_bytes h0 q m = load_bytes h q m" if "disjoint_ranges p (unat n) q m" for q m
      using that st(2) by (intro load_store_disjoint[OF st(1)] disjoint_part)
    have nb: "next_block h0 = next_block h" using st(1) by (auto simp: store_bytes_def split: if_splits)
    have target: "answer_target (set_heap s h) (mkIp4 p n) = Inr (Some (cid, h0))" using t Some x by simp
    obtain h1 pl b q h2 k h3 c where run: "pool_alloc 1600 h0 (sv_pool s) = Inr (h1, pl, b)" "blk q = blk (b_data b)"
      "store8 h1 q TRANSMIT = Inr h2" "encryptTo lib h2 k p (padd q 1) n = Inr (h3, c)"
      "sv_heap s1 = h3" "sv_pool s1 = pl"
      using handler_parts[OF s1(1) target] unfolding set_heap_simps by blast
    have a: "same_block dev h0 h1" "blk (b_data b) \<noteq> dev" "\<forall>d\<in>set (available pl) \<union> set (memoryChunks pl). blk d \<noteq> dev"
      using pool_alloc_other_block[OF run(1), of dev] inv nb by (auto simp: pool_apart_def)
    have "same_block dev h1 h2" using run(2,3) a(2) by (auto simp: store8_def intro: same_block_store)
    moreover have "same_block dev h2 h3" using same_block_encrypt[OF run(4)] run(2) a(2) by simp
    ultimately have all: "same_block dev h0 h3" using a(1) same_block_trans by blast
    have "load_bytes h3 q m = load_bytes h q m" if "blk q = dev" "disjoint_ranges p (unat n) q m" for q m
      using same_block_load[OF all that(1)] h0[OF that(2)] by simp
    moreover have "dev < next_block h3" using all nb inv by (simp add: same_block_def pool_apart_def)
    ultimately show ?thesis using a(3) run(5,6) s1(2,3) by (simp add: pool_apart_def)
  qed
qed

interpretation captured: packet_handler "capture_handler lib" "pool_apart dev" dev for lib dev
  by unfold_locales (rule handler_keeps)

section \<open>The answers of a read\<close>

text \<open>
  What the server owes for a packet: to the client of its connection, if there is one and its
  session is connected, the packet with the client's port, encrypted, behind the command.
\<close>

definition answer_of :: "'c cryptopp \<Rightarrow> ('ep, 'c, 'j, 'r) server \<Rightarrow> bytes \<Rightarrow> ('ep \<times> bytes) list" where
  "answer_of lib s bs =
     (if bs ! 9 = TCP \<or> bs ! 9 = UDP then
        case answer_connection s bs of
          None \<Rightarrow> []
        | Some c \<Rightarrow>
            let x = conns (answer_table s bs) ! c; ss = sv_sessions s ! unat (clientID x)
            in if isConnected ss
               then [(s_endpoint ss, TRANSMIT # seal lib (s_cryptor ss) (answer_packet (clientPort x) bs))]
               else []
      else [])"

text \<open>
  A packet that fits a buffer and, if it is TCP or UDP, has its first eight bytes of payload;
  tables that lead to sessions of the vector, those with a usable cryptor.
\<close>

definition fits :: "bytes \<Rightarrow> bool" where
  "fits bs \<longleftrightarrow> length bs \<le> 1589
     \<and> (bs ! 9 = TCP \<or> bs ! 9 = UDP \<longrightarrow> 20 \<le> header_length bs \<and> header_length bs + 8 \<le> length bs)"

definition routes_ok :: "'c cryptopp \<Rightarrow> ('ep, 'c, 'j, 'r) server \<Rightarrow> bool" where
  "routes_ok lib s \<longleftrightarrow> (\<forall>t\<in>{sv_tcpNapt s, sv_udpNapt s}. napt_wf t
       \<and> (\<forall>x\<in>set (conns t). unat (clientID x) < length (sv_sessions s)))
     \<and> (\<forall>ss\<in>set (sv_sessions s). usable lib (s_cryptor ss))"

text \<open>The two servers answer alike: their tables and sessions are the same.\<close>

definition same_routes :: "('ep, 'c, 'j, 'r) server \<Rightarrow> ('ep, 'c, 'j, 'r) server \<Rightarrow> bool" where
  "same_routes s t \<longleftrightarrow> sv_sessions t = sv_sessions s \<and> sv_tcpNapt t = sv_tcpNapt s \<and> sv_udpNapt t = sv_udpNapt s"

lemma same_routes_answers:
  assumes "same_routes s t"
  shows "answer_of lib t bs = answer_of lib s bs" "routes_ok lib t = routes_ok lib s"
proof -
  have "answer_table t bs = answer_table s bs" using assms by (simp add: same_routes_def answer_table_def)
  moreover from this have "answer_connection t bs = answer_connection s bs" by (simp add: answer_connection_def)
  ultimately show "answer_of lib t bs = answer_of lib s bs" using assms by (simp add: answer_of_def same_routes_def split: option.split)
  show "routes_ok lib t = routes_ok lib s" using assms by (simp add: same_routes_def routes_ok_def)
qed

lemma same_routes_set_heap [simp]: "same_routes s (set_heap s h)"
  by (simp add: set_heap_def same_routes_def)

lemma answer_step:
  assumes ld: "load_bytes (sv_heap s) p (length bs) = Inr bs" and len: "length bs = unat len" and bs: "fits bs"
    and ok: "routes_ok lib s" and own: "pool_owns 1600 (sv_heap s, sv_pool s) out"
    and apart: "blk p \<notin> blk ` set (memoryChunks (sv_pool s))" and short: "20 \<le> length bs"
  shows "\<exists>s' out'. rawSocketPacketHandler lib s p len = Inr s' \<and> sv_out s' = sv_out s @ answer_of lib s bs
    \<and> same_routes s s' \<and> pool_owns 1600 (sv_heap s', sv_pool s') out'"
proof (cases "bs ! 9 = TCP \<or> bs ! 9 = UDP")
  case False
  have "ip4_protocol (sv_heap s) (mkIp4 p len) = Inr (bs ! 9)"
    using byte.ld_sub[OF ld, of 9] short by (simp add: ip4_protocol_def mkIp4_def slice_def)
  with False have "rawSocketPacketHandler lib s p len = Inr s"
    by (simp add: rawSocketPacketHandler_def answer_target_def)
  with False own show ?thesis by (auto simp: answer_of_def same_routes_def)
next
  case proto: True
  have n: "20 \<le> header_length bs" "header_length bs + 8 \<le> length bs" "length bs \<le> 1589"
    using bs proto by (simp_all add: fits_def)
  note target = answer_target_at[OF ld n(1,2) proto, of len]
  show ?thesis
  proof (cases "answer_connection s bs")
    case None
    then have "rawSocketPacketHandler lib s p len = Inr s"
      by (simp add: rawSocketPacketHandler_def target answer_client_def)
    with None own show ?thesis by (auto simp: answer_of_def same_routes_def)
  next
    case (Some c)
    let ?x = "conns (answer_table s bs) ! c"
    have t: "answer_table s bs \<in> {sv_tcpNapt s, sv_udpNapt s}" by (simp add: answer_table_def)
    then have c: "c < length (conns (answer_table s bs))"
      using ok Some by (auto simp: routes_ok_def napt_wf_def answer_connection_def find_server_def)
    then have x: "unat (clientID ?x) < length (sv_sessions s)" using ok t by (auto simp: routes_ok_def)
    then have u: "usable lib (s_cryptor (sv_sessions s ! unat (clientID ?x)))" using ok by (simp add: routes_ok_def)
    show ?thesis
    proof (cases "isConnected (sv_sessions s ! unat (clientID ?x))")
      case True
      from answer_sent[OF ld len n(1,2,3) proto Some c refl x True u own apart] True Some proto
      show ?thesis by (auto simp: answer_of_def same_routes_def Let_def)
    next
      case False
      then have "rawSocketPacketHandler lib s p len = Inr s"
        using Some c x by (simp add: rawSocketPacketHandler_def target answer_client_def deref_conn_def get_session_def)
      with False Some own show ?thesis by (auto simp: answer_of_def same_routes_def)
    qed
  qed
qed

lemma handler_answers:
  assumes "blk p = dev" "load_bytes h p (unat n) = Inr ip" "ip \<in> Collect fits" "traceable ip" "pool_apart dev (h, s)"
    and "routes_ok lib s" "pool_owns 1600 (h, sv_pool s) out"
  shows "\<exists>h' s' out'. capture_handler lib p n (h, s) = Inr (h', s') \<and> sv_out s' = sv_out s @ answer_of lib s ip
    \<and> same_routes s s' \<and> pool_owns 1600 (h', sv_pool s') out'"
proof -
  have len: "length ip = unat n" using assms(2) by (rule load_bytes_length)
  have "\<exists>s' out'. rawSocketPacketHandler lib (set_heap s h) p n = Inr s'
      \<and> sv_out s' = sv_out (set_heap s h) @ answer_of lib (set_heap s h) ip
      \<and> same_routes (set_heap s h) s' \<and> pool_owns 1600 (sv_heap s', sv_pool s') out'"
    using assms len same_routes_answers(2)[of s "set_heap s h" lib]
    by (intro answer_step) (auto simp: pool_apart_def traceable_def)
  then show ?thesis
    using same_routes_answers(1)[of s "set_heap s h" lib]
    by (auto simp: capture_handler_def same_routes_def set_heap_def)
qed

text \<open>
  C7. The answers of a read reach their clients, each once and in the order the packets were
  captured. If every packet of the read fits a buffer, one run of the posted handler of the raw
  socket sends, for every packet that belongs to a connection of a connected session, that
  packet with the client's port, encrypted for the client, to the client's endpoint, and nothing
  for the others; the tables and sessions stay, and the device's buffer is free for the
  next read. The server rewriting the packets in place does not disturb those behind.
\<close>

theorem captures_reach_clients:
  assumes "captures_ok B cs" "cs \<noteq> []" "rs_buf r = Some buf"
    and "load_bytes (sv_heap s) buf (length (concat (map capture_bytes cs))) = Inr (concat (map capture_bytes cs))"
    and "rs_readableLen r = int (length (concat (map capture_bytes cs)))" "length cs \<le> fuel"
    and "\<forall>c\<in>set cs. fits (c_ip c)" "routes_ok lib s"
    and "pool_owns 1600 (sv_heap s, sv_pool s) out" "pool_apart (blk buf) (sv_heap s, s)"
  shows "\<exists>h' s'. consume B (capture_handler lib) fuel r (sv_heap s, s) = Inr (r\<lparr>rs_readableLen := 0\<rparr>, h', s')
    \<and> sv_out s' = sv_out s @ concat (map (answer_of lib s \<circ> c_ip) cs)
    \<and> sv_sessions s' = sv_sessions s \<and> sv_tcpNapt s' = sv_tcpNapt s \<and> sv_udpNapt s' = sv_udpNapt s"
proof -
  let ?Q = "\<lambda>seen (h', s'). sv_out s' = sv_out s @ concat (map (answer_of lib s) seen) \<and> same_routes s s'
      \<and> (\<exists>out'. pool_owns 1600 (h', sv_pool s') out')"
  have "\<exists>h' s'. capture_handler lib p n (h, t) = Inr (h', s') \<and> ?Q (seen @ [ip]) (h', s')"
    if p: "blk p = blk buf" "load_bytes h p (unat n) = Inr ip" "ip \<in> Collect fits" "traceable ip" "pool_apart (blk buf) (h, t)"
      and Q: "?Q seen (h, t)" for p n ip seen h t
  proof -
    obtain o1 where o1: "pool_owns 1600 (h, sv_pool t) o1" using Q by auto
    have r: "routes_ok lib t" using same_routes_answers(2)[of s t lib] Q assms(8) by simp
    from handler_answers[OF p r o1] same_routes_answers(1)[of s t lib ip] Q
    show ?thesis by (auto simp: same_routes_def)
  qed
  moreover have "?Q [] (sv_heap s, s)" using assms(9) by (auto simp: same_routes_def)
  ultimately have "\<exists>h' s'. handle_all (capture_handler lib) (packets_at B buf 0 cs) (sv_heap s, s) = Inr (h', s')
      \<and> ?Q ([] @ map c_ip cs) (h', s')"
    using assms(1,4,7,10) by (intro captured.handle_each[where A = "Collect fits" and Q = ?Q and dev = "blk buf"]) auto
  moreover note captured.consume_packets[OF assms(1-6,10) refl, of lib]
  ultimately show ?thesis by (auto simp: same_routes_def comp_def)
qed

text \<open>The answer of the repository's test packet, and an echo request behind it.\<close>

definition route_captures :: "capture list" where
  "route_captures = [demo_capture 42 answer_sample [],
     demo_capture 34 [69, 0, 0, 20, 0, 0, 0, 0, 64, 1, 0, 0, 8, 8, 8, 8, 10, 0, 0, 1] []]"

lemma route_captures_ok: "captures_ok darwin_bpf route_captures" "\<forall>c\<in>set route_captures. fits (c_ip c)"
  by (simp_all add: route_captures_def demo_capture_def header_says_def traceable_def record_len_def capture_bytes_def
      darwin_bpf_def be16_def be32_def TCP_def UDP_def fits_def answer_sample_def header_length_def)

lemma route_routes_ok: "routes_ok plain_lib (route_server m route_napt)"
proof -
  have "napt_wf route_napt" unfolding route_napt_def
    by (rule add_conn_wf[OF newNapt_wf]) (simp_all add: newNapt_def)
  moreover have "unat (clientID x) = 0" if "x \<in> set (conns route_napt)" for x
    using that by (auto simp: route_napt_def newNapt_def add_conn_def Let_def)
  ultimately show ?thesis
    by (simp add: routes_ok_def route_memory route_session_def keyed_session_def plain_usable newNapt_wf) (simp add: newNapt_def)
qed

theorem captures_reach_clients_witness:
  "\<exists>r h s'. consume darwin_bpf (capture_handler plain_lib) 2 r
        (sv_heap (route_server (concat (map capture_bytes route_captures)) route_napt),
         route_server (concat (map capture_bytes route_captures)) route_napt)
      = Inr (r\<lparr>rs_readableLen := 0\<rparr>, h, s')
    \<and> sv_out s' = [(5, TRANSMIT # answer_packet 4500 answer_sample)]"
proof -
  let ?m = "concat (map capture_bytes route_captures)"
  let ?s = "route_server ?m route_napt"
  let ?r = "\<lparr>rs_fd = 7, rs_bufLen = 4096, rs_buf = Some (Ptr 0 0), rs_readableLen = int (length ?m)\<rparr>"
  have cs: "route_captures \<noteq> []" "length route_captures \<le> 2" by (simp_all add: route_captures_def)
  have r: "rs_buf ?r = Some (Ptr 0 0)" "rs_readableLen ?r = int (length ?m)" by simp_all
  have apart: "pool_apart (blk (Ptr 0 0)) (sv_heap ?s, ?s)" by (simp add: pool_apart_def route_memory newPool_def)
  note c = route_answer_connection[OF route_header(2) answer_is_udp route_ports(4-6)]
  have "answer_of plain_lib ?s answer_sample = [(5, TRANSMIT # answer_packet 4500 answer_sample)]"
    using route_answer_header(3) c by (simp add: answer_of_def route_memory route_session_def keyed_session_def isConnected_def)
  then have out: "concat (map (answer_of plain_lib ?s \<circ> c_ip) route_captures)
      = [(5, TRANSMIT # answer_packet 4500 answer_sample)]"
    by (simp add: route_captures_def demo_capture_def) (simp add: answer_of_def TCP_def UDP_def)
  from captures_reach_clients[OF route_captures_ok(1) cs(1) r(1) route_load[OF refl] r(2) cs(2) route_captures_ok(2)
      route_routes_ok route_pool apart] show ?thesis
    unfolding out by (elim exE conjE) (intro exI conjI, assumption, simp add: route_memory)
qed

end
