(* ===== verification/ServerFlow.thy ===== *)
theory ServerFlow
  imports ServerCapture
begin

text \<open>
  A packet and its answer: the two ways through the server of \<^verbatim>\<open>server/TunnelServer.cc\<close>, one after
  the other.
\<close>

section \<open>The headers of a forwarded packet\<close>

text \<open>
  \<open>ans\<close> is an answer to \<open>pk\<close>: of the same protocol, from the host and port \<open>pk\<close> went to, to the
  port it came from.
\<close>

definition replies :: "bytes \<Rightarrow> bytes \<Rightarrow> bool" where
  "replies pk ans \<longleftrightarrow> ans ! 9 = pk ! 9 \<and> be32_at ans 12 = be32_at pk 16
     \<and> be16_at ans (header_length ans) = be16_at pk (header_length pk + 2)
     \<and> be16_at ans (header_length ans + 2) = be16_at pk (header_length pk)"

lemma forwarded_nth:
  assumes "20 \<le> header_length bs" "header_length bs + 8 \<le> length bs" "i < length bs"
    and "i < 10 \<or> 16 \<le> i" "i < header_length bs + 6 \<or> header_length bs + 8 \<le> i"
  shows "patch 10 (bytes16 ck) (rewritten_udp q addr bs) ! i = patch (header_length bs) (bytes16 q) bs ! i"
  using assms by (simp add: rewritten_udp_def nth_patch) auto

lemma forwarded_header:
  assumes n: "20 \<le> header_length bs" "header_length bs + 8 \<le> length bs"
  defines "pk \<equiv> \<lambda>q addr ck. patch 10 (bytes16 ck) (rewritten_udp q addr bs)"
  shows "header_length (pk q addr ck) = header_length bs" "pk q addr ck ! 9 = bs ! 9"
    "be32_at (pk q addr ck) 16 = be32_at bs 16"
    "be16_at (pk q addr ck) (header_length bs) = q"
    "be16_at (pk q addr ck) (header_length bs + 2) = be16_at bs (header_length bs + 2)"
proof -
  have same: "pk q addr ck ! i = bs ! i" if "i < 10 \<or> 16 \<le> i \<and> i < 20 \<or> header_length bs + 2 \<le> i \<and> i < header_length bs + 6" for i
    using that n forwarded_nth[of bs i ck q addr] by (auto simp: pk_def nth_patch)
  then show "header_length (pk q addr ck) = header_length bs" "pk q addr ck ! 9 = bs ! 9"
    "be32_at (pk q addr ck) 16 = be32_at bs 16"
    "be16_at (pk q addr ck) (header_length bs + 2) = be16_at bs (header_length bs + 2)"
    by (simp_all add: header_length_def be32_at_def be16_at_def)
  have "pk q addr ck ! header_length bs = bytes16 q ! 0" "pk q addr ck ! (header_length bs + 1) = bytes16 q ! 1"
    using n forwarded_nth[of bs "header_length bs" ck q addr] forwarded_nth[of bs "header_length bs + 1" ck q addr]
    by (simp_all add: pk_def nth_patch)
  then show "be16_at (pk q addr ck) (header_length bs) = q" by (simp add: be16_at_def bytes16_def)
qed

section \<open>The connection of a new packet\<close>

lemma new_connection:
  assumes wf: "napt_wf n" and run: "createIfNotExist n cid cport ip sport = Inr (n', Some c)" and new: "n' \<noteq> n"
  shows "napt_wf n'" "c < length (conns n')" "clientID (conns n' ! c) = cid" "clientPort (conns n' ! c) = cport"
    "find_server n' ip sport (localPort (conns n' ! c)) = Some c" "portFrom n' = portFrom n" "portTo n' = portTo n"
    "set (conns n') = insert (conns n' ! c) (set (conns n))"
proof -
  obtain lp where lp: "n' = add_conn n cid cport ip sport lp" "c = length (conns n)" "portFrom n \<le> lp" "lp \<le> portTo n"
    using create_new[OF assms] by blast
  show "napt_wf n'" unfolding lp(1) by (rule add_conn_wf[OF wf lp(3,4)])
  show "c < length (conns n')" "clientID (conns n' ! c) = cid" "clientPort (conns n' ! c) = cport"
    "find_server n' ip sport (localPort (conns n' ! c)) = Some c" "portFrom n' = portFrom n" "portTo n' = portTo n"
    "set (conns n') = insert (conns n' ! c) (set (conns n))"
    using lp(1,2) add_conn_finds[of n cid cport ip sport lp] by (auto simp: add_conn_def Let_def)
qed

lemma routes_after:
  assumes "routes_ok lib s" "napt_wf t" "set (conns t) = insert x (set (conns (sv_udpNapt s)))"
    and "unat (clientID x) < length (sv_sessions s)" "sv_udpNapt s' = t" "sv_tcpNapt s' = sv_tcpNapt s"
    and "sv_sessions s' = (sv_sessions s)[i := y]" "s_cryptor y = s_cryptor (sv_sessions s ! i)" "i < length (sv_sessions s)"
  shows "routes_ok lib s'"
proof -
  have "usable lib (s_cryptor ss)" if "ss \<in> set (sv_sessions s')" for ss
    using that assms(1,7-9) set_update_subset_insert[of "sv_sessions s" i y] by (auto simp: routes_ok_def)
  then show ?thesis using assms by (simp add: routes_ok_def)
qed

section \<open>There and back\<close>

text \<open>
  C6. A conversation. When a UDP packet of a client has been forwarded over a new connection, the
  answer of its host comes back to the port the packet left with, which is the client's own
  and not the local port of the connection. So the answer reaches the client if the two ports
  are by chance the same, and it is dropped if the client's port lies outside the range of
  local ports; whatever happened to memory and pool in between.
\<close>

theorem udp_answer_comes_back:
  assumes cid: "load16 (sv_heap s) (b_data b) = Inr cid" and n: "n = unat (b_size b - 2)"
    and enc: "load_bytes (sv_heap s) (padd (b_data b) 2) n = Inr enc"
    and session: "unat cid < length (sv_sessions s)" "s_endpoint (sv_sessions s ! unat cid) = sv_receiveEp s"
      "isConnected (sv_sessions s ! unat cid)" "usable lib (s_cryptor (sv_sessions s ! unat cid))"
    and sum: "ip4_calculateChecksum (sv_heap s) (mkIp4 (padd (b_data b) 2) (b_size b - 2)) = Inr w"
      "ip4_checksum (sv_heap s) (mkIp4 (padd (b_data b) 2) (b_size b - 2)) = Inr w"
    and bs: "bs = unseal lib (s_cryptor (sv_sessions s ! unat cid)) enc"
    and packet: "bs ! 9 = UDP" "20 \<le> header_length bs" "header_length bs + 8 \<le> n"
    and napt: "createIfNotExist (sv_udpNapt s) cid (be16_at bs (header_length bs)) (be32_at bs 16)
      (be16_at bs (header_length bs + 2)) = Inr (t, Some c)" "t \<noteq> sv_udpNapt s"
    and ok: "routes_ok lib s"
  shows "\<exists>s' ck pk. processTransmit lib s b = Inr s' \<and> sv_raw s' = sv_raw s @ [pk]
    \<and> pk = patch 10 (bytes16 ck) (rewritten_udp (be16_at bs (header_length bs)) (sv_ifAddress s) bs)
    \<and> (\<forall>h p len ans out. load_bytes h p (unat len) = Inr ans \<and> fits ans \<and> replies pk ans
        \<and> pool_owns 1600 (h, sv_pool s) out \<and> blk p \<notin> blk ` set (memoryChunks (sv_pool s)) \<longrightarrow>
      (\<exists>s2. rawSocketPacketHandler lib (set_heap s' h) p len = Inr s2
        \<and> (be16_at bs (header_length bs) = localPort (conns t ! c) \<longrightarrow>
            sv_out s2 = sv_out s @ [(sv_receiveEp s, TRANSMIT # seal lib (s_cryptor (sv_sessions s ! unat cid))
              (answer_packet (be16_at bs (header_length bs)) ans))])
        \<and> (be16_at bs (header_length bs) < portFrom (sv_udpNapt s) \<or> be16_at bs (header_length bs) > portTo (sv_udpNapt s) \<longrightarrow>
            sv_out s2 = sv_out s)))"
proof -
  let ?q = "be16_at bs (header_length bs)" and ?x = "conns t ! c" and ?ss = "sv_sessions s ! unat cid"
  have wf: "napt_wf (sv_udpNapt s)" using ok by (simp add: routes_ok_def)
  note x = new_connection[OF wf napt]
  have len: "length bs = n"
    using session(4) load_bytes_length[OF enc] unfolding bs usable_def by simp
  obtain s' ck where s': "processTransmit lib s b = Inr s'" "sv_udpNapt s' = t"
    "sv_raw s' = sv_raw s @ [patch 10 (bytes16 ck) (rewritten_udp (clientPort ?x) (sv_ifAddress s) bs)]"
    "sv_sessions s' = (sv_sessions s)[unat cid := updateTransmit (sv_now s) ?ss (b_size b + 1)]"
    "sv_tcpNapt s' = sv_tcpNapt s" "sv_out s' = sv_out s" "sv_pool s' = sv_pool s"
    using udp_forwarded[OF cid n enc session sum bs packet napt(1) x(2)] by blast
  let ?pk = "patch 10 (bytes16 ck) (rewritten_udp (clientPort ?x) (sv_ifAddress s) bs)"
  note pk = forwarded_header[OF packet(2) packet(3)[folded len], of ck "clientPort ?x" "sv_ifAddress s"]
  have ok': "routes_ok lib s'"
    using routes_after[OF ok x(1,8) _ s'(2,5,4) _ session(1)] x(3) session(1) by (simp add: updateTransmit_def)
  have "\<exists>s2. rawSocketPacketHandler lib (set_heap s' h) p len = Inr s2
      \<and> (?q = localPort ?x \<longrightarrow>
          sv_out s2 = sv_out s @ [(sv_receiveEp s, TRANSMIT # seal lib (s_cryptor ?ss) (answer_packet ?q ans))])
      \<and> (?q < portFrom (sv_udpNapt s) \<or> ?q > portTo (sv_udpNapt s) \<longrightarrow> sv_out s2 = sv_out s)"
    if a: "load_bytes h p (unat len) = Inr ans" "fits ans" "replies ?pk ans"
      "pool_owns 1600 (h, sv_pool s) out" "blk p \<notin> blk ` set (memoryChunks (sv_pool s))" for h p len ans out
  proof -
    have proto: "ans ! 9 = UDP" using a(3) pk packet(1) by (simp add: replies_def)
    have l: "length ans = unat len" using a(1) by (rule load_bytes_length)
    have "20 \<le> length ans" using a(2) proto by (simp add: fits_def)
    then obtain s2 where s2: "rawSocketPacketHandler lib (set_heap s' h) p len = Inr s2"
      "sv_out s2 = sv_out s @ answer_of lib s' ans"
      using answer_step[of "set_heap s' h" p ans len lib out] a ok' l s'(6,7) same_routes_answers(1)[of s' "set_heap s' h" lib ans]
        same_routes_answers(2)[of s' "set_heap s' h" lib]
      by auto
    have table: "answer_table s' ans = t" using proto s'(2) by (simp add: answer_table_def UDP_def TCP_def)
    then have conn: "answer_connection s' ans = find_server t (be32_at bs 16) (be16_at bs (header_length bs + 2)) ?q"
      using a(3) pk x(4) by (simp add: answer_connection_def replies_def)
    have "answer_of lib s' ans = [(sv_receiveEp s, TRANSMIT # seal lib (s_cryptor ?ss) (answer_packet ?q ans))]"
      if "?q = localPort ?x"
      using that conn x(3-5) table proto s'(4) session(1-3)
      by (simp add: answer_of_def Let_def updateTransmit_def isConnected_def)
    moreover have "answer_of lib s' ans = []" if "?q < portFrom (sv_udpNapt s) \<or> ?q > portTo (sv_udpNapt s)"
    proof -
      have "answer_connection s' ans = None"
        using find_server_range[OF x(1)] that x(6,7) unfolding conn by (cases "find_server t (be32_at bs 16) (be16_at bs (header_length bs + 2)) ?q") (auto simp: not_less[symmetric])
      then show ?thesis by (simp add: answer_of_def)
    qed
    ultimately show ?thesis using s2 by (intro exI[of _ s2]) simp
  qed
  with s'(1,3) x(4) show ?thesis by (intro exI[of _ s'] exI[of _ ck] exI[of _ ?pk]) auto
qed

text \<open>
  The packet of the repository's tests, from client port 4500, and its answer, with local ports
  from 4500 on.
\<close>

definition flow_answer :: bytes where
  "flow_answer =
     [0x45, 0x00, 0x00, 0x1c, 0x51, 0x3f, 0x00, 0x00, 0x40, 0x11, 0x00, 0x00,
      0xbc, 0xa6, 0x10, 0xe4, 0xc0, 0xa8, 0x01, 0x06, 0x11, 0x94, 0x11, 0x94,
      0x00, 0x08, 0x00, 0x00]"

lemma flow_create:
  "createIfNotExist (newNapt 4500 4502) 0 4500 (be32 0xbc 0xa6 0x10 0xe4) 4500
    = Inr (add_conn (newNapt 4500 4502) 0 4500 (be32 0xbc 0xa6 0x10 0xe4) 4500 4500, Some 0)"
  by (rule fresh_create) simp_all

lemma flow_answer_header:
  "header_length flow_answer = 20" "flow_answer ! 9 = UDP" "be16_at flow_answer 20 = 4500" "be16_at flow_answer 22 = 4500"
  "be32_at flow_answer 12 = be32 0xbc 0xa6 0x10 0xe4" "length flow_answer = 28"
  by (simp_all add: header_length_def be16_at_def be32_at_def be16_def flow_answer_def UDP_def)

lemma flow_routes_ok: "routes_ok plain_lib (route_server m (newNapt 4500 4502))"
  by (simp add: routes_ok_def route_memory route_session_def keyed_session_def plain_usable newNapt_wf) (simp add: newNapt_def)

theorem udp_answer_comes_back_witness:
  "\<exists>s' s2 h. processTransmit plain_lib (route_server ([0, 0] @ udp_sample) (newNapt 4500 4502)) route_buffer = Inr s'
    \<and> rawSocketPacketHandler plain_lib (set_heap s' h) (Ptr 0 0) 28 = Inr s2
    \<and> sv_out s2 = [(5, TRANSMIT # answer_packet 4500 flow_answer)]"
proof -
  let ?s = "route_server ([0, 0] @ udp_sample) (newNapt 4500 4502)"
  let ?t = "add_conn (newNapt 4500 4502) 0 4500 (be32 0xbc 0xa6 0x10 0xe4) 4500 4500"
  let ?h = "\<lparr>blocks = [0 \<mapsto> flow_answer], next_block = 1, junk = (\<lambda>_. 0)\<rparr>"
  have session: "unat (0 :: u16) < length (sv_sessions ?s)" "s_endpoint (sv_sessions ?s ! unat (0 :: u16)) = sv_receiveEp ?s"
    "isConnected (sv_sessions ?s ! unat (0 :: u16))" "usable plain_lib (s_cryptor (sv_sessions ?s ! unat (0 :: u16)))"
    by (simp_all add: route_memory route_session_def keyed_session_def isConnected_def plain_usable)
  have n: "28 = unat (b_size route_buffer - 2)" by (simp add: route_buffer_def)
  have packet: "udp_sample ! 9 = UDP" "20 \<le> header_length udp_sample" "header_length udp_sample + 8 \<le> 28"
    by (simp_all add: route_header) (simp add: udp_sample_def UDP_def)
  have napt: "createIfNotExist (sv_udpNapt ?s) 0 (be16_at udp_sample (header_length udp_sample)) (be32_at udp_sample 16)
      (be16_at udp_sample (header_length udp_sample + 2)) = Inr (?t, Some 0)" "?t \<noteq> sv_udpNapt ?s"
    by (simp_all add: route_header route_ports route_memory flow_create) (simp add: add_conn_def newNapt_def Let_def)
  have plain: "udp_sample = unseal plain_lib (s_cryptor (sv_sessions ?s ! unat (0 :: u16))) udp_sample" by simp
  have port: "be16_at udp_sample (header_length udp_sample) = 4500" "localPort (conns ?t ! 0) = 4500"
    by (simp_all add: route_header route_ports) (simp add: add_conn_def newNapt_def Let_def)
  have replies: "replies (patch 10 (bytes16 ck) (rewritten_udp 4500 addr udp_sample)) flow_answer" for ck addr
    using forwarded_header[of udp_sample ck 4500 addr] packet(1)
    by (simp add: replies_def flow_answer_header route_header route_ports) (simp add: udp_sample_def)
  have ready: "load_bytes ?h (Ptr 0 0) (unat (28 :: u32)) = Inr flow_answer" "fits flow_answer"
    "pool_owns 1600 (?h, sv_pool ?s) {#}" "blk (Ptr 0 0) \<notin> blk ` set (memoryChunks (sv_pool ?s))"
    by (simp_all add: load_bytes_def in_bounds_def slice_def flow_answer_header route_memory pool_owns_def newPool_def
        slots_def heap_wf_def fits_def)
  note flow = udp_answer_comes_back[OF route_datagram(1) n route_datagram(2) session route_checksum[OF route_datagram(2)]
      plain packet napt flow_routes_ok, unfolded port plain_seal]
  then obtain s' s2 where "processTransmit plain_lib ?s route_buffer = Inr s'"
    "rawSocketPacketHandler plain_lib (set_heap s' ?h) (Ptr 0 0) 28 = Inr s2"
    "sv_out s2 = sv_out ?s @ [(sv_receiveEp ?s, TRANSMIT # answer_packet 4500 flow_answer)]"
    using ready replies by blast
  then show ?thesis by (auto simp: route_memory)
qed

end
