(* ===== verification/TcpPath.thy ===== *)
theory TcpPath
  imports ServerFlow
begin

text \<open>
  TCP through the server of \<^verbatim>\<open>server/TunnelServer.cc\<close>: the packets it forwards have valid
  checksums, its answers in general not.
\<close>

section \<open>Checksums of a packet\<close>

definition ip_valid :: "bytes \<Rightarrow> bool" where
  "ip_valid bs \<longleftrightarrow> ones_sum (words_total (take (header_length bs) bs)) = 65535"

text \<open>The segment as its receiver tests it: pseudo header and all words sum to 65535.\<close>

definition tcp_valid :: "bytes \<Rightarrow> bool" where
  "tcp_valid bs \<longleftrightarrow> ones_sum (pseudo_sum (be32_at bs 12) (be32_at bs 16) (bs ! 9) (length bs - header_length bs)
     + words_total (drop (header_length bs) bs)) = 65535"

text \<open>A packet whose TCP source port and source address have been rewritten.\<close>

definition rewritten_tcp :: "u16 \<Rightarrow> u32 \<Rightarrow> bytes \<Rightarrow> bytes" where
  "rewritten_tcp port addr bs = patch 12 (bytes32 addr) (patch (header_length bs) (bytes16 port) bs)"

lemma rewritten_tcp_header:
  assumes "20 \<le> header_length bs" "header_length bs + 18 \<le> length bs"
  shows "header_length (rewritten_tcp q addr bs) = header_length bs" "length (rewritten_tcp q addr bs) = length bs"
    "rewritten_tcp q addr bs ! 9 = bs ! 9" "be16_at (rewritten_tcp q addr bs) 2 = be16_at bs 2"
    "be32_at (rewritten_tcp q addr bs) 16 = be32_at bs 16" "be32_at (rewritten_tcp q addr bs) 12 = addr"
proof -
  have same: "rewritten_tcp q addr bs ! i = bs ! i" if "i < 12 \<or> 16 \<le> i \<and> i < 20" for i
    using that assms by (auto simp: rewritten_tcp_def nth_patch)
  then show "header_length (rewritten_tcp q addr bs) = header_length bs" "rewritten_tcp q addr bs ! 9 = bs ! 9"
    "be16_at (rewritten_tcp q addr bs) 2 = be16_at bs 2" "be32_at (rewritten_tcp q addr bs) 16 = be32_at bs 16"
    by (simp_all add: header_length_def be16_at_def be32_at_def)
  show "length (rewritten_tcp q addr bs) = length bs" using assms by (simp add: rewritten_tcp_def)
  have "rewritten_tcp q addr bs ! i = bytes32 addr ! (i - 12)" if "12 \<le> i" "i < 16" for i
    using that assms by (simp add: rewritten_tcp_def nth_patch)
  then show "be32_at (rewritten_tcp q addr bs) 12 = addr" by (simp add: be32_at_def) (simp add: bytes32_def)
qed

lemma patched_header:
  assumes "20 \<le> header_length bs" "header_length bs + 18 \<le> length bs"
    and "i = 10 \<or> header_length bs \<le> i" "i + 2 \<le> length bs"
  shows "header_length (patch i (bytes16 w) bs) = header_length bs" "length (patch i (bytes16 w) bs) = length bs"
    "patch i (bytes16 w) bs ! 9 = bs ! 9" "be32_at (patch i (bytes16 w) bs) 16 = be32_at bs 16"
    "be32_at (patch i (bytes16 w) bs) 12 = be32_at bs 12"
proof -
  have "patch i (bytes16 w) bs ! k = bs ! k" if "k < 10 \<or> 12 \<le> k \<and> k < 20" for k
    using that assms by (auto simp: nth_patch)
  then show "header_length (patch i (bytes16 w) bs) = header_length bs"
    "patch i (bytes16 w) bs ! 9 = bs ! 9" "be32_at (patch i (bytes16 w) bs) 16 = be32_at bs 16"
    "be32_at (patch i (bytes16 w) bs) 12 = be32_at bs 12"
    by (simp_all add: header_length_def be32_at_def)
  show "length (patch i (bytes16 w) bs) = length bs" using assms(4) by simp
qed

lemma drop_patch_before: "i + length ys \<le> k \<Longrightarrow> k \<le> length xs \<Longrightarrow> drop k (patch i ys xs) = drop k xs"
  by (simp add: patch_def)

lemma drop_patch_after: "k \<le> i \<Longrightarrow> i \<le> length xs \<Longrightarrow> drop k (patch i ys xs) = patch (i - k) ys (drop k xs)"
  by (simp add: patch_def drop_take)

lemma tcp_valid_ip_patch:
  assumes "20 \<le> header_length bs" "header_length bs + 18 \<le> length bs"
  shows "tcp_valid (patch 10 (bytes16 ck) bs) = tcp_valid bs"
  using assms patched_header[of bs 10 ck] by (simp add: tcp_valid_def drop_patch_before)

section \<open>The view of a packet\<close>

definition tcp_of :: "ptr \<Rightarrow> u32 \<Rightarrow> bytes \<Rightarrow> tcp" where
  "tcp_of p len bs = \<lparr>tcp_header = padd p (int (header_length bs)),
     tcp_size = of_nat (unat (be16_at bs 2) - header_length bs), tcp_ip = mkIp4 p len\<rparr>"

lemma mkTcp_of:
  assumes ld: "load_bytes h p n = Inr bs" and n: "20 \<le> header_length bs" "header_length bs \<le> n"
    and total: "header_length bs \<le> unat (be16_at bs 2)"
  shows "mkTcp h (mkIp4 p len) = Inr (tcp_of p len bs)" "unat (tcp_size (tcp_of p len bs)) = unat (be16_at bs 2) - header_length bs"
proof -
  let ?k = "unat (be16_at bs 2) - header_length bs"
  have le: "?k \<le> 65535" using unat_bound16[of "be16_at bs 2"] by simp
  then have k: "ucast (of_nat ?k :: u64) = (of_nat ?k :: u32)"
    by (simp add: word_unat_eq_iff unsigned_ucast_eq unat_of_nat take_bit_nat_eq_self del: of_nat_diff)
  show "unat (tcp_size (tcp_of p len bs)) = ?k"
    using le by (simp add: tcp_of_def unat_of_nat take_bit_nat_eq_self del: of_nat_diff)
  have "uint (be16_at bs 2) - uint (bs ! 0 AND 15) * 4 = int (unat (be16_at bs 2)) - int (header_length bs)"
    unfolding header_length_uint by (simp only: uint_nat)
  also have "\<dots> = int ?k" using total by simp
  finally have "word_of_int (uint (be16_at bs 2) - uint (bs ! 0 AND 15) * 4) = (of_nat ?k :: u64)" by (simp only: of_int_of_nat_eq)
  then show "mkTcp h (mkIp4 p len) = Inr (tcp_of p len bs)"
    using ip4_at(1,3)[OF ld, of len] n header_length_uint[of bs] k
    by (simp add: mkTcp_def ip4_payload_def tcp_of_def mkIp4_def del: of_nat_diff of_int_diff of_int_mult)
qed

lemma tcp_checksum_at:
  assumes ld: "load_bytes h p n = Inr bs" and n: "20 \<le> header_length bs" "header_length bs + 18 \<le> n" "n \<le> 65535"
    and ev: "even (n - header_length bs)"
    and t: "tcp_header t = padd p (int (header_length bs))" "tcp_size t = of_nat (n - header_length bs)" "tcp_ip t = mkIp4 p len"
  shows "\<exists>h' c. tcp_calculateChecksumInplace h t = Inr h'
    \<and> load_bytes h' p n = Inr (patch (header_length bs + 16) (bytes16 c) bs)
    \<and> tcp_valid (patch (header_length bs + 16) (bytes16 c) bs)"
proof -
  let ?m = "header_length bs"
  have len: "length bs = n" using ld by (rule load_bytes_length)
  have size: "unat (tcp_size t) = n - ?m" using n t(2) by (simp add: unat_of_nat del: of_nat_diff)
  have seg: "load_bytes h (tcp_header t) (unat (tcp_size t)) = Inr (drop ?m bs)"
    using load_bytes_sub[OF ld, of ?m "n - ?m"] n len size by (simp add: t(1) slice_def)
  have fits: "tcp_fits t" using n by (simp add: tcp_fits_def t(1,3) mkIp4_def disjoint_ranges_def)
  have ip: "ip4_sourceIP h (tcp_ip t) = Inr (be32_at bs 12)" "ip4_destIP h (tcp_ip t) = Inr (be32_at bs 16)"
    "ip4_protocol h (tcp_ip t) = Inr (bs ! 9)"
    using ip4_at(2,4,5)[OF ld, of len] n by (simp_all add: t(3))
  have bounds: "18 \<le> n - ?m" "n - ?m \<le> 65535" using n by linarith+
  obtain h' c where c: "tcp_calculateChecksumInplace h t = Inr h'" "store16 h (padd (tcp_header t) 16) c = Inr h'"
    "ones_sum (pseudo_sum (be32_at bs 12) (be32_at bs 16) (bs ! 9) (n - ?m) + words_total (patch 16 (bytes16 c) (drop ?m bs))) = 65535"
    using tcp_inplace_spec[OF ip fits seg, unfolded size, OF ev bounds] by blast
  have st: "store16 h (padd p (int (?m + 16))) c = Inr h'" using c(2) by (simp add: t(1))
  from half.st_patch[OF ld this] n have "load_bytes h' p n = Inr (patch (?m + 16) (bytes16 c) bs)" by simp
  moreover have "tcp_valid (patch (?m + 16) (bytes16 c) bs)"
    using c(3) patched_header[of bs "?m + 16" c] n len by (simp add: tcp_valid_def drop_patch_after)
  ultimately show ?thesis using c(1) by blast
qed

text \<open>What \<open>rewrite_tcp\<close> makes of the packet.\<close>

lemma rewrite_tcp_spec:
  assumes ld: "load_bytes (sv_heap s) p n = Inr bs" and n: "20 \<le> header_length bs" "header_length bs + 18 \<le> n"
    and total: "unat (be16_at bs 2) = n" and ev: "even (n - header_length bs)"
    and napt: "createIfNotExist (sv_tcpNapt s) cid (be16_at bs (header_length bs)) (be32_at bs 16)
      (be16_at bs (header_length bs + 2)) = Inr (t, Some c)" "c < length (conns t)"
  shows "\<exists>h' tck ck. rewrite_tcp s cid (mkIp4 p len) = Inr ((set_heap s h')\<lparr>sv_tcpNapt := t\<rparr>)
    \<and> load_bytes h' p n = Inr (patch 10 (bytes16 ck) (patch (header_length bs + 16) (bytes16 tck)
        (rewritten_tcp (clientPort (conns t ! c)) (sv_ifAddress s) bs)))
    \<and> ip_valid (patch 10 (bytes16 ck) (patch (header_length bs + 16) (bytes16 tck)
        (rewritten_tcp (clientPort (conns t ! c)) (sv_ifAddress s) bs)))
    \<and> tcp_valid (patch 10 (bytes16 ck) (patch (header_length bs + 16) (bytes16 tck)
        (rewritten_tcp (clientPort (conns t ! c)) (sv_ifAddress s) bs)))"
proof -
  let ?h = "sv_heap s" and ?ip = "mkIp4 p len" and ?m = "header_length bs" and ?x = "conns t ! c"
  let ?bs = "rewritten_tcp (clientPort ?x) (sv_ifAddress s) bs" and ?t = "tcp_of p len bs"
  have len: "length bs = n" using ld by (rule load_bytes_length)
  have n16: "n \<le> 65535" using total unat_bound16[of "be16_at bs 2"] by simp
  have u: "mkTcp ?h ?ip = Inr ?t" using ld n(1) by (rule mkTcp_of) (use n total in simp_all)
  have head: "tcp_header ?t = padd p (int ?m)" by (simp add: tcp_of_def)
  have ports: "tcp_sourcePort ?h ?t = Inr (be16_at bs ?m)" "tcp_destPort ?h ?t = Inr (be16_at bs (?m + 2))"
    using load_at(2)[OF ld, of ?m] load_at(2)[OF ld, of "?m + 2"] n
    by (simp_all add: tcp_sourcePort_def tcp_destPort_def head algebra_simps)
  obtain h1 where h1: "store16 ?h (padd p (int ?m)) (clientPort ?x) = Inr h1"
      "load_bytes h1 p n = Inr (patch ?m (bytes16 (clientPort ?x)) bs)"
    using store16_at[OF ld, of ?m] n by auto
  obtain h2 where h2: "store32 h1 (padd p (int 12)) (sv_ifAddress s) = Inr h2" "load_bytes h2 p n = Inr ?bs"
    using store32_at[OF h1(2), of 12] n by (auto simp: rewritten_tcp_def)
  note r = rewritten_tcp_header[OF n(1) n(2)[folded len], of "clientPort ?x" "sv_ifAddress s"]
  obtain h3 tck where h3: "tcp_calculateChecksumInplace h2 ?t = Inr h3"
      "load_bytes h3 p n = Inr (patch (?m + 16) (bytes16 tck) ?bs)" "tcp_valid (patch (?m + 16) (bytes16 tck) ?bs)"
    using tcp_checksum_at[OF h2(2), of ?t len] n n16 ev r(1) len total by (auto simp: tcp_of_def)
  let ?b3 = "patch (?m + 16) (bytes16 tck) ?bs"
  have m3: "header_length ?b3 = ?m" "length ?b3 = n"
    using patched_header(1,2)[of ?bs "?m + 16" tck] n len r(1,2) by simp_all
  obtain h4 ck where h4: "ip4_calculateChecksumInplace h3 ?ip = Inr h4" "load_bytes h4 p n = Inr (patch 10 (bytes16 ck) ?b3)"
      "ones_sum (words_total (take ?m (patch 10 (bytes16 ck) ?b3))) = 65535"
    using checksum_at[OF h3(2), of len] m3(1) n by auto
  have v: "ip_valid (patch 10 (bytes16 ck) ?b3)"
    using h4(3) patched_header(1)[of ?b3 10 ck] n m3 by (simp add: ip_valid_def)
  have w: "tcp_valid (patch 10 (bytes16 ck) ?b3)" using h3(3) tcp_valid_ip_patch[of ?b3 ck] n m3 by simp
  have "rewrite_tcp s cid ?ip = Inr ((set_heap s h4)\<lparr>sv_tcpNapt := t\<rparr>)"
    using u ports h1(1) h2(1) h3(1) h4(1) napt ip4_at(5)[OF ld, of len] n
    by (simp add: rewrite_tcp_def Let_def deref_conn_def tcp_set_sourcePort_def ip4_set_sourceIP_def head mkIp4_def)
  with h4(2) v w show ?thesis by blast
qed

section \<open>From a client to the raw socket\<close>

lemma tcp_forwarded:
  assumes cid: "load16 (sv_heap s) (b_data b) = Inr cid" and n: "n = unat (b_size b - 2)"
    and enc: "load_bytes (sv_heap s) (padd (b_data b) 2) n = Inr enc"
    and session: "unat cid < length (sv_sessions s)" "s_endpoint (sv_sessions s ! unat cid) = sv_receiveEp s"
      "isConnected (sv_sessions s ! unat cid)" "usable lib (s_cryptor (sv_sessions s ! unat cid))"
    and sum: "ip4_calculateChecksum (sv_heap s) (mkIp4 (padd (b_data b) 2) (b_size b - 2)) = Inr w"
      "ip4_checksum (sv_heap s) (mkIp4 (padd (b_data b) 2) (b_size b - 2)) = Inr w"
    and bs: "bs = unseal lib (s_cryptor (sv_sessions s ! unat cid)) enc"
    and packet: "bs ! 9 = TCP" "20 \<le> header_length bs" "header_length bs + 18 \<le> n"
      "unat (be16_at bs 2) = n" "even (n - header_length bs)"
    and napt: "createIfNotExist (sv_tcpNapt s) cid (be16_at bs (header_length bs)) (be32_at bs 16)
      (be16_at bs (header_length bs + 2)) = Inr (t, Some c)" "c < length (conns t)"
  shows "\<exists>s' tck ck pk. processTransmit lib s b = Inr s' \<and> sv_tcpNapt s' = t
    \<and> pk = patch 10 (bytes16 ck) (patch (header_length bs + 16) (bytes16 tck)
        (rewritten_tcp (clientPort (conns t ! c)) (sv_ifAddress s) bs))
    \<and> sv_raw s' = sv_raw s @ [pk] \<and> ip_valid pk \<and> tcp_valid pk
    \<and> sv_sessions s' = (sv_sessions s)[unat cid := updateTransmit (sv_now s) (sv_sessions s ! unat cid) (b_size b + 1)]"
proof -
  let ?ss = "sv_sessions s ! unat cid" and ?p = "padd (b_data b) 2" and ?ip = "mkIp4 (padd (b_data b) 2) (b_size b - 2)"
  obtain h where h: "decrypt lib (sv_heap s) (s_cryptor ?ss) ?p (b_size b - 2) = Inr (h, s_cryptor ?ss)"
    "load_bytes h ?p n = Inr bs"
    using decrypt_usable[OF session(4), of "sv_heap s" ?p "b_size b - 2" enc] enc bs n by auto
  let ?s1 = "(set_heap s h)\<lparr>sv_sessions := (sv_sessions s)[unat cid := updateTransmit (sv_now s) ?ss (b_size b + 1)]\<rparr>"
  have napt1: "createIfNotExist (sv_tcpNapt ?s1) cid (be16_at bs (header_length bs)) (be32_at bs 16)
      (be16_at bs (header_length bs + 2)) = Inr (t, Some c)" and ld1: "load_bytes (sv_heap ?s1) ?p n = Inr bs"
    and addr: "sv_ifAddress ?s1 = sv_ifAddress s"
    using napt(1) h(2) by simp_all
  obtain h' tck ck pk where r: "rewrite_tcp ?s1 cid ?ip = Inr ((set_heap ?s1 h')\<lparr>sv_tcpNapt := t\<rparr>)"
    "load_bytes h' ?p n = Inr pk" "ip_valid pk" "tcp_valid pk"
    "pk = patch 10 (bytes16 ck) (patch (header_length bs + 16) (bytes16 tck)
        (rewritten_tcp (clientPort (conns t ! c)) (sv_ifAddress s) bs))"
    using rewrite_tcp_spec[OF ld1 packet(2-5) napt1 napt(2), of "b_size b - 2"] unfolding addr by blast
  have proto: "ip4_protocol h ?ip = Inr TCP" using ip4_at(2)[OF h(2)] packet by simp
  have allowed: "transmit_allowed s cid ?ip = Inr True"
    using session sum by (simp add: transmit_allowed_True)
  have "processTransmit lib s b = Inr (((set_heap ?s1 h')\<lparr>sv_tcpNapt := t\<rparr>)\<lparr>sv_raw := sv_raw s @ [pk]\<rparr>)"
    using cid allowed h(1) proto r(1,2) n by (simp add: processTransmit_def Let_def)
  with r(3-5) show ?thesis by auto
qed

text \<open>
  C3. The way of a TCP packet. The encrypted packet of a datagram of a connected session, from its
  endpoint, that decrypts to a TCP packet of its whole length, with a segment of even length, is
  forwarded only if its header checksum is right by chance as it arrives, still encrypted;
  otherwise nothing happens at all. If it is right, the decrypted packet is forwarded with the
  server's address as its source and the client port of its connection in the table as its
  source port. Both its checksums are valid for the receiver; nothing else of it changes.
\<close>

theorem tcp_packet_forwarded:
  assumes cid: "load16 (sv_heap s) (b_data b) = Inr cid" and n: "n = unat (b_size b - 2)"
    and enc: "load_bytes (sv_heap s) (padd (b_data b) 2) n = Inr enc"
    and session: "unat cid < length (sv_sessions s)" "s_endpoint (sv_sessions s ! unat cid) = sv_receiveEp s"
      "isConnected (sv_sessions s ! unat cid)" "usable lib (s_cryptor (sv_sessions s ! unat cid))"
    and sum: "ip4_calculateChecksum (sv_heap s) (mkIp4 (padd (b_data b) 2) (b_size b - 2)) = Inr w"
      "ip4_checksum (sv_heap s) (mkIp4 (padd (b_data b) 2) (b_size b - 2)) = Inr w'"
    and bs: "bs = unseal lib (s_cryptor (sv_sessions s ! unat cid)) enc"
    and packet: "bs ! 9 = TCP" "20 \<le> header_length bs" "header_length bs + 18 \<le> n"
      "unat (be16_at bs 2) = n" "even (n - header_length bs)"
    and napt: "createIfNotExist (sv_tcpNapt s) cid (be16_at bs (header_length bs)) (be32_at bs 16)
      (be16_at bs (header_length bs + 2)) = Inr (t, Some c)" "c < length (conns t)"
  shows "if w \<noteq> w' then processTransmit lib s b = Inr s
    else (\<exists>s' tck ck pk. processTransmit lib s b = Inr s' \<and> sv_tcpNapt s' = t
      \<and> pk = patch 10 (bytes16 ck) (patch (header_length bs + 16) (bytes16 tck)
          (rewritten_tcp (clientPort (conns t ! c)) (sv_ifAddress s) bs))
      \<and> sv_raw s' = sv_raw s @ [pk] \<and> ip_valid pk \<and> tcp_valid pk
      \<and> sv_sessions s' = (sv_sessions s)[unat cid := updateTransmit (sv_now s) (sv_sessions s ! unat cid) (b_size b + 1)])"
proof (cases "w = w'")
  case True
  with tcp_forwarded[OF cid n enc session sum(1) _ bs packet napt] sum(2) show ?thesis by simp
qed (use encrypted_checksum_wrong[OF cid session(1-3) sum] in simp)

text \<open>
  A segment whose length, as the IP header has it, reaches out of the memory it is in: its
  checksum cannot be computed.
\<close>

lemma decrypt_bounds: "decrypt lib h c p len = Inr (h', c') \<Longrightarrow> in_bounds h' q m = in_bounds h q m"
  by (auto simp: decrypt_def decryptTo_def res_iffs split_beta in_bounds_store split: option.splits)

lemma checksum_overreads:
  assumes "ip4_sourceIP h (tcp_ip t) = Inr src" "ip4_destIP h (tcp_ip t) = Inr dst" "ip4_protocol h (tcp_ip t) = Inr pr"
    and n: "unat (tcp_size t) = Suc n" "18 \<le> n" and out: "\<not> in_bounds h (padd (tcp_header t) (int n)) 1"
  shows "tcp_calculateChecksumInplace h t = Inl OutOfBounds"
proof -
  have "sum_words h (tcp_header t) 16 (Suc n) 0 acc = Inl OutOfBounds" for acc
  proof (cases "sum_words h (tcp_header t) 16 (Suc n) 0 acc")
    case (Inl e)
    then show ?thesis using sum_words_fault by simp
  next
    case (Inr x)
    from sum_words_reads[OF this, of n] n(2) out show ?thesis by simp
  qed
  then show ?thesis using assms(1-3) n(1) by (simp add: tcp_calculateChecksumInplace_def tcp_calculateChecksum_def)
qed

lemma tcp_overreads:
  assumes cid: "load16 (sv_heap s) (b_data b) = Inr cid" and n: "n = unat (b_size b - 2)"
    and enc: "load_bytes (sv_heap s) (padd (b_data b) 2) n = Inr enc"
    and session: "unat cid < length (sv_sessions s)" "s_endpoint (sv_sessions s ! unat cid) = sv_receiveEp s"
      "isConnected (sv_sessions s ! unat cid)" "usable lib (s_cryptor (sv_sessions s ! unat cid))"
    and sum: "ip4_calculateChecksum (sv_heap s) (mkIp4 (padd (b_data b) 2) (b_size b - 2)) = Inr w"
      "ip4_checksum (sv_heap s) (mkIp4 (padd (b_data b) 2) (b_size b - 2)) = Inr w"
    and bs: "bs = unseal lib (s_cryptor (sv_sessions s ! unat cid)) enc"
    and packet: "bs ! 9 = TCP" "20 \<le> header_length bs" "header_length bs + 18 \<le> n"
      "header_length bs + 18 < unat (be16_at bs 2)"
    and napt: "createIfNotExist (sv_tcpNapt s) cid (be16_at bs (header_length bs)) (be32_at bs 16)
      (be16_at bs (header_length bs + 2)) = Inr (t, Some c)" "c < length (conns t)"
    and out: "\<not> in_bounds (sv_heap s) (padd (b_data b) (1 + int (unat (be16_at bs 2)))) 1"
  shows "processTransmit lib s b = Inl OutOfBounds"
proof -
  let ?ss = "sv_sessions s ! unat cid" and ?p = "padd (b_data b) 2" and ?ip = "mkIp4 (padd (b_data b) 2) (b_size b - 2)"
  let ?m = "header_length bs" and ?k = "unat (be16_at bs 2) - header_length bs" and ?x = "conns t ! c"
  obtain h where h: "decrypt lib (sv_heap s) (s_cryptor ?ss) ?p (b_size b - 2) = Inr (h, s_cryptor ?ss)"
    "load_bytes h ?p n = Inr bs"
    using decrypt_usable[OF session(4), of "sv_heap s" ?p "b_size b - 2" enc] enc bs n by auto
  let ?s1 = "(set_heap s h)\<lparr>sv_sessions := (sv_sessions s)[unat cid := updateTransmit (sv_now s) ?ss (b_size b + 1)]\<rparr>"
  let ?t = "tcp_of ?p (b_size b - 2) bs"
  have "?m \<le> n" "?m \<le> unat (be16_at bs 2)" using packet(3,4) by simp_all
  note view = mkTcp_of[OF h(2) packet(2) this, of "b_size b - 2"]
  have head: "tcp_header ?t = padd ?p (int ?m)" "tcp_ip ?t = ?ip" by (simp_all add: tcp_of_def)
  have ports: "tcp_sourcePort h ?t = Inr (be16_at bs ?m)" "tcp_destPort h ?t = Inr (be16_at bs (?m + 2))"
    using load_at(2)[OF h(2), of ?m] load_at(2)[OF h(2), of "?m + 2"] packet
    by (simp_all add: tcp_sourcePort_def tcp_destPort_def head algebra_simps)
  obtain h1 where h1: "store16 h (padd ?p (int ?m)) (clientPort ?x) = Inr h1"
      "load_bytes h1 ?p n = Inr (patch ?m (bytes16 (clientPort ?x)) bs)"
    using store16_at[OF h(2), of ?m] packet by auto
  obtain h2 bs2 where h2: "store32 h1 (padd ?p (int 12)) (sv_ifAddress s) = Inr h2" "load_bytes h2 ?p n = Inr bs2"
    using store32_at[OF h1(2), of 12 "sv_ifAddress s"] packet by fastforce
  have same: "in_bounds h2 q l = in_bounds (sv_heap s) q l" for q l
    using decrypt_bounds[OF h(1)] half.in_bounds_st[OF h1(1)] full.in_bounds_st[OF h2(1)] by simp
  have "unat (tcp_size ?t) = Suc (?k - 1)" "18 \<le> ?k - 1" using view(2) packet(4) by simp_all
  moreover have "\<not> in_bounds h2 (padd (tcp_header ?t) (int (?k - 1))) 1"
    using out packet(4) by (simp add: same head of_nat_diff algebra_simps)
  moreover have "ip4_sourceIP h2 (tcp_ip ?t) = Inr (be32_at bs2 12)" "ip4_destIP h2 (tcp_ip ?t) = Inr (be32_at bs2 16)"
    "ip4_protocol h2 (tcp_ip ?t) = Inr (bs2 ! 9)"
    using ip4_at(2,4,5)[OF h2(2), of "b_size b - 2"] packet by (simp_all add: head)
  ultimately have fault: "tcp_calculateChecksumInplace h2 ?t = Inl OutOfBounds"
    by (intro checksum_overreads)
  have proto: "ip4_protocol h ?ip = Inr TCP" "ip4_destIP h ?ip = Inr (be32_at bs 16)"
    using ip4_at(2,5)[OF h(2)] packet by simp_all
  have "rewrite_tcp ?s1 cid ?ip = Inl OutOfBounds"
    using view(1) ports h1(1) h2(1) fault napt proto
    by (simp add: rewrite_tcp_def Let_def deref_conn_def tcp_set_sourcePort_def ip4_set_sourceIP_def head mkIp4_def)
  moreover have "transmit_allowed s cid ?ip = Inr True"
    using session sum by (simp add: transmit_allowed_True)
  ultimately show ?thesis using cid h(1) proto(1) by (simp add: processTransmit_def Let_def)
qed

text \<open>
  C5. The length a client claims. The TCP checksum is computed over the total length of the IP
  header, which is compared with nothing. A datagram of a connected session that decrypts to a
  TCP packet that claims to be longer than it is, by so much that its last byte lies outside the
  memory the buffer is in, is dropped if the header checksum of the encrypted packet is
  wrong; if it is right by chance, handling it reads outside that memory.
\<close>

theorem tcp_false_length_overreads:
  assumes cid: "load16 (sv_heap s) (b_data b) = Inr cid" and n: "n = unat (b_size b - 2)"
    and enc: "load_bytes (sv_heap s) (padd (b_data b) 2) n = Inr enc"
    and session: "unat cid < length (sv_sessions s)" "s_endpoint (sv_sessions s ! unat cid) = sv_receiveEp s"
      "isConnected (sv_sessions s ! unat cid)" "usable lib (s_cryptor (sv_sessions s ! unat cid))"
    and sum: "ip4_calculateChecksum (sv_heap s) (mkIp4 (padd (b_data b) 2) (b_size b - 2)) = Inr w"
      "ip4_checksum (sv_heap s) (mkIp4 (padd (b_data b) 2) (b_size b - 2)) = Inr w'"
    and bs: "bs = unseal lib (s_cryptor (sv_sessions s ! unat cid)) enc"
    and packet: "bs ! 9 = TCP" "20 \<le> header_length bs" "header_length bs + 18 \<le> n"
      "header_length bs + 18 < unat (be16_at bs 2)"
    and napt: "createIfNotExist (sv_tcpNapt s) cid (be16_at bs (header_length bs)) (be32_at bs 16)
      (be16_at bs (header_length bs + 2)) = Inr (t, Some c)" "c < length (conns t)"
    and out: "\<not> in_bounds (sv_heap s) (padd (b_data b) (1 + int (unat (be16_at bs 2)))) 1"
  shows "processTransmit lib s b = (if w = w' then Inl OutOfBounds else Inr s)"
proof (cases "w = w'")
  case True
  with tcp_overreads[OF cid n enc session sum(1) _ bs packet napt out] sum(2) show ?thesis by simp
qed (use encrypted_checksum_wrong[OF cid session(1-3) sum] in simp)

section \<open>From the raw socket to a client\<close>

lemma ones_sum_full: "ones_sum n = 65535 \<longleftrightarrow> 0 < n \<and> 65535 dvd n"
  by (cases n) (simp_all add: ones_sum_def mod_Suc dvd_eq_mod_eq_0)

lemma words_total_port:
  assumes "4 \<le> length seg"
  shows "words_total (patch 2 (bytes16 q) seg) = words_sum 2 0 seg + unat q"
    "words_total seg = words_sum 2 0 seg + unat (be16_at seg 2)"
proof -
  show p: "words_total (patch 2 (bytes16 q) seg) = words_sum 2 0 seg + unat q" for q
    using words_total_patch16[of 2 seg q] assms by simp
  obtain a b c d rest where seg: "seg = a # b # c # d # rest"
    using assms by (auto simp: neq_Nil_conv Suc_le_length_iff eval_nat_numeral)
  then show "words_total seg = words_sum 2 0 seg + unat (be16_at seg 2)"
    by (simp add: words_sum_past be16_at_def unat_be16)
qed

lemma same_residue: "k dvd x + a \<Longrightarrow> k dvd x + b \<longleftrightarrow> b mod k = a mod k" for x :: nat
proof -
  assume "k dvd x + a"
  then have a: "int k dvd int x + int a" by (metis int_dvd_int_iff of_nat_add)
  have "k dvd x + b \<longleftrightarrow> int k dvd int x + int b" by (metis int_dvd_int_iff of_nat_add)
  also have "\<dots> \<longleftrightarrow> int k dvd (int x + int a) + (int b - int a)" by (simp add: algebra_simps)
  also have "\<dots> \<longleftrightarrow> int k dvd int b - int a" using a by (rule dvd_add_right_iff)
  also have "\<dots> \<longleftrightarrow> int (b mod k) = int (a mod k)" by (simp only: mod_eq_dvd_iff[symmetric] of_nat_mod)
  finally show ?thesis by simp
qed

lemma answer_valid:
  assumes "tcp_valid bs" "20 \<le> header_length bs" "header_length bs + 8 \<le> length bs"
  shows "tcp_valid (answer_packet q bs) \<longleftrightarrow> unat q mod 65535 = unat (be16_at bs (header_length bs + 2)) mod 65535"
proof -
  let ?m = "header_length bs" and ?pk = "answer_packet q bs"
  let ?x = "pseudo_sum (be32_at bs 12) (be32_at bs 16) (bs ! 9) (length bs - ?m) + words_sum 2 0 (drop ?m bs)"
  let ?old = "unat (be16_at bs (?m + 2))"
  have "?pk ! k = bs ! k" if "k < 20" for k
    using that assms(2,3) by (simp add: answer_packet_def nth_patch)
  then have head: "header_length ?pk = ?m" "?pk ! 9 = bs ! 9" "be32_at ?pk 12 = be32_at bs 12" "be32_at ?pk 16 = be32_at bs 16"
    "length ?pk = length bs"
    using assms(3) by (simp_all add: header_length_def be32_at_def answer_packet_def)
  have seg: "drop ?m ?pk = patch 2 (bytes16 q) (drop ?m bs)"
    using assms(3) by (simp add: answer_packet_def drop_patch_after)
  have "be16_at (drop ?m bs) 2 = be16_at bs (?m + 2)"
    using assms(3) by (simp add: be16_at_def numeral_3_eq_3)
  note total = words_total_port[of "drop ?m bs", unfolded this]
  have four: "4 \<le> length (drop ?m bs)" using assms(3) by simp
  have old: "65535 dvd ?x + ?old" using assms(1) unfolding tcp_valid_def ones_sum_full total(2)[OF four] add.assoc by simp
  have "0 < ?x" using assms(3) by (simp add: pseudo_sum_def)
  then have pos: "0 < ?x + unat q" by (rule trans_less_add1)
  have "tcp_valid ?pk \<longleftrightarrow> ones_sum (?x + unat q) = 65535"
    unfolding tcp_valid_def head seg total(1)[OF four] add.assoc ..
  also have "\<dots> \<longleftrightarrow> 65535 dvd ?x + unat q" using pos by (simp only: ones_sum_full simp_thms)
  also have "\<dots> \<longleftrightarrow> unat q mod 65535 = ?old mod 65535"
    by (rule same_residue[OF old])
  finally show ?thesis .
qed

text \<open>
  C4. A TCP answer is damaged on its way. A packet from the raw socket with a valid TCP checksum
  that belongs to a connection of a connected session is sent to the client with the client's
  port as its destination, but with the checksum it came with. What the client gets has a
  valid checksum only if its port and the local port of the connection are the same in ones'
  complement, which are all ports that are equal, and 0 and 65535.
\<close>

theorem tcp_answer_checksum:
  assumes ld: "load_bytes (sv_heap s) p (length bs) = Inr bs" and len: "length bs = unat len"
    and bs: "fits bs" "bs ! 9 = TCP" "tcp_valid bs"
    and conn: "answer_connection s bs = Some c" and x: "x = conns (sv_tcpNapt s) ! c"
    and session: "isConnected (sv_sessions s ! unat (clientID x))"
    and ok: "routes_ok lib s" and own: "pool_owns 1600 (sv_heap s, sv_pool s) out"
    and apart: "blk p \<notin> blk ` set (memoryChunks (sv_pool s))"
  shows "\<exists>s' pk. rawSocketPacketHandler lib s p len = Inr s'
    \<and> sv_out s' = sv_out s @ [(s_endpoint (sv_sessions s ! unat (clientID x)),
        TRANSMIT # seal lib (s_cryptor (sv_sessions s ! unat (clientID x))) pk)]
    \<and> be16_at pk (header_length bs + 2) = clientPort x
    \<and> (tcp_valid pk \<longleftrightarrow> unat (clientPort x) mod 65535 = unat (localPort x) mod 65535)"
proof -
  have n: "20 \<le> header_length bs" "header_length bs + 8 \<le> length bs" using bs(1,2) by (simp_all add: fits_def)
  obtain s' where s': "rawSocketPacketHandler lib s p len = Inr s'" "sv_out s' = sv_out s @ answer_of lib s bs"
    using answer_step[OF ld len bs(1) ok own apart] n by auto
  have table: "answer_table s bs = sv_tcpNapt s" using bs(2) by (simp add: answer_table_def)
  have "napt_wf (sv_tcpNapt s)" using ok by (simp add: routes_ok_def)
  then have lp: "localPort x = be16_at bs (header_length bs + 2)"
    using conn x table by (force simp: answer_connection_def find_server_def napt_wf_def server_key_of_def)
  have "be16_at (answer_packet (clientPort x) bs) (header_length bs + 2) = clientPort x"
    using n by (simp add: answer_packet_def be16_at_def nth_patch) (simp add: bytes16_def)
  then show ?thesis
    using s' conn session answer_valid[OF bs(3) n, of "clientPort x"] bs(2)
    by (intro exI[of _ s'] exI[of _ "answer_packet (clientPort x) bs"])
      (simp add: answer_of_def table x[symmetric] lp Let_def)
qed

section \<open>Instances\<close>

text \<open>
  A TCP header from port 443 of 112.17.56.53 that comes back to local port 1000, with the
  checksums it needs.
\<close>

definition tcp_in :: bytes where
  "tcp_in =
     [0x45, 0x00, 0x00, 0x28, 0xb9, 0xec, 0x40, 0x00, 0x37, 0x06, 0x1f, 0xef, 0x70, 0x11, 0x38, 0x35, 0xc0, 0xa8, 0x01, 0x06,
      0x01, 0xbb, 0x03, 0xe8, 0x06, 0xf4, 0x88, 0x28, 0x29, 0xa6, 0x2f, 0xc6, 0x50, 0x10, 0x0a, 0x5f, 0x4d, 0x55, 0x00, 0x00]"

lemma tcp_samples:
  "length tcp_in = 40" "header_length tcp_in = 20" "tcp_in ! 9 = TCP" "be16_at tcp_in 20 = 443" "be16_at tcp_in 22 = 1000"
  "be32_at tcp_in 12 = be32 0x70 0x11 0x38 0x35"
  by (simp_all add: header_length_def be16_at_def be32_at_def be16_def tcp_in_def TCP_def)

lemma tcp_in_valid: "tcp_valid tcp_in" "fits tcp_in"
  by (simp_all add: fits_def tcp_samples)
    (simp add: tcp_valid_def tcp_in_def header_length_def be32_at_def be32_def pseudo_sum_def address_sum_def ones_sum_def)

text \<open>
  TCP headers to that server as the cipher with feedback makes them: \<open>tcp_plain\<close> of a packet of 40
  bytes, \<open>claim_plain\<close> of one that claims to have 1500. Their own checksums have been chosen so
  that those of the encrypted packets are right.
\<close>

definition tcp_plain :: bytes where
  "tcp_plain =
     [0x45, 0x00, 0x00, 0x28, 0x00, 0x00, 0x40, 0x00, 0x40, 0x06, 0x84, 0x65, 0xc0, 0xa8, 0x01, 0x06, 0x70, 0x11, 0x38, 0x35,
      0xf2, 0x64, 0x01, 0xbb, 0x06, 0xf4, 0x88, 0x28, 0x29, 0xa6, 0x2f, 0xc6, 0x50, 0x10, 0x0a, 0x5f, 0x5e, 0xd8, 0x00, 0x00]"

definition tcp_sealed :: bytes where
  "tcp_sealed =
     [0x47, 0x48, 0x49, 0x62, 0x63, 0x64, 0x25, 0x26, 0x67, 0x6e, 0xeb, 0x89, 0x4a, 0xe3, 0xe5, 0xe0, 0x91, 0x83, 0xbc, 0x88,
      0x7b, 0x18, 0x18, 0xa2, 0xa5, 0x52, 0xdb, 0xf4, 0xdc, 0x7b, 0x53, 0x92, 0xc3, 0xd4, 0xdf, 0xbf, 0x9e, 0x47, 0x48, 0x49]"

definition claim_plain :: bytes where
  "claim_plain =
     [0x45, 0x00, 0x05, 0xdc, 0xb9, 0xec, 0x40, 0x00, 0x40, 0x06, 0xaa, 0x2d, 0xc0, 0xa8, 0x01, 0x06, 0x70, 0x11, 0x38, 0x35,
      0xf2, 0x64, 0x01, 0xbb, 0x06, 0xf4, 0x88, 0x28, 0x29, 0xa6, 0x2f, 0xc6, 0x50, 0x10, 0x0a, 0x5f, 0x5e, 0xd8, 0x00, 0x00]"

definition claim_sealed :: bytes where
  "claim_sealed =
     [0x47, 0x48, 0x4c, 0x91, 0x2b, 0xc0, 0x81, 0x82, 0xc3, 0xc2, 0x69, 0x47, 0x88, 0x21, 0x23, 0x22, 0x53, 0x45, 0x7e, 0x4a,
      0xb9, 0xde, 0xde, 0x64, 0x63, 0x90, 0x19, 0x32, 0x1a, 0xbd, 0x91, 0x54, 0x05, 0x16, 0x1d, 0x41, 0x1c, 0xc5, 0xc6, 0xc7]"

lemma tcp_sealed_simps:
  "unseal feedback_lib demo_cryptor tcp_sealed = tcp_plain" "length tcp_sealed = 40" "header_length tcp_sealed = 28"
  "be16_at tcp_sealed 10 = 60297" "65535 - ones_sum (words_sum 10 0 (take 28 tcp_sealed)) = 60297"
  "header_length tcp_plain = 20" "tcp_plain ! 9 = TCP" "be16_at tcp_plain 2 = 40" "be16_at tcp_plain 20 = 62052"
  "be16_at tcp_plain 22 = 443" "be32_at tcp_plain 16 = be32 0x70 0x11 0x38 0x35"
  by (simp_all add: tcp_sealed_def tcp_plain_def unseal_def feedback_lib_def feedback_cipher_def demo_cryptor_def
      header_length_def be16_at_def be32_at_def be16_def ones_sum_def TCP_def)

lemma claim_sealed_simps:
  "unseal feedback_lib demo_cryptor claim_sealed = claim_plain" "length claim_sealed = 40" "header_length claim_sealed = 28"
  "be16_at claim_sealed 10 = 26951" "65535 - ones_sum (words_sum 10 0 (take 28 claim_sealed)) = 26951"
  "header_length claim_plain = 20" "claim_plain ! 9 = TCP" "be16_at claim_plain 2 = 1500" "be16_at claim_plain 20 = 62052"
  "be16_at claim_plain 22 = 443" "be32_at claim_plain 16 = be32 0x70 0x11 0x38 0x35"
  by (simp_all add: claim_sealed_def claim_plain_def unseal_def feedback_lib_def feedback_cipher_def demo_cryptor_def
      header_length_def be16_at_def be32_at_def be16_def ones_sum_def TCP_def)

text \<open>The table after the packets of the samples.\<close>

definition tcp_table :: "u32 napt" where
  "tcp_table = add_conn (newNapt 1000 1002) 0 62052 (be32 0x70 0x11 0x38 0x35) 443 1000"

lemma tcp_table_created:
  "createIfNotExist (newNapt 1000 1002) 0 62052 (be32 0x70 0x11 0x38 0x35) 443 = Inr (tcp_table, Some 0)"
  "0 < length (conns tcp_table)"
  unfolding tcp_table_def by (rule fresh_create; simp) (simp add: add_conn_def Let_def)

theorem tcp_packet_forwarded_witness:
  "\<exists>s' pk. processTransmit feedback_lib (keyed_server demo_cryptor ([0, 0] @ tcp_sealed) (newNapt 1000 1002)) (keyed_buffer 40) = Inr s'
    \<and> sv_raw s' = [pk] \<and> ip_valid pk \<and> tcp_valid pk \<and> sv_tcpNapt s' = tcp_table"
proof -
  let ?s = "keyed_server demo_cryptor ([0, 0] @ tcp_sealed) (newNapt 1000 1002)"
  note ld = keyed_datagram[OF tcp_sealed_simps(2), of demo_cryptor "newNapt 1000 1002"]
  have n: "40 = unat (b_size (keyed_buffer 40) - 2)" by (simp add: keyed_buffer_def)
  have m: "20 \<le> (40 :: nat)" "header_length tcp_sealed \<le> 40" "28 = header_length tcp_sealed" by (simp_all add: tcp_sealed_simps)
  note sum = checksum_here[OF ld(2) m, unfolded tcp_sealed_simps]
  have packet: "tcp_plain ! 9 = TCP" "20 \<le> header_length tcp_plain" "header_length tcp_plain + 18 \<le> 40"
    "unat (be16_at tcp_plain 2) = 40" "even (40 - header_length tcp_plain)"
    by (simp_all add: tcp_sealed_simps)
  have napt: "createIfNotExist (sv_tcpNapt ?s) 0 (be16_at tcp_plain (header_length tcp_plain)) (be32_at tcp_plain 16)
      (be16_at tcp_plain (header_length tcp_plain + 2)) = Inr (tcp_table, Some 0)"
    by (simp add: tcp_sealed_simps keyed_memory tcp_table_created)
  have plain: "tcp_plain = unseal feedback_lib (s_cryptor (sv_sessions ?s ! unat (0 :: u16))) tcp_sealed"
    by (simp add: keyed_memory keyed_session_def tcp_sealed_simps)
  from tcp_packet_forwarded[OF ld(1) n ld(2) keyed_connected[OF keyed_usable] sum plain packet napt tcp_table_created(2)]
  show ?thesis by (auto simp: keyed_memory)
qed

theorem tcp_false_length_overreads_witness:
  "processTransmit feedback_lib (keyed_server demo_cryptor ([0, 0] @ claim_sealed) (newNapt 1000 1002)) (keyed_buffer 40)
    = Inl OutOfBounds"
proof -
  let ?s = "keyed_server demo_cryptor ([0, 0] @ claim_sealed) (newNapt 1000 1002)"
  note ld = keyed_datagram[OF claim_sealed_simps(2), of demo_cryptor "newNapt 1000 1002"]
  have n: "40 = unat (b_size (keyed_buffer 40) - 2)" by (simp add: keyed_buffer_def)
  have m: "20 \<le> (40 :: nat)" "header_length claim_sealed \<le> 40" "28 = header_length claim_sealed" by (simp_all add: claim_sealed_simps)
  note sum = checksum_here[OF ld(2) m, unfolded claim_sealed_simps]
  have packet: "claim_plain ! 9 = TCP" "20 \<le> header_length claim_plain" "header_length claim_plain + 18 \<le> 40"
    "header_length claim_plain + 18 < unat (be16_at claim_plain 2)"
    by (simp_all add: claim_sealed_simps)
  have napt: "createIfNotExist (sv_tcpNapt ?s) 0 (be16_at claim_plain (header_length claim_plain)) (be32_at claim_plain 16)
      (be16_at claim_plain (header_length claim_plain + 2)) = Inr (tcp_table, Some 0)"
    by (simp add: claim_sealed_simps keyed_memory tcp_table_created)
  have plain: "claim_plain = unseal feedback_lib (s_cryptor (sv_sessions ?s ! unat (0 :: u16))) claim_sealed"
    by (simp add: keyed_memory keyed_session_def claim_sealed_simps)
  have out: "\<not> in_bounds (sv_heap ?s) (padd (b_data (keyed_buffer 40)) (1 + int (unat (be16_at claim_plain 2)))) 1"
    by (simp add: keyed_memory keyed_buffer_def in_bounds_def claim_sealed_simps)
  from tcp_false_length_overreads[OF ld(1) n ld(2) keyed_connected[OF keyed_usable] sum plain packet napt tcp_table_created(2) out]
  show ?thesis by simp
qed

definition tcp_route :: "(nat, unit, unit, nat) server" where
  "tcp_route = (route_server tcp_in (newNapt 1000 1002))
     \<lparr>sv_tcpNapt := tcp_table\<rparr>"

lemma tcp_route_simps:
  "sv_heap tcp_route = sv_heap (route_server tcp_in (newNapt 1000 1002))" "sv_pool tcp_route = newPool 2"
  "sv_sessions tcp_route = [route_session]" "sv_udpNapt tcp_route = newNapt 1000 1002" "sv_out tcp_route = []"
  "sv_tcpNapt tcp_route = add_conn (newNapt 1000 1002) 0 62052 (be32 0x70 0x11 0x38 0x35) 443 1000"
  using route_memory(2)[of tcp_in "newNapt 1000 1002"]
  by (simp_all add: tcp_route_def tcp_table_def sv_heap_def sv_pool_def route_memory)

theorem tcp_answer_checksum_witness:
  "\<exists>s' pk. rawSocketPacketHandler plain_lib tcp_route (Ptr 0 0) 40 = Inr s'
    \<and> sv_out s' = [(5, TRANSMIT # pk)] \<and> \<not> tcp_valid pk"
proof -
  let ?x = "conns (sv_tcpNapt tcp_route) ! 0"
  have ld: "load_bytes (sv_heap tcp_route) (Ptr 0 0) (length tcp_in) = Inr tcp_in"
    unfolding tcp_route_simps by (rule route_load) simp
  have len: "length tcp_in = unat (40 :: u32)" by (simp add: tcp_samples)
  have x: "?x = \<lparr>serverIP = be32 0x70 0x11 0x38 0x35, serverPort = 443, clientID = 0, clientPort = 62052, localPort = 1000\<rparr>"
    by (simp add: tcp_route_simps add_conn_def newNapt_def Let_def)
  have conn: "answer_connection tcp_route tcp_in = Some 0"
    using add_conn_finds(1)[of "newNapt 1000 1002" 0 62052 "be32 0x70 0x11 0x38 0x35" 443 1000]
    by (simp add: answer_connection_def answer_table_def tcp_samples tcp_route_simps) (simp add: newNapt_def)
  have session: "isConnected (sv_sessions tcp_route ! unat (clientID ?x))"
    by (simp add: x[unfolded tcp_route_simps] tcp_route_simps route_session_def keyed_session_def isConnected_def)
  have wf: "napt_wf (sv_tcpNapt tcp_route)" unfolding tcp_route_simps
    by (rule add_conn_wf[OF newNapt_wf]) (simp_all add: newNapt_def)
  have ok: "routes_ok plain_lib tcp_route" using wf
    by (simp add: routes_ok_def tcp_route_simps route_session_def keyed_session_def plain_usable newNapt_wf) (simp add: add_conn_def newNapt_def Let_def)
  have own: "pool_owns 1600 (sv_heap tcp_route, sv_pool tcp_route) {#}"
    using route_pool[of tcp_in "newNapt 1000 1002"] by (simp add: tcp_route_simps route_memory)
  have apart: "blk (Ptr 0 0) \<notin> blk ` set (memoryChunks (sv_pool tcp_route))" by (simp add: tcp_route_simps newPool_def)
  from tcp_answer_checksum[OF ld len tcp_in_valid(2) tcp_samples(3) tcp_in_valid(1) conn refl session ok own apart]
  show ?thesis by (auto simp: x[unfolded tcp_route_simps] tcp_route_simps route_session_def keyed_session_def)
qed

end
