(* ===== verification/RawReader.thy ===== *)
theory RawReader
  imports RawSocket "HOL-Library.Sublist"
begin

text \<open>
  The threads of \<^verbatim>\<open>libtun/include/libtun/RawSocket.h\<close>: the reader, which reads from the device and posts
  a handler for each read, and the thread of the event loop, which runs the handlers and calls
  \<open>stop\<close>. They share the buffer, a mutex and a condition variable.
\<close>

section \<open>The machine\<close>

text \<open>
  Where the reader is: before the test of the loop, before it takes the mutex, inside the call
  of the system with the mutex held, waiting on the condition, waiting to take the mutex again
  after a wake-up, at the end of its function, or ended by an exception. The mutex is held
  between two steps only in \<open>InRead\<close>.
\<close>

datatype reader_pc = AtLoop | Locking | InRead | InWait | Notified | Returned | Terminated

text \<open>
  \<open>k_posted\<close> counts the handlers that have not run. \<open>k_packets\<close> is what \<open>onPacket\<close> has been
  given. \<open>k_reads\<close> and \<open>k_done\<close> are history: what each read has brought, and what was in the
  buffer each time a handler emptied it.
\<close>

record machine =
  k_if :: interface_info
  k_impl :: raw_impl
  k_heap :: heap
  k_reading :: bool
  k_pc :: reader_pc
  k_posted :: nat
  k_packets :: "bytes list"
  k_reads :: "bytes list"
  k_done :: "bytes list"
  k_fault :: "fault option"

definition pending :: "machine \<Rightarrow> bytes list" where
  "pending m =
     (if \<not> consumable (k_impl m) then []
      else case rs_buf (k_impl m) of
        None \<Rightarrow> []
      | Some p \<Rightarrow> (case load_bytes (k_heap m) p (nat (rs_readableLen (k_impl m))) of Inl _ \<Rightarrow> [] | Inr bs \<Rightarrow> [bs]))"

text \<open>\<open>start\<close>: the interface, the device, and the thread.\<close>

definition start_raw :: "resolver \<Rightarrow> bpf_os \<Rightarrow> ifaddr list option \<Rightarrow> bytes \<Rightarrow> heap \<Rightarrow> (raw_error + machine) res" where
  "start_raw R os addrs name h =
     (case useInterface R addrs name of
        Inl e \<Rightarrow> Inr (Inl e)
      | Inr i \<Rightarrow>
          rbind (open_raw os newRawSocketImpl h (if_name i)) (\<lambda>x.
            Inr (case x of
              Inl e \<Rightarrow> Inl e
            | Inr (r, h') \<Rightarrow> Inr \<lparr>k_if = i, k_impl = r, k_heap = h', k_reading = True, k_pc = AtLoop, k_posted = 0,
                k_packets = [], k_reads = [], k_done = [], k_fault = None\<rparr>)))"

definition stop_raw :: "machine \<Rightarrow> machine res" where
  "stop_raw m =
     rbind (close_raw (k_impl m) (k_heap m)) (\<lambda>(r, h).
       Inr (m\<lparr>k_reading := False, k_impl := r, k_heap := h\<rparr>))"

text \<open>The end of a read: \<open>_reading\<close> is tested, the handler posted, and the condition looked at.\<close>

definition after_read :: "machine \<Rightarrow> machine" where
  "after_read m =
     (if \<not> k_reading m then m\<lparr>k_pc := Returned\<rparr>
      else m\<lparr>k_posted := Suc (k_posted m), k_pc := (if consumable (k_impl m) then AtLoop else InWait)\<rparr>)"

definition read_done :: "machine \<Rightarrow> bytes option \<Rightarrow> machine res" where
  "read_done m got =
     rbind (finish_read (k_impl m) (k_heap m) got) (\<lambda>(r, h).
       let m' = m\<lparr>k_impl := r, k_heap := h\<rparr> in
       Inr (after_read (m'\<lparr>k_reads := k_reads m @ pending m'\<rparr>)))"

text \<open>The handler: \<open>consume\<close> and \<open>notify_one\<close>.\<close>

definition run_handler :: "bpf \<Rightarrow> nat \<Rightarrow> machine \<Rightarrow> machine res" where
  "run_handler B fuel m =
     rbind (consume B note_packet fuel (k_impl m) (k_heap m, k_packets m)) (\<lambda>(r, h, ps).
       Inr (m\<lparr>k_impl := r, k_heap := h, k_packets := ps, k_done := k_done m @ pending m,
              k_posted := k_posted m - 1,
              k_pc := (if k_pc m = InWait then Notified else k_pc m)\<rparr>))"

text \<open>A fault ends the program, and so does an exception that leaves the thread.\<close>

definition live :: "machine \<Rightarrow> bool" where
  "live m \<longleftrightarrow> k_fault m = None \<and> k_pc m \<noteq> Terminated"

definition outcome :: "machine \<Rightarrow> machine res \<Rightarrow> machine" where
  "outcome m x = (case x of Inl f \<Rightarrow> m\<lparr>k_fault := Some f\<rparr> | Inr m' \<Rightarrow> m')"

text \<open>
  The steps: the reader tests the loop; takes the mutex and enters the call, or throws; the
  call ends with what the system has for it; a handler runs while the mutex is free; the
  reader, woken by it or for no reason, looks at the condition again; \<open>stop\<close> is called.
\<close>

inductive raw_step :: "bpf \<Rightarrow> nat \<Rightarrow> machine \<Rightarrow> machine \<Rightarrow> bool" for B fuel where
  enter: "live m \<Longrightarrow> k_pc m = AtLoop \<Longrightarrow>
    raw_step B fuel m (m\<lparr>k_pc := (if k_reading m then Locking else Returned)\<rparr>)"
| lock: "live m \<Longrightarrow> k_pc m = Locking \<Longrightarrow>
    raw_step B fuel m (m\<lparr>k_pc := (if opened (k_impl m) then InRead else Terminated)\<rparr>)"
| reads: "live m \<Longrightarrow> k_pc m = InRead \<Longrightarrow> raw_step B fuel m (outcome m (read_done m got))"
| handle: "live m \<Longrightarrow> k_pc m \<noteq> InRead \<Longrightarrow> 0 < k_posted m \<Longrightarrow>
    raw_step B fuel m (outcome m (run_handler B fuel m))"
| wake: "live m \<Longrightarrow> k_pc m = InWait \<Longrightarrow> raw_step B fuel m (m\<lparr>k_pc := Notified\<rparr>)"
| look: "live m \<Longrightarrow> k_pc m = Notified \<Longrightarrow>
    raw_step B fuel m (m\<lparr>k_pc := (if consumable (k_impl m) then AtLoop else InWait)\<rparr>)"
| halt: "live m \<Longrightarrow> raw_step B fuel m (outcome m (stop_raw m))"

inductive_cases raw_stepE: "raw_step B fuel m m'"

inductive raw_run :: "bpf \<Rightarrow> nat \<Rightarrow> machine \<Rightarrow> machine \<Rightarrow> bool" for B fuel m0 where
  refl: "raw_run B fuel m0 m0"
| step: "raw_run B fuel m0 m \<Longrightarrow> raw_step B fuel m m' \<Longrightarrow> raw_run B fuel m0 m'"

section \<open>What is handed on\<close>

lemma outcome_simps [simp]:
  "outcome m (Inl f) = m\<lparr>k_fault := Some f\<rparr>" "outcome m (Inr m') = m'"
  by (simp_all add: outcome_def)

lemma pending_cong:
  "k_impl m = k_impl m' \<Longrightarrow> k_heap m = k_heap m' \<Longrightarrow> pending m = pending m'"
  by (auto simp: pending_def split: option.split)

lemma pending_keep [simp]:
  "pending (m\<lparr>k_pc := c\<rparr>) = pending m" "pending (m\<lparr>k_fault := e\<rparr>) = pending m"
  "pending (m\<lparr>k_reads := x\<rparr>) = pending m"
  "pending (after_read m) = pending m"
  by (rule pending_cong; simp add: after_read_def)+

lemma pending_idle: "\<not> consumable (k_impl m) \<Longrightarrow> pending m = []"
  by (simp add: pending_def)

lemma after_read_simps [simp]:
  "k_reads (after_read m) = k_reads m" "k_done (after_read m) = k_done m" "k_packets (after_read m) = k_packets m"
  "k_impl (after_read m) = k_impl m" "k_heap (after_read m) = k_heap m" "k_reading (after_read m) = k_reading m"
  "k_fault (after_read m) = k_fault m"
  by (simp_all add: after_read_def)

lemma consume_empties:
  "consume B f fuel r hs = Inr (r', hs') \<Longrightarrow> \<not> consumable r' \<and> rs_bufLen r' = rs_bufLen r \<and> rs_buf r' = rs_buf r
     \<and> rs_fd r' = rs_fd r"
  by (auto simp: consume_def consumable_def res_iffs split: if_splits option.splits)

text \<open>What a step does to the history: it grows by at most one read or one batch.\<close>

lemma step_history:
  assumes "raw_step B fuel m m'"
  shows "\<exists>new d. k_reads m' = k_reads m @ new \<and> k_done m' = k_done m @ d \<and> subseq (d @ pending m') (pending m @ new)"
  using assms
proof (cases rule: raw_step.cases)
  case (reads got)
  show ?thesis
  proof (cases "read_done m got")
    case (Inl f)
    with reads show ?thesis by simp
  next
    case (Inr m1)
    then obtain r h where f: "m1 = after_read (m\<lparr>k_impl := r, k_heap := h, k_reads := k_reads m @ pending (m\<lparr>k_impl := r, k_heap := h\<rparr>)\<rparr>)"
      by (auto simp: read_done_def res_iffs Let_def)
    have "pending m1 = pending (m\<lparr>k_impl := r, k_heap := h\<rparr>)"
      unfolding f by (simp only: pending_keep)
    then have "k_reads m' = k_reads m @ pending m'" "k_done m' = k_done m @ []" using Inr reads f by simp_all
    moreover have "subseq ([] @ pending m') (pending m @ pending m')" by (simp add: list_emb_append2)
    ultimately show ?thesis by blast
  qed
next
  case handle
  show ?thesis
  proof (cases "run_handler B fuel m")
    case (Inl f)
    with handle show ?thesis by simp
  next
    case (Inr m1)
    then have "k_done m1 = k_done m @ pending m" "k_reads m1 = k_reads m" "\<not> consumable (k_impl m1)"
      by (auto simp: run_handler_def res_iffs dest!: consume_empties)
    with Inr handle pending_idle[of m1] show ?thesis by simp
  qed
next
  case halt
  show ?thesis
  proof (cases "stop_raw m")
    case (Inl f)
    with halt show ?thesis by simp
  next
    case (Inr m1)
    then have "k_done m1 = k_done m" "k_reads m1 = k_reads m" "pending m1 = []"
      by (auto simp: stop_raw_def close_raw_def res_iffs pending_def heap_delete_def load_bytes_def in_bounds_def
          split: option.splits if_splits)
    with Inr halt show ?thesis by simp
  qed
qed simp_all

lemma run_history:
  "raw_run B fuel m0 m \<Longrightarrow> \<exists>new d. k_reads m = k_reads m0 @ new \<and> k_done m = k_done m0 @ d
     \<and> subseq (d @ pending m) (pending m0 @ new)"
proof (induction rule: raw_run.induct)
  case refl
  show ?case by simp
next
  case (step m m')
  obtain new d where 1: "k_reads m = k_reads m0 @ new" "k_done m = k_done m0 @ d" "subseq (d @ pending m) (pending m0 @ new)"
    using step.IH by blast
  obtain new' d' where 2: "k_reads m' = k_reads m @ new'" "k_done m' = k_done m @ d'" "subseq (d' @ pending m') (pending m @ new')"
    using step_history[OF step.hyps(2)] by blast
  have "subseq (d @ d' @ pending m') (d @ pending m @ new')"
    by (rule list_emb_append_mono[OF _ 2(3)]) simp
  moreover have "subseq ((d @ pending m) @ new') ((pending m0 @ new) @ new')"
    by (rule list_emb_append_mono[OF 1(3)]) simp
  then have "subseq (d @ pending m @ new') (pending m0 @ new @ new')" by (simp only: append.assoc)
  ultimately have "subseq (d @ d' @ pending m') (pending m0 @ new @ new')"
    by (rule subseq_order.order_trans)
  then show ?case using 1 2 by (intro exI[of _ "new @ new'"] exI[of _ "d @ d'"]) simp
qed

text \<open>A batch that the system lays out, with the packets in it.\<close>

definition batch_of :: "bpf \<Rightarrow> nat \<Rightarrow> bytes \<Rightarrow> capture list \<Rightarrow> bool" where
  "batch_of B fuel bs cs \<longleftrightarrow> captures_ok B cs \<and> cs \<noteq> [] \<and> length cs \<le> fuel \<and> bs = concat (map capture_bytes cs)"

definition room_ok :: "machine \<Rightarrow> bool" where
  "room_ok m \<longleftrightarrow> (\<forall>p. consumable (k_impl m) \<and> rs_buf (k_impl m) = Some p \<and> blocks (k_heap m) (blk p) \<noteq> None \<longrightarrow>
     in_bounds (k_heap m) p (nat (rs_readableLen (k_impl m))))"

lemma room_ok_keep [simp]:
  "room_ok (m\<lparr>k_pc := c\<rparr>) = room_ok m" "room_ok (m\<lparr>k_fault := e\<rparr>) = room_ok m"
  "room_ok (m\<lparr>k_reads := x\<rparr>) = room_ok m" "room_ok (after_read m) = room_ok m"
  by (simp_all add: room_ok_def)

lemma finish_read_room:
  assumes "finish_read r h got = Inr (r', h')" "rs_buf r' = Some p" "consumable r'"
  shows "in_bounds h' p (nat (rs_readableLen r'))"
proof (cases got)
  case None
  with assms show ?thesis by (auto simp: finish_read_def consumable_def)
next
  case (Some bs)
  let ?xs = "take (nat (rs_bufLen r)) bs"
  have st: "store_bytes h p ?xs = Inr h'" "rs_readableLen r' = int (length ?xs)"
    using assms Some by (auto simp: finish_read_def consumable_def res_iffs Let_def split: option.splits if_splits)
  then show ?thesis using load_store_same[OF st(1)] unfolding load_bytes_ok by simp
qed

lemma finish_read_same:
  "finish_read r h got = Inr (r', h') \<Longrightarrow> rs_buf r' = rs_buf r \<and> rs_bufLen r' = rs_bufLen r \<and> rs_fd r' = rs_fd r"
  by (auto simp: finish_read_def res_iffs Let_def split: option.splits if_splits)

lemma room_ok_step:
  assumes "raw_step B fuel m m'" "room_ok m"
  shows "room_ok m'"
  using assms(1)
proof (cases rule: raw_step.cases)
  case (reads got)
  show ?thesis
  proof (cases "finish_read (k_impl m) (k_heap m) got")
    case (Inl f)
    with reads assms(2) show ?thesis by (simp add: read_done_def)
  next
    case (Inr x)
    obtain r h where x: "x = (r, h)" by fastforce
    have "room_ok (m\<lparr>k_impl := r, k_heap := h\<rparr>)"
      using finish_read_room Inr x by (auto simp: room_ok_def)
    then show ?thesis using reads Inr x by (simp add: read_done_def Let_def)
  qed
next
  case handle
  show ?thesis
  proof (cases "run_handler B fuel m")
    case (Inr m1)
    then have "\<not> consumable (k_impl m1)" by (auto simp: run_handler_def res_iffs dest!: consume_empties)
    with handle Inr show ?thesis by (simp add: room_ok_def)
  qed (use handle assms(2) in simp)
next
  case halt
  show ?thesis
  proof (cases "stop_raw m")
    case (Inr m1)
    with halt show ?thesis
      by (auto simp: stop_raw_def close_raw_def res_iffs room_ok_def heap_delete_def split: option.splits if_splits)
  qed (use halt assms(2) in simp)
qed (use assms(2) in simp_all)

lemma consume_gone:
  assumes "consumable r" "rs_buf r = Some p" "blocks h (blk p) = None"
  shows "\<exists>f. consume B g fuel r (h, s) = Inl f" "0 < fuel \<Longrightarrow> consume B g fuel r (h, s) = Inl OutOfBounds"
proof -
  have "load_bytes h (padd p 0) n = Inl OutOfBounds" for n using assms(3) by (simp add: load_bytes_def in_bounds_def)
  then have loop: "consume_loop B g fuel p 0 (rs_readableLen r) (h, s) = Inl (if fuel = 0 then Diverges else OutOfBounds)"
    using assms(1) by (cases fuel) (simp_all add: consumable_def)
  show "\<exists>f. consume B g fuel r (h, s) = Inl f" using assms(1,2) loop by (simp add: consume_def)
  show "consume B g fuel r (h, s) = Inl OutOfBounds" if "0 < fuel" using assms(1,2) loop that by (simp add: consume_def)
qed

lemma handler_effect:
  assumes "room_ok m" "run_handler B fuel m = Inr m'"
  shows "(pending m = [] \<and> k_packets m' = k_packets m) \<or>
    (\<exists>bs. pending m = [bs] \<and> (\<forall>cs. batch_of B fuel bs cs \<longrightarrow> k_packets m' = k_packets m @ map c_ip cs))"
proof (cases "consumable (k_impl m)")
  case False
  with assms(2) show ?thesis by (auto simp: run_handler_def consume_def pending_def res_iffs)
next
  case True
  obtain r h ps where c: "consume B note_packet fuel (k_impl m) (k_heap m, k_packets m) = Inr (r, h, ps)"
    "k_packets m' = ps" using assms(2) by (auto simp: run_handler_def res_iffs)
  obtain p where p: "rs_buf (k_impl m) = Some p" using c True by (auto simp: consume_def split: option.splits)
  have alive: "blocks (k_heap m) (blk p) \<noteq> None" 
    using consume_gone(1)[OF True p, of "k_heap m" B note_packet fuel "k_packets m"] c by auto
  with assms(1) True p obtain bs where bs: "load_bytes (k_heap m) p (nat (rs_readableLen (k_impl m))) = Inr bs"
    by (auto simp: room_ok_def load_bytes_ok)
  then have len: "int (length bs) = rs_readableLen (k_impl m)" using True by (auto simp: consumable_def dest!: load_bytes_length)
  have "ps = k_packets m @ map c_ip cs" if "batch_of B fuel bs cs" for cs
  proof -
    have "load_bytes (k_heap m) p (length bs) = Inr bs" using bs len by (simp add: load_bytes_length[OF bs])
    then have "consume B note_packet fuel (k_impl m) (k_heap m, k_packets m)
        = Inr ((k_impl m)\<lparr>rs_readableLen := 0\<rparr>, k_heap m, k_packets m @ map c_ip cs)"
      using that p len by (intro consume_captures_all) (auto simp: batch_of_def)
    with c show ?thesis by simp
  qed
  moreover have "pending m = [bs]" using True p bs by (simp add: pending_def)
  ultimately show ?thesis using c(2) by blast
qed

lemma start_raw_state:
  assumes "start_raw R os addrs name h = Inr (Inr m)"
  shows "k_reads m = []" "k_done m = []" "k_packets m = []" "\<not> consumable (k_impl m)" "k_pc m = AtLoop"
    "k_reading m" "k_posted m = 0" "k_fault m = None"
    "open_raw os newRawSocketImpl h (if_name (k_if m)) = Inr (Inr (k_impl m, k_heap m))"
proof -
  obtain i r h' where o: "open_raw os newRawSocketImpl h (if_name i) = Inr (Inr (r, h'))"
    "m = \<lparr>k_if = i, k_impl = r, k_heap = h', k_reading = True, k_pc = AtLoop, k_posted = 0,
       k_packets = [], k_reads = [], k_done = [], k_fault = None\<rparr>"
  proof -
    obtain i where i: "useInterface R addrs name = Inr i"
      using assms by (cases "useInterface R addrs name") (simp_all add: start_raw_def)
    obtain x where x: "open_raw os newRawSocketImpl h (if_name i) = Inr x"
      using assms i by (cases "open_raw os newRawSocketImpl h (if_name i)") (simp_all add: start_raw_def)
    show thesis
    proof (cases x)
      case (Inr y)
      with assms i x that show thesis by (cases y) (simp add: start_raw_def)
    qed (use assms i x in \<open>simp add: start_raw_def\<close>)
  qed
  have "rs_readableLen r = 0"
    using o(1) by (auto simp: open_raw_def newRawSocketImpl_def Let_def simp del: upt_rec_numeral split: if_splits prod.splits)
  with o show "k_reads m = []" "k_done m = []" "k_packets m = []" "\<not> consumable (k_impl m)" "k_pc m = AtLoop"
    "k_reading m" "k_posted m = 0" "k_fault m = None"
    "open_raw os newRawSocketImpl h (if_name (k_if m)) = Inr (Inr (k_impl m, k_heap m))"
    by (simp_all add: consumable_def)
qed

lemma start_raw_if: "start_raw R os addrs name h = Inr (Inr m) \<Longrightarrow> useInterface R addrs name = Inr (k_if m)"
proof -
  assume s: "start_raw R os addrs name h = Inr (Inr m)"
  then obtain i where i: "useInterface R addrs name = Inr i"
    by (cases "useInterface R addrs name") (simp_all add: start_raw_def)
  obtain x where x: "open_raw os newRawSocketImpl h (if_name i) = Inr x"
    using s i by (cases "open_raw os newRawSocketImpl h (if_name i)") (simp_all add: start_raw_def)
  with s i show ?thesis by (cases x) (auto simp: start_raw_def)
qed

lemma subseq_front: "subseq (d @ e) xs \<Longrightarrow> subseq d xs"
  by (rule subseq_order.order_trans[OF prefix_imp_subseq]) simp_all

lemma run_noted:
  assumes "raw_run B fuel m0 m" "room_ok m0" "k_done m0 = []" "k_packets m0 = []" "pending m0 = []" "k_reads m0 = []"
    "\<forall>bs\<in>set (k_reads m). \<exists>cs. batch_of B fuel bs cs"
  shows "room_ok m \<and> (\<exists>css. list_all2 (batch_of B fuel) (k_done m) css \<and> k_packets m = concat (map (map c_ip) css))"
  using assms
proof (induction rule: raw_run.induct)
  case refl
  then show ?case by (intro conjI exI[of _ "[]"]) simp_all
next
  case (step m m')
  obtain new d where h: "k_reads m' = k_reads m @ new" "k_done m' = k_done m @ d"
    using step_history[OF step.hyps(2)] by blast
  then have wf: "\<forall>bs\<in>set (k_reads m). \<exists>cs. batch_of B fuel bs cs" using step.prems(6) by simp
  then obtain css where ok: "room_ok m" "list_all2 (batch_of B fuel) (k_done m) css" "k_packets m = concat (map (map c_ip) css)"
    using step.IH step.prems by blast
  have sub: "subseq (k_done m @ pending m) (k_reads m)"
    using run_history[OF step.hyps(1)] step.prems by auto
  have "\<exists>css. list_all2 (batch_of B fuel) (k_done m') css \<and> k_packets m' = concat (map (map c_ip) css)"
    using step.hyps(2)
  proof (cases rule: raw_step.cases)
    case handle
    show ?thesis
    proof (cases "run_handler B fuel m")
      case (Inl f)
      with handle ok show ?thesis by auto
    next
      case (Inr m1)
      then have done1: "k_done m1 = k_done m @ pending m" by (auto simp: run_handler_def res_iffs)
      from handler_effect[OF ok(1) Inr] show ?thesis
      proof (elim disjE exE conjE)
        assume "pending m = []" "k_packets m1 = k_packets m"
        with handle Inr done1 ok show ?thesis by auto
      next
        fix bs
        assume bs: "pending m = [bs]" and *: "\<forall>cs. batch_of B fuel bs cs \<longrightarrow> k_packets m1 = k_packets m @ map c_ip cs"
        have "bs \<in> set (k_reads m)" using sub bs by (auto dest: list_emb_set)
        with wf obtain cs where cs: "batch_of B fuel bs cs" by blast
        with * have "k_packets m1 = concat (map (map c_ip) (css @ [cs]))" using ok(3) by simp
        moreover have "list_all2 (batch_of B fuel) (k_done m1) (css @ [cs])"
          using done1 bs cs ok(2) by (simp add: list_all2_appendI)
        ultimately show ?thesis using handle Inr by auto
      qed
    qed
  next
    case (reads got)
    show ?thesis
    proof (cases "read_done m got")
      case (Inr m1)
      then have "k_done m1 = k_done m" "k_packets m1 = k_packets m" by (auto simp: read_done_def res_iffs Let_def)
      with reads Inr ok show ?thesis by auto
    qed (use reads ok in auto)
  next
    case halt
    show ?thesis
    proof (cases "stop_raw m")
      case (Inr m1)
      then have "k_done m1 = k_done m" "k_packets m1 = k_packets m" by (auto simp: stop_raw_def res_iffs)
      with halt Inr ok show ?thesis by auto
    qed (use halt ok in auto)
  qed (use ok in auto)
  then show ?case using room_ok_step[OF step.hyps(2) ok(1)] by blast
qed

text \<open>
  C16. No packet twice, none out of order. However the reader, the handlers and \<open>stop\<close> interleave,
  if every read brings packets as the system lays them out, then \<open>onPacket\<close> has been given
  exactly the packets of some of the reads, each read whole, once, and in the order of the
  reads. (Which reads are left out, see the next property.)
\<close>

theorem packets_in_order:
  assumes "start_raw R os addrs name h = Inr (Inr m0)" "raw_run B fuel m0 m"
    and "\<forall>bs\<in>set (k_reads m). \<exists>cs. batch_of B fuel bs cs"
  shows "\<exists>bss css. subseq bss (k_reads m) \<and> list_all2 (batch_of B fuel) bss css
    \<and> k_packets m = concat (map (map c_ip) css)"
proof -
  note m0 = start_raw_state[OF assms(1)]
  have p: "pending m0 = []" "room_ok m0" using m0(4) by (simp_all add: pending_def room_ok_def)
  obtain new d where "k_reads m = new" "k_done m = d" "subseq (d @ pending m) new"
    using run_history[OF assms(2)] m0 p by auto
  then have "subseq (k_done m) (k_reads m)" by (simp add: subseq_front)
  with run_noted[OF assms(2) p(2) m0(2,3) p(1) m0(1) assms(3)] show ?thesis by blast
qed

text \<open>
  C17. What a read brings is lost if the reader comes round before the handler: it does not wait
  while there is something to consume, so it takes the mutex and reads into the same buffer.
  From then on, whatever happens, the older batch is never handed on, although its handler is
  still posted.
\<close>

theorem unread_batch_lost:
  assumes "live m" "k_pc m = Locking" "k_reading m" "opened (k_impl m)"
    and "rs_buf (k_impl m) = Some p" "in_bounds (k_heap m) p (nat (rs_bufLen (k_impl m)))"
    and "pending m = [a]" "0 < length b" "length b \<le> nat (rs_bufLen (k_impl m))"
  shows "\<exists>m2. raw_run B fuel m m2 \<and> k_reads m2 = k_reads m @ [b] \<and> k_posted m2 = Suc (k_posted m)
    \<and> (\<forall>m3. raw_run B fuel m2 m3 \<longrightarrow> (\<exists>new d. k_reads m3 = k_reads m @ b # new \<and> k_done m3 = k_done m @ d
          \<and> subseq d (b # new)))"
proof -
  let ?m1 = "m\<lparr>k_pc := InRead\<rparr>"
  have 1: "raw_run B fuel m ?m1"
    using raw_run.step[OF raw_run.refl raw_step.lock[OF assms(1,2)], of B fuel] assms(4) by simp
  have "in_bounds (k_heap m) (padd p (int 0)) (length b)" using assms(6,9) by (intro in_bounds_part) simp_all
  then obtain h where st: "store_bytes (k_heap m) p b = Inr h" by (auto simp: store_bytes_ok)
  let ?r = "(k_impl m)\<lparr>rs_readableLen := int (length b)\<rparr>"
  let ?m = "?m1\<lparr>k_impl := ?r, k_heap := h\<rparr>"
  have pend: "pending ?m = [b]"
    using assms(5,8) load_store_same[OF st] by (simp add: pending_def consumable_def)
  let ?m2 = "after_read (?m\<lparr>k_reads := k_reads m @ [b]\<rparr>)"
  have "read_done ?m1 (Some b) = Inr ?m2"
    using assms(5,8,9) st pend by (auto simp: read_done_def finish_read_def Let_def)
  then have "raw_step B fuel ?m1 ?m2"
    using raw_step.reads[of ?m1 B fuel "Some b"] assms(1) by (simp add: live_def)
  with 1 have run: "raw_run B fuel m ?m2" by (rule raw_run.step)
  have "\<exists>new d. k_reads m3 = k_reads m @ b # new \<and> k_done m3 = k_done m @ d \<and> subseq d (b # new)"
    if run3: "raw_run B fuel ?m2 m3" for m3
  proof -
    obtain new d where r3: "k_reads m3 = k_reads ?m2 @ new" "k_done m3 = k_done ?m2 @ d" "subseq (d @ pending m3) (pending ?m2 @ new)"
      using run_history[OF run3] by blast
    have "subseq d (pending ?m2 @ new)" by (rule subseq_front[OF r3(3)])
    moreover have "pending ?m2 = [b]" using pend by (simp only: pending_keep)
    ultimately have "subseq d (b # new)" by simp
    with r3(1,2) show ?thesis by auto
  qed
  with run assms(3) show ?thesis by (intro exI[of _ ?m2]) (simp add: after_read_def)
qed

text \<open>A reader that waits while there is nothing to consume, and no read that could change that.\<close>

definition stuck :: "machine \<Rightarrow> bool" where
  "stuck m \<longleftrightarrow> k_pc m \<in> {InWait, Notified} \<and> \<not> consumable (k_impl m)"

lemma stuck_step: "raw_step B fuel m m' \<Longrightarrow> stuck m \<Longrightarrow> stuck m' \<and> k_reads m' = k_reads m \<and> k_packets m' = k_packets m"
proof (erule raw_stepE)
  assume "stuck m" "m' = outcome m (run_handler B fuel m)"
  then show ?thesis
    by (cases "run_handler B fuel m") (auto simp: stuck_def run_handler_def consume_def res_iffs)
next
  assume "stuck m" "m' = outcome m (stop_raw m)"
  then show ?thesis
    by (cases "stop_raw m") (auto simp: stuck_def stop_raw_def close_raw_def consumable_def res_iffs split: option.splits if_splits)
qed (auto simp: stuck_def)

lemma stuck_run: "raw_run B fuel m m' \<Longrightarrow> stuck m \<Longrightarrow> stuck m' \<and> k_reads m' = k_reads m \<and> k_packets m' = k_packets m"
  by (induction rule: raw_run.induct) (auto dest: stuck_step)

lemma empty_read_stuck:
  "read_done m got = Inr m' \<Longrightarrow> got = None \<or> got = Some [] \<Longrightarrow> k_reading m \<Longrightarrow>
     stuck m' \<and> k_reads m' = k_reads m \<and> k_packets m' = k_packets m"
  by (auto simp: read_done_def finish_read_def res_iffs Let_def after_read_def stuck_def consumable_def pending_def
      split: option.splits if_splits)

text \<open>
  C18. One read that brings nothing ends the reader. After a failed or empty read it waits for
  something to consume, which only another read could bring: in every continuation, with any
  wake-ups and handlers, it stays there, nothing is read or handed on again, and the
  function does not return after \<open>stop\<close> either.
\<close>

theorem empty_read_ends_reader:
  assumes "k_pc m0 = InRead" "k_reading m0" "read_done m0 got = Inr m" "got = None \<or> got = Some []" "raw_run B fuel m m'"
  shows "k_pc m' \<in> {InWait, Notified} \<and> k_reads m' = k_reads m0 \<and> k_packets m' = k_packets m0"
  using stuck_run[OF assms(5)] empty_read_stuck[OF assms(3,4,2)] by (auto simp: stuck_def)

lemma no_room_step:
  assumes "raw_step B fuel m m'" "rs_bufLen (k_impl m) = 0" "\<not> consumable (k_impl m)"
  shows "rs_bufLen (k_impl m') = 0 \<and> \<not> consumable (k_impl m') \<and> k_reads m' = k_reads m \<and> k_packets m' = k_packets m"
  using assms(1)
proof (cases rule: raw_step.cases)
  case (reads got)
  have "\<not> consumable r \<and> rs_bufLen r = 0" if "finish_read (k_impl m) (k_heap m) got = Inr (r, h)" for r h
    using that assms(2) finish_read_same[OF that] by (auto simp: finish_read_def consumable_def res_iffs split: option.splits if_splits)
  with reads assms(2,3) show ?thesis
    by (cases "read_done m got") (auto simp: read_done_def res_iffs Let_def pending_idle)
next
  case handle
  with assms(2,3) show ?thesis
    by (cases "run_handler B fuel m") (auto simp: run_handler_def consume_def res_iffs)
next
  case halt
  with assms(2,3) show ?thesis
    by (cases "stop_raw m") (auto simp: stop_raw_def close_raw_def consumable_def res_iffs split: option.splits if_splits)
qed (use assms(2,3) in simp_all)

text \<open>
  The raw socket as it is started hears nothing. When the device has been bound, or failing
  that put in immediate mode, \<open>open\<close> does not ask for the length of its buffer, which stays
  0: whatever arrives, no read brings anything and \<open>onPacket\<close> is never called.
\<close>

lemma started_socket_deaf:
  assumes "start_raw R os addrs name h = Inr (Inr m0)" "raw_run B fuel m0 m"
    and "set_if os (if if_name (k_if m0) = [] then [0] else [hd (if_name (k_if m0))]) \<noteq> - 1 \<or> set_immediate os \<noteq> - 1"
  shows "rs_bufLen (k_impl m) = 0 \<and> k_reads m = [] \<and> k_packets m = []"
proof -
  note m0 = start_raw_state[OF assms(1)]
  from open_leaves_no_room[OF m0(9) assms(3)] have z: "rs_bufLen (k_impl m0) = 0" by simp
  have "rs_bufLen (k_impl m) = 0 \<and> \<not> consumable (k_impl m) \<and> k_reads m = [] \<and> k_packets m = []"
    using assms(2) by (induction rule: raw_run.induct) (use z m0(1,3,4) in simp, metis no_room_step)
  then show ?thesis by simp
qed

text \<open>
  C19. \<open>stop\<close> frees the buffer under the other parts. A handler that is still posted, when there is
  something to consume, then reads freed memory; and if the reader was inside the call of the
  system, the call writes to freed memory as soon as it brings a byte, and does no harm if it fails
  or brings nothing: \<open>stop\<close> neither takes the mutex nor waits for the thread.
\<close>

theorem stop_frees_buffer_in_use:
  assumes "live m" "rs_buf (k_impl m) = Some p" "blocks (k_heap m) (blk p) \<noteq> None" "0 < fuel"
  shows "\<exists>m1. raw_step B fuel m m1 \<and> \<not> k_reading m1 \<and> k_pc m1 = k_pc m
    \<and> (k_pc m \<noteq> InRead \<and> 0 < k_posted m \<and> consumable (k_impl m) \<longrightarrow>
         (\<exists>m2. raw_step B fuel m1 m2 \<and> k_fault m2 = Some OutOfBounds))
    \<and> (k_pc m = InRead \<longrightarrow> (\<forall>got. \<exists>m2. raw_step B fuel m1 m2 \<and> m2 = outcome m1 (read_done m1 got)
         \<and> k_fault m2 = (case got of None \<Rightarrow> None
             | Some bs \<Rightarrow> if take (nat (rs_bufLen (k_impl m))) bs = [] then None else Some OutOfBounds)))"
proof -
  let ?m1 = "m\<lparr>k_reading := False, k_impl := (k_impl m)\<lparr>rs_fd := - 1\<rparr>, k_heap := heap_delete (k_heap m) p\<rparr>"
  have stop: "stop_raw m = Inr ?m1" using assms(2,3) by (simp add: stop_raw_def close_raw_def)
  have 1: "raw_step B fuel m ?m1" using raw_step.halt[OF assms(1), of B fuel] stop by simp
  have gone: "blocks (heap_delete (k_heap m) p) (blk p) = None" by (simp add: heap_delete_def)
  have 2: "\<exists>m2. raw_step B fuel ?m1 m2 \<and> k_fault m2 = Some OutOfBounds"
    if "k_pc m \<noteq> InRead" "0 < k_posted m" "consumable (k_impl m)"
  proof -
    have "consume B note_packet fuel ((k_impl m)\<lparr>rs_fd := - 1\<rparr>) (heap_delete (k_heap m) p, k_packets m) = Inl OutOfBounds"
      by (rule consume_gone(2)[OF _ _ gone assms(4)]) (use that(3) assms(2) in \<open>simp_all add: consumable_def\<close>)
    then have "run_handler B fuel ?m1 = Inl OutOfBounds" by (simp add: run_handler_def)
    then show ?thesis using raw_step.handle[of ?m1 B fuel] that assms(1)
      by (intro exI[of _ "outcome ?m1 (run_handler B fuel ?m1)"]) (simp add: live_def)
  qed
  have 3: "\<exists>m2. raw_step B fuel ?m1 m2 \<and> m2 = outcome ?m1 (read_done ?m1 got) \<and> k_fault m2 = (case got of None \<Rightarrow> None
      | Some bs \<Rightarrow> if take (nat (rs_bufLen (k_impl m))) bs = [] then None else Some OutOfBounds)"
    if "k_pc m = InRead" for got
  proof -
    have "store_bytes (heap_delete (k_heap m) p) p xs = Inl OutOfBounds" for xs
      using gone by (simp add: store_bytes_def in_bounds_def)
    then have "k_fault (outcome ?m1 (read_done ?m1 got)) = (case got of None \<Rightarrow> None
        | Some bs \<Rightarrow> if take (nat (rs_bufLen (k_impl m))) bs = [] then None else Some OutOfBounds)"
      using assms(1,2) by (simp add: read_done_def finish_read_def Let_def live_def split: option.split)
    then show ?thesis using raw_step.reads[of ?m1 B fuel got] that assms(1) by (auto simp: live_def)
  qed
  show ?thesis using 1 2 3 by (intro exI[of _ ?m1]) auto
qed

section \<open>Instances\<close>

lemma open_device_first: "dev 0 \<noteq> - 1 \<Longrightarrow> open_device dev [0..<99] (- 1) = dev 0"
proof -
  assume d: "dev 0 \<noteq> - 1"
  have "open_device dev ns fd = fd" if "fd \<noteq> - 1" for ns fd using that by (cases ns) simp_all
  moreover have "[0..<99] = 0 # [1..<99::nat]" using upt_conv_Cons[of 0 99] by (simp del: upt_rec_numeral)
  ultimately show ?thesis using d by (simp del: upt_rec_numeral)
qed

text \<open>A system whose first device opens; \<open>bound\<close> tells whether it can be bound to an interface.\<close>

definition demo_os :: "bool \<Rightarrow> bpf_os" where
  "demo_os bound = \<lparr>dev_open = (\<lambda>_. 7), set_if = (\<lambda>_. if bound then 0 else - 1),
     set_immediate = (if bound then 0 else - 1), get_blen = (0, 128), set_seesent = 0\<rparr>"

definition demo_ifs :: "ifaddr list" where
  "demo_ifs = [\<lparr>ifa_name = [101, 110, 48], ifa_addr = Some (2, 0xC0A80105), ifa_up = True, ifa_loopback = False\<rparr>]"

definition demo_machine :: "bool \<Rightarrow> machine" where
  "demo_machine bound = (let n = if bound then 0 else 128 :: int in
     \<lparr>k_if = \<lparr>if_name = [101, 110, 48], if_address = 0xC0A80105\<rparr>,
      k_impl = \<lparr>rs_fd = 7, rs_bufLen = n, rs_buf = Some (snd (heap_new demo_heap (nat n))), rs_readableLen = 0\<rparr>,
      k_heap = fst (heap_new demo_heap (nat n)), k_reading = True, k_pc = AtLoop, k_posted = 0,
      k_packets = [], k_reads = [], k_done = [], k_fault = None\<rparr>)"

lemma raw_demo_started: "start_raw demo_resolver (demo_os bound) (Some demo_ifs) [] demo_heap = Inr (Inr (demo_machine bound))"
proof -
  have "useInterface demo_resolver (Some demo_ifs) [] = Inr \<lparr>if_name = [101, 110, 48], if_address = 0xC0A80105\<rparr>"
    by (simp add: useInterface_def getInterfaces_def demo_ifs_def demo_resolver_def AF_INET_def bytes32_def)
  moreover have "open_device (dev_open (demo_os bound)) [0..<99] (- 1) = 7"
    using open_device_first[of "\<lambda>_. 7"] by (simp add: demo_os_def del: upt_rec_numeral)
  ultimately show ?thesis
    by (cases bound) (simp_all add: start_raw_def open_raw_def newRawSocketImpl_def setup_failed_def demo_os_def
        demo_machine_def heap_new_def Let_def del: upt_rec_numeral)
qed

lemma raw_demo_in_read: "raw_run B fuel (demo_machine bound) ((demo_machine bound)\<lparr>k_pc := InRead\<rparr>)"
proof -
  let ?m = "demo_machine bound"
  have "raw_step B fuel ?m (?m\<lparr>k_pc := Locking\<rparr>)"
    using raw_step.enter[of ?m B fuel] by (simp add: demo_machine_def live_def Let_def)
  moreover have "raw_step B fuel (?m\<lparr>k_pc := Locking\<rparr>) (?m\<lparr>k_pc := InRead\<rparr>)"
    using raw_step.lock[of "?m\<lparr>k_pc := Locking\<rparr>" B fuel] by (simp add: demo_machine_def opened_def live_def Let_def)
  ultimately show ?thesis by (meson raw_run.refl raw_run.step)
qed

theorem packets_in_order_witness:
  "\<exists>m0 m bss css. start_raw demo_resolver (demo_os False) (Some demo_ifs) [] demo_heap = Inr (Inr m0)
     \<and> raw_run darwin_bpf 2 m0 m \<and> k_reads m = [concat (map capture_bytes demo_captures)]
     \<and> subseq bss (k_reads m) \<and> list_all2 (batch_of darwin_bpf 2) bss css \<and> k_packets m = concat (map (map c_ip) css)"
proof -
  let ?bs = "concat (map capture_bytes demo_captures)"
  let ?m = "(demo_machine False)\<lparr>k_pc := InRead\<rparr>"
  let ?p = "Ptr 1 0"
  have len: "length ?bs = 116" by (simp add: demo_captures_def demo_capture_def capture_bytes_def)
  have "in_bounds (fst (heap_new demo_heap 128)) ?p (length ?bs)"
    unfolding len by (simp add: in_bounds_def heap_new_def demo_heap_def del: upt_rec_numeral)
  then obtain h where st: "store_bytes (fst (heap_new demo_heap 128)) ?p ?bs = Inr h" by (auto simp: store_bytes_ok)
  have buf: "rs_buf (k_impl ?m) = Some ?p" "rs_bufLen (k_impl ?m) = 128" "k_heap ?m = fst (heap_new demo_heap 128)"
    by (simp_all add: demo_machine_def Let_def heap_new_def demo_heap_def del: upt_rec_numeral)
  let ?r = "(k_impl ?m)\<lparr>rs_readableLen := int (length ?bs)\<rparr>"
  have "finish_read (k_impl ?m) (k_heap ?m) (Some ?bs) = Inr (?r, h)"
    unfolding finish_read_def buf using st len by (auto simp: Let_def simp del: concat_eq_Nil_conv)
  moreover have "pending (?m\<lparr>k_impl := ?r, k_heap := h\<rparr>) = [?bs]"
    using load_store_same[OF st] buf len by (simp add: pending_def consumable_def)
  moreover have "k_reads ?m = []" by (simp add: demo_machine_def Let_def)
  ultimately obtain m where m: "read_done ?m (Some ?bs) = Inr m" "k_reads m = [?bs]"
    by (simp add: read_done_def Let_def)
  have "raw_step darwin_bpf 2 ?m m"
    using raw_step.reads[of ?m darwin_bpf 2 "Some ?bs"] m(1) by (simp add: demo_machine_def live_def Let_def)
  with raw_demo_in_read have run: "raw_run darwin_bpf 2 (demo_machine False) m" by (rule raw_run.step)
  have "batch_of darwin_bpf 2 ?bs demo_captures"
    using demo_captures_ok by (simp add: batch_of_def) (simp add: demo_captures_def)
  with m(2) have "\<forall>bs\<in>set (k_reads m). \<exists>cs. batch_of darwin_bpf 2 bs cs" by auto
  from packets_in_order[OF raw_demo_started run this] raw_demo_started run m(2) show ?thesis by blast
qed

text \<open>A reader about to read, with a byte that no handler has consumed.\<close>

definition demo_pending :: machine where
  "demo_pending = \<lparr>k_if = \<lparr>if_name = [101], if_address = 0\<rparr>,
     k_impl = \<lparr>rs_fd = 7, rs_bufLen = 8, rs_buf = Some (Ptr 0 0), rs_readableLen = 1\<rparr>,
     k_heap = demo_heap, k_reading = True, k_pc = Locking, k_posted = 1,
     k_packets = [], k_reads = [[0]], k_done = [], k_fault = None\<rparr>"

theorem unread_batch_lost_witness:
  "\<exists>m2. raw_run darwin_bpf 9 demo_pending m2 \<and> k_reads m2 = [[0], [1, 2]] \<and> k_posted m2 = 2
    \<and> (\<forall>m3. raw_run darwin_bpf 9 m2 m3 \<longrightarrow> (\<exists>new. k_reads m3 = [0] # [1, 2] # new \<and> subseq (k_done m3) ([1, 2] # new)))"
proof -
  have "pending demo_pending = [[0]]"
    by (simp add: pending_def demo_pending_def consumable_def load_bytes_def in_bounds_def demo_heap_def slice_def)
  from unread_batch_lost[OF _ _ _ _ _ _ this, of "Ptr 0 0" "[1, 2]" darwin_bpf 9]
  show ?thesis by (auto simp: demo_pending_def opened_def in_bounds_def demo_heap_def live_def)
qed

theorem empty_read_ends_reader_witness:
  "\<exists>m. read_done (demo_pending\<lparr>k_pc := InRead\<rparr>) None = Inr m \<and> k_pc m = InWait
    \<and> (\<forall>m'. raw_run darwin_bpf 9 m m' \<longrightarrow> k_pc m' \<in> {InWait, Notified} \<and> k_reads m' = [[0]])"
proof -
  let ?m0 = "demo_pending\<lparr>k_pc := InRead\<rparr>"
  obtain m where m: "read_done ?m0 None = Inr m" "k_pc m = InWait"
    by (simp add: read_done_def finish_read_def after_read_def demo_pending_def consumable_def Let_def)
  have "k_pc m' \<in> {InWait, Notified} \<and> k_reads m' = [[0]]" if "raw_run darwin_bpf 9 m m'" for m'
    using empty_read_ends_reader[OF _ _ m(1) _ that] by (simp add: demo_pending_def)
  with m show ?thesis by blast
qed

theorem stop_frees_buffer_in_use_witness:
  "(\<exists>m1 m2. raw_step darwin_bpf 9 demo_pending m1 \<and> raw_step darwin_bpf 9 m1 m2 \<and> k_fault m2 = Some OutOfBounds)
    \<and> (\<exists>m1. raw_step darwin_bpf 9 (demo_pending\<lparr>k_pc := InRead\<rparr>) m1
      \<and> k_fault (outcome m1 (read_done m1 (Some [5]))) = Some OutOfBounds
      \<and> k_fault (outcome m1 (read_done m1 (Some []))) = None)"
proof
  have "live demo_pending" "rs_buf (k_impl demo_pending) = Some (Ptr 0 0)"
    "blocks (k_heap demo_pending) (blk (Ptr 0 0)) \<noteq> None" "k_pc demo_pending \<noteq> InRead" "0 < k_posted demo_pending"
    "consumable (k_impl demo_pending)"
    by (simp_all add: demo_pending_def demo_heap_def consumable_def live_def)
  with stop_frees_buffer_in_use[of demo_pending "Ptr 0 0" 9 darwin_bpf]
  show "\<exists>m1 m2. raw_step darwin_bpf 9 demo_pending m1 \<and> raw_step darwin_bpf 9 m1 m2 \<and> k_fault m2 = Some OutOfBounds" by auto
next
  let ?m = "demo_pending\<lparr>k_pc := InRead\<rparr>"
  have "live ?m" "rs_buf (k_impl ?m) = Some (Ptr 0 0)" "blocks (k_heap ?m) (blk (Ptr 0 0)) \<noteq> None" "0 < (9 :: nat)"
    and m: "k_pc ?m = InRead" "rs_bufLen (k_impl ?m) = 8"
    by (simp_all add: demo_pending_def demo_heap_def live_def)
  from stop_frees_buffer_in_use[OF this(1-4), of darwin_bpf] m(1)
  obtain m1 where m1: "raw_step darwin_bpf 9 ?m m1" and
    f: "\<forall>got. k_fault (outcome m1 (read_done m1 got)) = (case got of None \<Rightarrow> None
      | Some bs \<Rightarrow> if take (nat (rs_bufLen (k_impl ?m))) bs = [] then None else Some OutOfBounds)" by auto
  from f[rule_format, of "Some [5]"] f[rule_format, of "Some []"] m1
  show "\<exists>m1. raw_step darwin_bpf 9 ?m m1
    \<and> k_fault (outcome m1 (read_done m1 (Some [5]))) = Some OutOfBounds
    \<and> k_fault (outcome m1 (read_done m1 (Some []))) = None"
    unfolding m(2) by (intro exI[of _ m1]) simp
qed

end
