(* ===== verification/ServerMain.thy ===== *)
theory ServerMain
  imports ServerSafety RawReader
begin

text \<open>
  \<^verbatim>\<open>server/main.cc\<close>, and \<open>TunnelServer::start\<close> with the raw socket it starts: the server as it is
  put together and configured.
\<close>

section \<open>The program\<close>

definition main_config :: server_config where
  "main_config = \<lparr>cf_listenPort = 8080, cf_portFrom = 64335, cf_portTo = 64995, cf_maxSessions = 10,
     cf_key = map of_char ''1234567890123456'', cf_iv = map of_char ''6543210987654321''\<rparr>"

text \<open>
  \<open>start\<close>: the raw socket is started first, on any interface; the server then gets the address
  of that interface and receives. The memory of the two is one up to here; after it, the
  device buffer belongs to the raw socket, and packets reach the server by its handler.
\<close>

definition start_tunnel_server :: "resolver \<Rightarrow> bpf_os \<Rightarrow> ifaddr list option \<Rightarrow> ('ep, 'c, 'j, 'r) server \<Rightarrow>
    (raw_error + ('ep, 'c, 'j, 'r) server \<times> machine) res" where
  "start_tunnel_server R os addrs s =
     rbind (start_raw R os addrs [] (sv_heap s)) (\<lambda>x.
       case x of
         Inl e \<Rightarrow> Inr (Inl e)
       | Inr m \<Rightarrow>
           rbind (start_server (set_heap s (k_heap m)) (if_address (k_if m))) (\<lambda>s'. Inr (Inr (s', m))))"

text \<open>
  \<open>_context.run()\<close>, at the end of \<open>start\<close>, runs the handlers of the events as they come. It
  returns when the context is stopped or has nothing more to wait for: no receive, no send and no
  operation of a call. A handler that the reader of the raw socket has posted is left out here; it
  could let \<open>run\<close> go on for one more round.
\<close>

definition out_of_work :: "('ep, 'c, 'j, 'r) server \<Rightarrow> bool" where
  "out_of_work s \<longleftrightarrow> \<not> sv_running s
     \<or> sv_receiving s = None \<and> sv_sending s = [] \<and> r_pending (sv_rpc s) = []"

fun run_server :: "'c cryptopp \<Rightarrow> 'j json_lib \<Rightarrow> ('ep::linorder, 'c, 'j, 'r) server \<Rightarrow> 'ep server_event list \<Rightarrow>
    ('ep, 'c, 'j, 'r) server res" where
  "run_server lib J s [] = Inr s"
| "run_server lib J s (e # es) =
     (if out_of_work s then Inr s else rbind (server_step lib J s e) (\<lambda>s'. run_server lib J s' es))"

text \<open>The faults that are exceptions, all of them of classes derived from \<open>std::exception\<close>.\<close>

definition is_exception :: "fault \<Rightarrow> bool" where
  "is_exception f \<longleftrightarrow> f \<in> {BadFunctionCall, OutOfRange, LibraryException}"

text \<open>
  \<open>main\<close>, up to the end of the events that come. An exception out of \<open>start\<close>, be it of the raw
  socket or of a handler that \<open>run\<close> has called, makes it return 1; otherwise it serves, or returns 0
  when \<open>run\<close> returns. After that the server is destroyed, and with it the thread of the raw socket, if
  it was started: nothing joins it, so that its destructor calls \<open>std::terminate\<close>. \<open>Ended\<close> has
  the code that \<open>main\<close> returns and whether that happens then. The constructor of the server is
  not guarded. The pool has the default of 32 buffers a chunk.
\<close>

datatype ('ep, 'c, 'j, 'r) program =
    Ended int bool
  | Serving "('ep, 'c, 'j, 'r) server" machine

definition server_main :: "'c cryptopp \<Rightarrow> ('r \<Rightarrow> nat \<Rightarrow> bytes \<times> 'r) \<Rightarrow> 'j json_lib \<Rightarrow> resolver \<Rightarrow> bpf_os \<Rightarrow>
    ifaddr list option \<Rightarrow> heap \<Rightarrow> 'ep::linorder \<Rightarrow> u16 \<Rightarrow> u8 \<Rightarrow> u32 \<Rightarrow> nat \<Rightarrow> 'r \<Rightarrow> 'ep server_event list \<Rightarrow>
    ('ep, 'c, 'j, 'r) program res" where
  "server_main lib gen J R os addrs h ep cid err addr now r es =
     rbind (newServer lib gen main_config h (newPool 32) ep cid err addr now r) (\<lambda>s.
       case start_tunnel_server R os addrs s of
         Inl f \<Rightarrow> if is_exception f then Inr (Ended 1 False) else Inl f
       | Inr (Inl _) \<Rightarrow> Inr (Ended 1 False)
       | Inr (Inr (s', m)) \<Rightarrow>
           (case run_server lib J s' es of
              Inl f \<Rightarrow> if is_exception f then Inr (Ended 1 True) else Inl f
            | Inr s'' \<Rightarrow> Inr (if out_of_work s'' then Ended 0 True else Serving s'' m)))"

section \<open>What it does\<close>

lemma newServer_heap:
  "newServer lib gen cf h p ep cid err addr now r = Inr s \<Longrightarrow>
     newServer lib gen cf h' p ep cid err addr now r = Inr (set_heap s h')"
  by (auto simp: newServer_def res_iffs set_heap_def newRpcProtocol_def newRpc_def)






text \<open>What never ends in an exception.\<close>

definition no_throw :: "'a res \<Rightarrow> bool" where
  "no_throw m \<longleftrightarrow> (\<forall>f. m = Inl f \<longrightarrow> \<not> is_exception f)"

lemma no_throw_Inr [simp]: "no_throw (Inr x)"
  by (simp add: no_throw_def)

lemma no_throw_rbind: "no_throw m \<Longrightarrow> (\<And>x. no_throw (f x)) \<Longrightarrow> no_throw (rbind m f)"
  by (cases m) (simp_all add: no_throw_def)

lemma no_throw_memory [simp]: "no_throw (load_bytes h p n)" "no_throw (store_bytes h p bs)"
  by (simp_all add: no_throw_def load_bytes_def store_bytes_def is_exception_def)

lemma no_throw_fields [simp]: "no_throw (load8 h p)" "no_throw (load16 h p)" "no_throw (load32 h p)"
  by (simp_all add: load8_def load16_def load32_def no_throw_rbind)

lemma no_throw_views [simp]: "no_throw (mkTcp h ip)" "no_throw (mkUdp h ip)"
proof -
  have p: "no_throw (ip4_payload h ip)"
    by (simp add: ip4_payload_def ip4_headerLen_def ip4_totalLen_def no_throw_rbind)
  show "no_throw (mkTcp h ip)" unfolding mkTcp_def
    by (intro no_throw_rbind p) (simp add: no_throw_def is_exception_def split: option.split)
  show "no_throw (mkUdp h ip)" unfolding mkUdp_def
    by (intro no_throw_rbind p) (simp add: no_throw_def is_exception_def split: option.split)
qed




lemma server_started: "server_inv s \<Longrightarrow> sv_running s \<Longrightarrow> out_of_work s \<longleftrightarrow> sv_receiving s = None"
  by (auto simp: out_of_work_def server_inv_def server_core_def quiet_def)







section \<open>What a call does to it\<close>

text \<open>The key of the calls is that of the configuration, before and after the start.\<close>

lemma transport_key:
  assumes "newServer lib gen cf h p ep cid err addr now r = Inr s0" "cipher_ok lib (cf_key cf) (cf_iv cf)"
    and "start_server (set_heap s0 h') addr' = Inr s1"
  shows "ready lib (cf_key cf) (cf_iv cf) (r_cryptor (sv_rpc s1))"
proof -
  obtain c where "newCryptor lib (cf_key cf) (cf_iv cf) = Inr c" "ready lib (cf_key cf) (cf_iv cf) c"
    using newCryptor_ready[OF assms(2)] by blast
  with assms(1,3) show ?thesis
    by (auto simp: newServer_def newRpcProtocol_def newRpc_def start_server_def arm_receive_def set_pool_def set_heap_def res_iffs)
qed

text \<open>\<open>_requestHandler\<close> throws for every call, as there is no handler to ask.\<close>

lemma unassigned_throws:
  assumes "readStringFromFront h b = Inr (b', str)" and x: "j_is_object J (j_parse J str)"
    "j_is_integer J (j_field J (j_parse J str) ''type'')" "j_number J (j_field J (j_parse J str) ''type'') = Some n"
    and n: "n \<in> {CONNECT, PING, DISCONNECT}"
  shows "\<exists>f. requestHandler J unassigned b c (h, t) = Inl f \<and> is_exception f"
proof -
  have "\<exists>f. dispatch_request J unassigned (cb_endpoint c) (j_parse J str) (p_owner t) = Inl f \<and> is_exception f"
  proof -
    consider "n = CONNECT" | "n \<noteq> CONNECT" "n = DISCONNECT" | "n \<noteq> CONNECT" "n \<noteq> DISCONNECT" "n = PING"
      using n by blast
    then show ?thesis
      by cases (simp_all add: dispatch_request_def x(3) thrown_def unassigned_def is_exception_def split: option.split)
  qed
  then obtain f where "dispatch_request J unassigned (cb_endpoint c) (j_parse J str) (p_owner t) = Inl f" "is_exception f"
    by blast
  then show ?thesis using assms(1) x(1,2) by (simp add: requestHandler_def Let_def)
qed

lemma call_throws:
  assumes J: "json_ok J" and rdy: "ready lib k v (r_cryptor r)" and snd: "ready lib k v c"
    and inb: "buf_wf inb" "buf_in (r_heap r) inb" "content (r_heap r) inb = Inr (packet lib c REQUEST pid (frame req))"
    and req: "j_dump J x = Some req" "req \<noteq> []" "length req < 65536"
    and x: "j_is_object J x" "j_is_integer J (j_field J x ''type'')" "j_number J (j_field J x ''type'') = Some n"
      "n \<in> {CONNECT, PING, DISCONNECT}"
    and new: "r_replying r = []"
  shows "\<exists>f. feed lib (protocol_callbacks J unassigned) r peer inb = Inl f \<and> is_exception f"
proof -
  have cb: "onRequest (protocol_callbacks J unassigned) = Some (requestHandler J unassigned)"
    by (simp add: protocol_callbacks_def)
  have none: "smap_find (<) (IdEndpoint peer pid) (r_replying r) = None" using new by simp
  obtain h b c0 where q: "content h b = Inr (frame req)" "buf_wf b" "buf_in h b"
    and fed: "feed lib (protocol_callbacks J unassigned) r peer inb
      = rbind (requestHandler J unassigned b c0 (h, r_client r)) (\<lambda>(accepted, c', h', t).
          finish_request lib (protocol_callbacks J unassigned)
            (r\<lparr>r_blocks := r_blocks r @ [Some c'], r_heap := h', r_client := t\<rparr>)
            peer pid (length (r_blocks r)) accepted c')"
    using feed_request_packet[OF rdy snd inb none cb] by blast
  obtain b' where str: "readStringFromFront h b = Inr (b', req)"
    using read_document[OF q(2,3,1) req(2,3)] by blast
  have doc: "j_parse J req = x" using json_laws(7)[OF J req(1)] .
  obtain f where "requestHandler J unassigned b c0 (h, r_client r) = Inl f" "is_exception f"
    using unassigned_throws[OF str, where J = J, unfolded doc, OF x] by blast
  then show ?thesis by (simp add: fed)
qed

text \<open>The datagram of a call in the buffer that \<open>feed\<close> gets.\<close>

lemma call_buffer:
  assumes mem: "in_bounds h d 1600" and st: "store_bytes h0 (padd d 50) (c # w) = Inr h" and w: "w \<noteq> []" "length w < 1550"
  shows "buf_wf (moveFrontBoundary (setSize (receive_buffer d) (of_nat (Suc (length w)))) 1)"
    "buf_in h (moveFrontBoundary (setSize (receive_buffer d) (of_nat (Suc (length w)))) 1)"
    "content h (moveFrontBoundary (setSize (receive_buffer d) (of_nat (Suc (length w)))) 1) = Inr w"
proof -
  let ?b = "moveFrontBoundary (setSize (receive_buffer d) (of_nat (Suc (length w)))) 1"
  have steps: "?b = foldl buf_step (mkBuffer d 1600) [MoveFront 50, SetSize (of_nat (Suc (length w))), MoveFront 1]"
    by (simp add: receive_buffer_def)
  have wf0: "buf_wf (mkBuffer d 1600)"
    by (simp add: mkBuffer_def buf_wf_def win_def win_ok_def)
  show "buf_wf ?b" unfolding steps by (simp add: buf_step_wf wf0 del: buf_step.simps)
  have bi: "b_internal ?b = d" "b_internalSize ?b = 1600"
    by (simp_all add: moveFrontBoundary_def setSize_def receive_buffer_simps)
  then show "buf_in h ?b" using mem by (simp add: buf_in_def)
  have b: "b_data ?b = padd d 51" "b_size ?b = of_nat (length w)"
    using receive_buffer_sized[of "Suc (length w)" d] w by simp_all
  have "load_bytes h (padd d 50) (Suc (length w)) = Inr (c # w)" using load_store_same[OF st] by simp
  from load_bytes_sub[OF this, of 1 "length w"] have "load_bytes h (padd d 51) (length w) = Inr w"
    by (simp add: slice_def)
  moreover have "unat (of_nat (length w) :: u32) = length w" using w by (simp add: unat_of_nat)
  ultimately show "content h ?b = Inr w" unfolding content_def b by simp
qed

text \<open>
  C39. A call ends the program. Once it has been started, one datagram that holds any connect, ping
  or disconnect call under the key of the configuration, behind one more byte that marks it as
  a request, ends it with an exception: there is no handler for the call, the exception leaves
  the event loop, \<open>main\<close> returns 1, and the destructor of the thread terminates the program.
\<close>

theorem call_ends_program:
  assumes lib: "random_ok lib gen" "cipher_ok lib (cf_key main_config) (cf_iv main_config)" and J: "json_ok J"
    and started: "start_raw R os addrs [] h = Inr (Inr m)" "heap_wf (k_heap m)"
    and sender: "ready lib (cf_key main_config) (cf_iv main_config) c"
    and req: "j_dump J x = Some req" "req \<noteq> []" "length req \<le> 1544"
    and x: "j_is_object J x" "j_is_integer J (j_field J x ''type'')" "j_number J (j_field J x ''type'') = Some n"
      "n \<in> {CONNECT, PING, DISCONNECT}"
  shows "(server_main lib gen J R os addrs h ep cid err addr now r
      (Datagram peer (REQUEST # packet lib c REQUEST pid (frame req)) # es) :: ('ep::linorder, 'c, 'j, 'r) program res)
    = Inr (Ended 1 True)"
proof -
  let ?w = "packet lib c REQUEST pid (frame req)"
  obtain s0 :: "('ep, 'c, 'j, 'r) server" where
    s0: "newServer lib gen main_config h (newPool 32) ep cid err addr now r = Inr s0" "sv_heap s0 = h"
    using newServer_total[OF lib, of h "newPool 32" ep cid err addr now r] by blast
  have own: "pool_owns 1600 (k_heap m, newPool 32) {#}"
    using started(2) by (simp add: pool_owns_def newPool_def slots_def)
  obtain s1 d where s1: "start_server (set_heap s0 (k_heap m)) (if_address (k_if m)) = Inr s1" "server_inv s1"
    "sv_receiving s1 = Some (receive_buffer d)" "sv_running s1"
    using started_server[OF newServer_heap[OF s0(1)] own] by blast
  have key: "ready lib (cf_key main_config) (cf_iv main_config) (r_cryptor (sv_rpc s1))"
    using transport_key[OF s0(1) lib(2) s1(1)] .
  have len: "length ?w = length req + 5" using length_packet[OF sender] by (simp add: frame_def)
  then have w: "?w \<noteq> []" "length ?w < 1550" using req(3) by auto
  have mark: "mark (sv_heap s1) (receive_buffer d) (REQUEST # ?w) = Inr REQUEST" by (simp add: mark_def)
  obtain h1 where h1: "store_bytes (sv_heap s1) (padd d 50) (take 1550 (REQUEST # ?w)) = Inr h1" "in_bounds h1 d 1600"
    "load8 h1 (padd d 50) = Inr REQUEST"
    "server_step lib J s1 (Datagram peer (REQUEST # ?w))
      = onSocketReceive lib J ((set_heap s1 h1)\<lparr>sv_receiveEp := peer, sv_receiving := None\<rparr>) NoError
          (length (take 1550 (REQUEST # ?w))) (receive_buffer d)"
    using datagram_handled[OF s1(2,3,4) HOL.refl mark] by blast
  have whole: "take 1550 (REQUEST # ?w) = REQUEST # ?w" using w(2) by simp
  let ?r = "(sv_rpc s1)\<lparr>r_heap := h1\<rparr>"
  have "ready lib (cf_key main_config) (cf_iv main_config) (r_cryptor ?r)" "r_heap ?r = h1" using key by simp_all
  moreover have "r_replying ?r = []" using s1(2) by (simp add: server_inv_def server_core_def quiet_def)
  moreover have "length req < 65536" using req(3) by simp
  ultimately obtain f where f: "feed lib (protocol_callbacks J unassigned) ?r peer
      (moveFrontBoundary (setSize (receive_buffer d) (of_nat (Suc (length ?w)))) 1) = Inl f" "is_exception f"
    using call_throws[OF J _ sender, of ?r _ pid req x n peer] call_buffer[OF h1(2) h1(1)[unfolded whole] w] req(1,2) x
    by metis
  have "REQUEST \<noteq> TRANSMIT" "min (length ?w) 1549 = length ?w" using w(2) by (simp_all add: command_defs)
  then have "server_step lib J s1 (Datagram peer (REQUEST # ?w)) = Inl f"
    using h1(3,4) f(1) by (simp add: whole onSocketReceive_def failed_def receive_buffer_simps Let_def set_heap_def)
  moreover have "\<not> out_of_work s1" using s1(2-4) by (simp add: server_started)
  ultimately show ?thesis
    using s0 s1(1) started(1) f(2) by (simp add: server_main_def start_tunnel_server_def)
qed

theorem call_ends_program_witness:
  "\<exists>c. (server_main feedback_lib demo_random demo_json demo_resolver (demo_os True) (Some demo_ifs) demo_heap (0 :: nat) 0 0 0 0 0
      [Datagram 5 (REQUEST # packet feedback_lib c REQUEST 1 (frame [2])), Tick 4]
      :: (nat, u8 \<times> u8, _, nat) program res) = Inr (Ended 1 True)"
proof -
  have key: "cipher_ok feedback_lib (cf_key main_config) (cf_iv main_config)"
    by (simp add: main_config_def feedback_ok)
  obtain c where c: "ready feedback_lib (cf_key main_config) (cf_iv main_config) c"
    using newCryptor_ready[OF key] by blast
  have wf: "heap_wf (k_heap (demo_machine True))"
    by (simp add: demo_machine_def Let_def heap_new_def heap_wf_def demo_heap_def)
  let ?x = "j_object demo_json [(''type'', j_of_number demo_json PING)]"
  have x: "j_is_object demo_json ?x" "j_is_integer demo_json (j_field demo_json ?x ''type'')"
    "j_number demo_json (j_field demo_json ?x ''type'') = Some PING" "PING \<in> {CONNECT, PING, DISCONNECT}"
    using json_laws[OF demo_json_ok] by simp_all
  have "[2 :: u8] \<noteq> []" "length [2 :: u8] \<le> 1544" by simp_all
  from call_ends_program[OF demo_random_ok key demo_json_ok raw_demo_started wf c demo_dumps(3) this x,
      where peer = "5 :: nat" and pid = 1 and es = "[Tick 4]" and ep = "0 :: nat" and r = 0]
  show ?thesis by blast
qed

end
