(* ===== verification/Tunnel.thy ===== *)
theory Tunnel
  imports BufferPool
begin

text \<open>
  \<^verbatim>\<open>libtun/include/libtun/Tunnel.h\<close> and \<^verbatim>\<open>libtun/include/libtun/impl/Tunnel/Tunnel_darwin.h\<close>: the tunnel
  device of the system. What the system answers to each call is an argument; the descriptors
  the process holds are a set that \<open>socket\<close> adds to and \<open>close\<close> takes from.
\<close>

section \<open>Opening and closing\<close>

record tunnel =
  t_fd :: int
  t_ifName :: bytes

definition newTunnel :: tunnel where
  "newTunnel = \<lparr>t_fd = - 1, t_ifName = []\<rparr>"

text \<open>The exceptions of \<open>openTunnel\<close>, without the text of \<open>errno\<close>.\<close>

datatype tunnel_error = SocketFailed | ControlInfoFailed | ConnectFailed | NameFailed

text \<open>
  The answers of the system: of \<open>socket\<close>; of \<open>ioctl\<close> with the identifier it stores; of
  \<open>connect\<close> to unit 0 of a control; of \<open>getsockopt\<close> with the name it stores, up to its null.
\<close>

record utun =
  u_socket :: int
  u_ctlinfo :: "int \<times> u32"
  u_connect :: "u32 \<Rightarrow> int"
  u_ifname :: "int \<times> bytes"

definition openTunnel :: "utun \<Rightarrow> tunnel \<Rightarrow> int set \<Rightarrow> (tunnel_error + unit) \<times> tunnel \<times> int set" where
  "openTunnel os t fds =
     (let t1 = t\<lparr>t_fd := u_socket os\<rparr> in
      if u_socket os = - 1 then (Inl SocketFailed, t1, fds)
      else
        let fds1 = insert (u_socket os) fds in
        if fst (u_ctlinfo os) = - 1 then (Inl ControlInfoFailed, t1, fds1)
        else if u_connect os (snd (u_ctlinfo os)) = - 1 then (Inl ConnectFailed, t1, fds1)
        else if fst (u_ifname os) \<noteq> 0 then (Inl NameFailed, t1, fds1)
        else (Inr (), t1\<lparr>t_ifName := snd (u_ifname os)\<rparr>, fds1))"

definition closeTunnel :: "tunnel \<Rightarrow> int set \<Rightarrow> tunnel \<times> int set" where
  "closeTunnel t fds = (if t_fd t > 0 then (t\<lparr>t_fd := - 1\<rparr>, fds - {t_fd t}) else (t, fds))"

text \<open>\<open>Tunnel::open\<close>, which catches the exception.\<close>

definition tunnel_open :: "utun \<Rightarrow> tunnel \<Rightarrow> int set \<Rightarrow> bool \<times> tunnel \<times> int set" where
  "tunnel_open os t fds =
     (case openTunnel os t fds of
        (Inl _, t1, fds1) \<Rightarrow> (let (t2, fds2) = closeTunnel t1 fds1 in (False, t2, fds2))
      | (Inr _, t1, fds1) \<Rightarrow> (True, t1, fds1))"

section \<open>Packets\<close>

text \<open>
  \<open>read\<close>: \<open>got\<close> is what the system has for the call, \<open>None\<close> for the answer -1. The length is
  converted to \<open>uint32_t\<close>.
\<close>

definition tunnel_read :: "tunnel \<Rightarrow> heap \<Rightarrow> buffer \<Rightarrow> bytes option \<Rightarrow> (heap \<times> buffer) res" where
  "tunnel_read t h buf got =
     (if t_fd t \<le> 0 then Inr (h, buf)
      else case got of
        None \<Rightarrow> Inr (h, moveFrontBoundary (setSize buf (- 1)) 4)
      | Some bs \<Rightarrow>
          let xs = take (unat (b_size buf)) bs in
          rbind (store_bytes h (b_data buf) xs) (\<lambda>h'.
            Inr (h', moveFrontBoundary (setSize buf (of_nat (length xs))) 4)))"

text \<open>
  \<open>*((uint32_t*)data[0]) = 4\<close> takes the first byte itself for an address. Addresses below 256
  belong to no block.
\<close>

definition store_at_byte :: "heap \<Rightarrow> u8 \<Rightarrow> u32 \<Rightarrow> heap res" where
  "store_at_byte h a v = Inl (if a = 0 then NullPointer else OutOfBounds)"

definition tunnel_write :: "tunnel \<Rightarrow> heap \<Rightarrow> buffer \<Rightarrow> (bytes \<Rightarrow> int) \<Rightarrow> (heap \<times> int) res" where
  "tunnel_write t h buf sys =
     (if prefixSpace buf < 4 \<or> t_fd t \<le> 0 then Inr (h, 0)
      else
        let b = moveFrontBoundary buf (- 4) in
        rbind (load8 h (b_data b)) (\<lambda>a.
        rbind (store_at_byte h a 4) (\<lambda>h'.
        rbind (load_bytes h' (b_data b) (unat (b_size b))) (\<lambda>bs. Inr (h', sys bs)))))"

section \<open>What they do\<close>

text \<open>
  Opening the tunnel, whatever the system answers at each of the four calls: it succeeds
  exactly if all of them do, and then holds the new descriptor and the name of the device. If
  it fails, the descriptors of the process are those from before and the object is closed.
  A tunnel that was open before loses its descriptor without closing it.
\<close>

theorem tunnel_open_result:
  assumes "u_socket os \<notin> fds" "u_socket os = - 1 \<or> 0 < u_socket os" "tunnel_open os t fds = (ok, t', fds')"
  shows "(ok \<longleftrightarrow> 0 < u_socket os \<and> fst (u_ctlinfo os) \<noteq> - 1 \<and> u_connect os (snd (u_ctlinfo os)) \<noteq> - 1
             \<and> fst (u_ifname os) = 0)
    \<and> (ok \<longrightarrow> t' = \<lparr>t_fd = u_socket os, t_ifName = snd (u_ifname os)\<rparr> \<and> fds' = insert (u_socket os) fds)
    \<and> (\<not> ok \<longrightarrow> t_fd t' = - 1 \<and> fds' = fds)
    \<and> (0 < t_fd t \<and> t_fd t \<in> fds \<longrightarrow> t_fd t \<in> fds' \<and> t_fd t' \<noteq> t_fd t)"
  using assms by (cases t) (auto simp: tunnel_open_def openTunnel_def closeTunnel_def Let_def split: if_splits)

definition demo_utun :: utun where
  "demo_utun = \<lparr>u_socket = 5, u_ctlinfo = (0, 2), u_connect = (\<lambda>_. 0), u_ifname = (0, [117, 116, 117, 110])\<rparr>"

theorem tunnel_open_result_witness:
  "tunnel_open demo_utun newTunnel {0, 1, 2} = (True, \<lparr>t_fd = 5, t_ifName = [117, 116, 117, 110]\<rparr>, {0, 1, 2, 5})
   \<and> tunnel_open (demo_utun\<lparr>u_ifname := (- 1, [])\<rparr>) newTunnel {0, 1, 2} = (False, newTunnel, {0, 1, 2})"
proof -
  obtain ok t fds where 1: "tunnel_open demo_utun newTunnel {0, 1, 2} = (ok, t, fds)" by (metis prod_cases3)
  obtain ok' t' fds' where 2: "tunnel_open (demo_utun\<lparr>u_ifname := (- 1, [])\<rparr>) newTunnel {0, 1, 2} = (ok', t', fds')"
    by (metis prod_cases3)
  have "t_ifName t' = []"
    using 2 by (auto simp: tunnel_open_def openTunnel_def closeTunnel_def newTunnel_def demo_utun_def)
  moreover have "ok" "t = \<lparr>t_fd = 5, t_ifName = [117, 116, 117, 110]\<rparr>" "fds = {0, 1, 2, 5}"
    using tunnel_open_result[OF _ _ 1] by (auto simp: demo_utun_def)
  moreover have "\<not> ok'" "t_fd t' = - 1" "fds' = {0, 1, 2}"
    using tunnel_open_result[OF _ _ 2] by (auto simp: demo_utun_def)
  ultimately show ?thesis using 1 2 by (simp add: newTunnel_def)
qed

lemma setSize_content:
  assumes "buf_wf b" "buf_in h b" "store_bytes h (b_data b) xs = Inr h'" "length xs \<le> unat (b_size b)"
  shows "buf_wf (setSize b (of_nat (length xs))) \<and> buf_in h' (setSize b (of_nat (length xs)))
    \<and> content h' (setSize b (of_nat (length xs))) = Inr xs"
proof -
  have n: "length xs < 2 ^ LENGTH(32)" using assms(4) unsigned_less[of "b_size b", where 'a = nat] by simp
  then have u: "unat (of_nat (length xs) :: u32) = length xs" by (simp add: unat_of_nat)
  have "int (length xs) \<le> int (unat (b_size b))" using assms(4) by (rule of_nat_mono)
  then have "int (length xs) \<le> w_len (win b)" by (simp add: win_def)
  moreover have "uint (of_nat (length xs) :: u32) = int (length xs)" by (simp only: uint_nat u)
  ultimately have "of_nat (length xs) \<le> b_internalSize b - prefixSpace b"
    using uint_spaces(6)[OF assms(1)] buf_wf_numbers[OF assms(1)] unfolding word_le_def by linarith
  then have "setSize b (of_nat (length xs)) = b\<lparr>b_size := of_nat (length xs)\<rparr>" by (simp add: setSize_def)
  then show ?thesis
    using buf_step_wf[OF assms(1), of "SetSize (of_nat (length xs))"] assms(2) buf_in_store[OF assms(3)]
      load_store_same[OF assms(3)] u by (simp add: content_def buf_in_def)
qed

lemma setSize_too_much: "buf_wf b \<Longrightarrow> setSize b (- 1) = b"
proof -
  assume b: "buf_wf b"
  have "uint (- 1 :: u32) = 4294967295" by (simp add: unsigned_minus_1_eq_mask mask_eq_exp_minus_1)
  then have "\<not> (- 1 :: u32) \<le> b_internalSize b - prefixSpace b"
    using uint_spaces(6)[OF b] buf_wf_numbers[OF b] unfolding word_le_def by linarith
  then show ?thesis by (simp add: setSize_def)
qed

lemma tunnel_read_bytes:
  assumes "buf_wf b" "buf_in h b" "0 < t_fd t" "length bs \<le> unat (b_size b)"
  shows "\<exists>h' b'. tunnel_read t h b (Some bs) = Inr (h', b')
    \<and> content h' b' = Inr (if length bs < 4 then bs else drop 4 bs)"
proof -
  obtain cs where "load_bytes h (b_data b) (unat (b_size b)) = Inr cs"
    using content_ok[OF assms(1,2)] by (auto simp: content_def)
  then have "in_bounds h (padd (b_data b) (int 0)) (length bs)"
    using assms(4) by (intro in_bounds_part[of h "b_data b" "unat (b_size b)"]) (simp_all add: load_bytes_ok)
  then obtain h' where h': "store_bytes h (b_data b) bs = Inr h'" by (auto simp: store_bytes_ok)
  let ?b = "setSize b (of_nat (length bs))"
  note c = setSize_content[OF assms(1,2) h' assms(4)]
  have read: "tunnel_read t h b (Some bs) = Inr (h', moveFrontBoundary ?b 4)"
    using assms(3,4) h' by (simp add: tunnel_read_def Let_def)
  show ?thesis
  proof (cases "length bs < 4")
    case True
    have "length bs = unat (b_size ?b)" using content_ok[of ?b h'] c by auto
    then have "uint (b_size ?b) = int (length bs)" by (simp only: uint_nat)
    then have "sint (b_size ?b) = int (length bs)"
      using uint_spaces(5)[of ?b] c by (simp add: win_def)
    then have "moveFrontBoundary ?b 4 = ?b" using True by (simp add: moveFrontBoundary_def)
    with read c True show ?thesis by simp
  next
    case False
    have "content h' ?b = Inr (take 4 bs @ drop 4 bs)" using c by simp
    from moveFront_content[OF _ _ this, of 4] c False have "content h' (moveFrontBoundary ?b 4) = Inr (drop 4 bs)"
      by simp
    with read False show ?thesis by simp
  qed
qed

text \<open>
  C22. Packets of an open tunnel. A packet that is read comes without the four bytes the system
  puts in front of it. Fewer than four bytes come as they are. A failed read is not seen: what
  the buffer held before, without its first four bytes, is returned for the packet. No packet
  is ever written: \<open>write\<close> returns 0 without a call to the system, or faults.
\<close>

theorem tunnel_transfers:
  assumes "buf_wf b" "buf_in h b" "0 < t_fd t"
  shows "(\<forall>bs. length bs \<le> unat (b_size b) \<longrightarrow> (\<exists>h' b'. tunnel_read t h b (Some bs) = Inr (h', b')
             \<and> content h' b' = Inr (if length bs < 4 then bs else drop 4 bs)))
    \<and> (\<forall>xs ys. content h b = Inr (xs @ ys) \<and> length xs = 4 \<longrightarrow>
         (\<exists>b'. tunnel_read t h b None = Inr (h, b') \<and> content h b' = Inr ys))
    \<and> (\<forall>sys. if prefixSpace b < 4 then tunnel_write t h b sys = Inr (h, 0)
         else \<exists>f. tunnel_write t h b sys = Inl f)"
proof (intro conjI allI impI)
  show "\<exists>h' b'. tunnel_read t h b (Some bs) = Inr (h', b') \<and> content h' b' = Inr (if length bs < 4 then bs else drop 4 bs)"
    if "length bs \<le> unat (b_size b)" for bs using tunnel_read_bytes[OF assms that] .
next
  fix xs ys
  assume "content h b = Inr (xs @ ys) \<and> length xs = 4"
  with moveFront_content[OF assms(1,2), of xs ys 4] assms
  show "\<exists>b'. tunnel_read t h b None = Inr (h, b') \<and> content h b' = Inr ys"
    by (simp add: tunnel_read_def setSize_too_much)
next
  fix sys
  show "if prefixSpace b < 4 then tunnel_write t h b sys = Inr (h, 0) else \<exists>f. tunnel_write t h b sys = Inl f"
    using assms(3) by (cases "load8 h (b_data (moveFrontBoundary b (- 4)))")
      (auto simp: tunnel_write_def store_at_byte_def Let_def)
qed

theorem tunnel_transfers_witness:
  "\<exists>h b. tunnel_read (newTunnel\<lparr>t_fd := 5\<rparr>) demo_heap demo_buffer (Some [0, 0, 0, 2, 69, 0, 1]) = Inr (h, b)
     \<and> content h b = Inr [69, 0, 1]
     \<and> (\<exists>f. tunnel_write (newTunnel\<lparr>t_fd := 5\<rparr>) demo_heap (moveFrontBoundary demo_buffer 10) (\<lambda>bs. int (length bs)) = Inl f)"
proof -
  let ?t = "newTunnel\<lparr>t_fd := 5\<rparr>" and ?b = "moveFrontBoundary demo_buffer 10"
  have t: "0 < t_fd ?t" by simp
  have "length [0, 0, 0, 2, 69, 0, 1 :: u8] \<le> unat (b_size demo_buffer)" by (simp add: demo_buffer_def mkBuffer_def)
  from conjunct1[OF tunnel_transfers[OF demo_ok(1,2) t], THEN spec, THEN mp, OF this]
  obtain h b where "tunnel_read ?t demo_heap demo_buffer (Some [0, 0, 0, 2, 69, 0, 1]) = Inr (h, b)"
    "content h b = Inr [69, 0, 1]" by auto
  moreover have b: "buf_wf ?b" "buf_in demo_heap ?b"
    using buf_step_wf[of demo_buffer "MoveFront 10"] demo_ok buf_step_frame[of demo_buffer "MoveFront 10"]
    by (simp_all add: buf_in_def)
  moreover have "w_pre (win ?b) = 10" "\<not> prefixSpace ?b < 4"
    by (simp_all add: demo_buffer_def mkBuffer_def moveFrontBoundary_def prefixSpace_def win_def)
  ultimately show ?thesis using tunnel_transfers[OF b t] by auto
qed

end
