(* ===== verification/ParseConfig.thy ===== *)
theory ParseConfig
  imports Prelude
begin

text \<open>
  \<^verbatim>\<open>libtun/include/libtun/impl/parser/ParseConfig.h\<close> and \<^verbatim>\<open>ParseConfig.cc\<close>: the reader of
  configuration files, sections of \<open>key=value\<close> lines. Positions in strings are \<open>int\<close>s in the
  code, so lines are taken to be shorter than 2 GiB; \<open>std::string::npos\<close> is then -1, and a
  negative count given to \<open>substr\<close> is a \<open>size_t\<close> beyond the end of every string.
\<close>

section \<open>Strings\<close>

text \<open>\<open>find\<close> of one character, as an \<open>int\<close>.\<close>

definition find_char :: "char \<Rightarrow> string \<Rightarrow> int" where
  "find_char c s = (if c \<in> set s then int (length (takeWhile (\<lambda>x. x \<noteq> c) s)) else - 1)"

definition substr :: "string \<Rightarrow> int \<Rightarrow> int \<Rightarrow> string res" where
  "substr s pos n =
     (if pos < 0 \<or> int (length s) < pos then Inl OutOfRange
      else if n < 0 then Inr (drop (nat pos) s)
      else Inr (take (nat n) (drop (nat pos) s)))"

text \<open>\<open>replace(pos, 1, "")\<close>.\<close>

definition erase_at :: "string \<Rightarrow> int \<Rightarrow> string" where
  "erase_at s pos = take (nat pos) s @ drop (Suc (nat pos)) s"

section \<open>Lines\<close>

definition IsSpace :: "char \<Rightarrow> bool" where
  "IsSpace c \<longleftrightarrow> c = CHR '' '' \<or> c = CHR 0x09"

definition IsCommentChar :: "char \<Rightarrow> bool" where
  "IsCommentChar c \<longleftrightarrow> c = CHR ''#''"

text \<open>The two loops of \<open>Trim\<close>, up from an index and down from one.\<close>

function scan_up :: "string \<Rightarrow> nat \<Rightarrow> nat" where
  "scan_up s i = (if i < length s then if \<not> IsSpace (s ! i) then i else scan_up s (Suc i) else i)"
  by auto
termination by (relation "measure (\<lambda>(s, i). length s - i)") auto

fun scan_down :: "string \<Rightarrow> nat \<Rightarrow> int" where
  "scan_down s 0 = - 1"
| "scan_down s (Suc i) = (if \<not> IsSpace (s ! i) then int i else scan_down s i)"

definition Trim :: "string \<Rightarrow> string res" where
  "Trim s =
     (if s = [] then Inr s
      else
        let start_pos = scan_up s 0 in
        if start_pos = length s then Inr []
        else
          let end_pos = scan_down s (length s) in
          substr s (int start_pos) (end_pos - int start_pos + 1))"

text \<open>
  \<open>AnalyseLine\<close>: whether the line says something, and the new values of the three references.
  \<open>value_of\<close> is the end of it, from the untrimmed key and value on.
\<close>

definition drop_char :: "char \<Rightarrow> string \<Rightarrow> string" where
  "drop_char c s = (let pos = find_char c s in if pos > 0 then erase_at s pos else s)"

definition key_value :: "string \<Rightarrow> string \<Rightarrow> string \<Rightarrow> (bool \<times> string \<times> string \<times> string) res" where
  "key_value sect key0 val0 =
     rbind (Trim key0) (\<lambda>key.
       if key = [] then Inr (False, sect, key, val0)
       else rbind (Trim val0) (\<lambda>val.
              Inr (True, sect, key, drop_char (CHR 0x0A) (drop_char (CHR 0x0D) val))))"

definition split_line :: "string \<Rightarrow> int \<Rightarrow> string \<Rightarrow> string \<Rightarrow> string \<Rightarrow> (bool \<times> string \<times> string \<times> string) res" where
  "split_line line end_pos sect key val =
     rbind (substr line 0 (0 + 1 - end_pos)) (\<lambda>new_line.
       let pos = find_char (CHR ''='') new_line in
       if pos = - 1 then Inr (False, sect, key, val)
       else rbind (substr new_line 0 pos) (\<lambda>key0.
            rbind (substr new_line (pos + 1) (end_pos + 1 - (pos + 1))) (\<lambda>val0. key_value sect key0 val0)))"

definition AnalyseLine :: "string \<Rightarrow> string \<Rightarrow> string \<Rightarrow> string \<Rightarrow> (bool \<times> string \<times> string \<times> string) res" where
  "AnalyseLine line sect key val =
     (if line = [] then Inr (False, sect, key, val)
      else
        let pos = find_char (CHR ''#'') line;
            end_pos = (if pos \<noteq> - 1 then pos - 1 else int (length line) - 1);
            s_startpos = find_char (CHR ''['') line; s_endpos = find_char (CHR '']'') line
        in if pos = 0 then Inr (False, sect, key, val)
           else if s_startpos \<noteq> - 1 \<and> s_endpos \<noteq> - 1 then
             rbind (substr line (s_startpos + 1) (s_endpos - 1)) (\<lambda>sect'. Inr (True, sect', key, val))
           else split_line line end_pos sect key val)"

section \<open>The file\<close>

text \<open>\<open>std::map\<close> of strings, ordered by \<open>operator <\<close> of strings, a strict total order.\<close>

type_synonym keys = "string \<rightharpoonup> string"
type_synonym settings = "string \<rightharpoonup> keys"

text \<open>The locals of \<open>ReadConfig\<close> and \<open>settings_\<close>; \<open>key\<close> and \<open>value\<close> are cleared after each line.\<close>

record reader =
  settings :: settings
  rd_section :: string
  rd_keys :: keys

definition read_line :: "reader \<Rightarrow> string \<Rightarrow> reader res" where
  "read_line r line =
     rbind (AnalyseLine line (rd_section r) [] []) (\<lambda>(ok, sect, key, val).
       if \<not> ok then Inr (r\<lparr>rd_section := sect\<rparr>)
       else case settings r sect of
         Some _ \<Rightarrow>
           let k_v = (rd_keys r)(key \<mapsto> val) in
           Inr (r\<lparr>rd_section := sect, rd_keys := k_v, settings := (settings r)(sect \<mapsto> k_v)\<rparr>)
       | None \<Rightarrow>
           Inr (r\<lparr>rd_section := sect, rd_keys := Map.empty, settings := (settings r)(sect \<mapsto> Map.empty)\<rparr>))"

fun read_lines :: "reader \<Rightarrow> string list \<Rightarrow> reader res" where
  "read_lines r [] = Inr r"
| "read_lines r (l # ls) = rbind (read_line r l) (\<lambda>r'. read_lines r' ls)"

text \<open>\<open>getline\<close> until it fails: the lines of a stream, the last one only if it is not empty.\<close>

function getlines :: "string \<Rightarrow> string list" where
  "getlines s =
     (if s = [] then []
      else takeWhile (\<lambda>c. c \<noteq> CHR 0x0A) s # getlines (drop 1 (dropWhile (\<lambda>c. c \<noteq> CHR 0x0A) s)))"
  by auto
termination
proof (relation "measure length", goal_cases)
  case (2 s)
  then show ?case using length_dropWhile_le[of "\<lambda>c. c \<noteq> CHR 0x0A" s] by (cases s) (auto simp: Suc_le_eq)
qed simp

text \<open>\<open>ReadConfig\<close>: the file is its content, or \<open>None\<close> if it cannot be opened.\<close>

definition ReadConfig :: "string option \<Rightarrow> (bool \<times> settings) res" where
  "ReadConfig file =
     (case file of
        None \<Rightarrow> Inr (False, Map.empty)
      | Some content \<Rightarrow>
          rbind (read_lines \<lparr>settings = Map.empty, rd_section = [], rd_keys = Map.empty\<rparr> (getlines content)) (\<lambda>r.
            Inr (True, settings r)))"

section \<open>Lookups\<close>

definition lookup :: "settings \<Rightarrow> string \<Rightarrow> string \<Rightarrow> string option" where
  "lookup st sect item = (case st sect of None \<Rightarrow> None | Some k_v \<Rightarrow> k_v item)"

definition ReadString :: "settings \<Rightarrow> string \<Rightarrow> string \<Rightarrow> string \<Rightarrow> string" where
  "ReadString st sect item default_value =
     (case lookup st sect item of None \<Rightarrow> default_value | Some v \<Rightarrow> v)"

text \<open>
  \<open>atoi\<close>: blanks, a sign, digits, and whatever follows is ignored; the result outside the
  range of \<open>int\<close> is undefined (\<open>None\<close>).
\<close>

definition is_blank :: "char \<Rightarrow> bool" where
  "is_blank c \<longleftrightarrow> c = CHR '' '' \<or> (9 \<le> (of_char c :: nat) \<and> (of_char c :: nat) \<le> 13)"

definition digit :: "char \<Rightarrow> nat option" where
  "digit c = (let n = of_char c :: nat in if 48 \<le> n \<and> n \<le> 57 then Some (n - 48) else None)"

fun digits :: "nat \<Rightarrow> string \<Rightarrow> nat" where
  "digits acc [] = acc"
| "digits acc (c # cs) = (case digit c of None \<Rightarrow> acc | Some d \<Rightarrow> digits (10 * acc + d) cs)"

definition atoi :: "string \<Rightarrow> int option" where
  "atoi s =
     (let t = dropWhile is_blank s;
          v = (case t of [] \<Rightarrow> 0
                | c # cs \<Rightarrow> if c = CHR ''-'' then - int (digits 0 cs)
                            else if c = CHR ''+'' then int (digits 0 cs) else int (digits 0 t))
      in if - 2147483648 \<le> v \<and> v < 2147483648 then Some v else None)"

definition ReadInt :: "settings \<Rightarrow> string \<Rightarrow> string \<Rightarrow> int \<Rightarrow> int option" where
  "ReadInt st sect item default_value =
     (case lookup st sect item of None \<Rightarrow> Some default_value | Some v \<Rightarrow> atoi v)"

text \<open>The conversion of \<open>ReadFloat\<close>, \<open>atof\<close> and the rounding to \<open>float\<close>, is an argument.\<close>

definition ReadFloat :: "(string \<Rightarrow> 'f) \<Rightarrow> settings \<Rightarrow> string \<Rightarrow> string \<Rightarrow> 'f \<Rightarrow> 'f" where
  "ReadFloat atof st sect item default_value =
     (case lookup st sect item of None \<Rightarrow> default_value | Some v \<Rightarrow> atof v)"

end
