(* ===== verification/ConfigSpec.thy ===== *)
theory ConfigSpec
  imports ParseConfig
begin

text \<open>
  What the configuration reader of \<^verbatim>\<open>ParseConfig.cc\<close> does: trimming against its specification,
  every kind of line, and whole files that are written in its format.
\<close>

declare scan_up.simps [simp del] getlines.simps [simp del]

section \<open>Trim\<close>

definition strip :: "string \<Rightarrow> string" where
  "strip s = rev (dropWhile IsSpace (rev (dropWhile IsSpace s)))"

lemma scan_up_eq: "i \<le> length s \<Longrightarrow> scan_up s i = i + length (takeWhile IsSpace (drop i s))"
proof (induction s i rule: scan_up.induct)
  case (1 s i)
  show ?case
  proof (cases "i < length s")
    case True
    then have "drop i s = s ! i # drop (Suc i) s" by (rule Cons_nth_drop_Suc[symmetric])
    with True 1 show ?thesis by (simp add: scan_up.simps[of s i])
  next
    case False
    with 1 have "i = length s" by simp
    then show ?thesis by (simp add: scan_up.simps[of s "length s"])
  qed
qed

lemma scan_down_eq: "n \<le> length s \<Longrightarrow> scan_down s n = int (length (dropWhile IsSpace (rev (take n s)))) - 1"
  by (induction s n rule: scan_down.induct) (simp_all add: take_Suc_conv_app_nth)

lemma take_stripped: "take (length (dropWhile P (rev t))) t = rev (dropWhile P (rev t))"
  by (simp add: dropWhile_eq_drop rev_drop)

lemma Trim_strip: "Trim s = Inr (strip s)"
proof (cases "\<forall>c\<in>set s. IsSpace c")
  case True
  then have "scan_up s 0 = length s" by (simp add: scan_up_eq takeWhile_eq_all_conv[THEN iffD2])
  moreover have "strip s = []" using True by (simp add: strip_def dropWhile_eq_Nil_conv[THEN iffD2])
  ultimately show ?thesis by (simp add: Trim_def)
next
  case False
  let ?a = "length (takeWhile IsSpace s)"
  let ?t = "drop ?a s"
  have split: "s = takeWhile IsSpace s @ ?t" by (metis append_take_drop_id takeWhile_eq_take)
  have t: "dropWhile IsSpace s = ?t" by (rule dropWhile_eq_drop)
  obtain x where x: "x \<in> set ?t" "\<not> IsSpace x"
  proof -
    have "dropWhile IsSpace s \<noteq> []" using False by (simp add: dropWhile_eq_Nil_conv)
    then have "hd (dropWhile IsSpace s) \<in> set ?t" "\<not> IsSpace (hd (dropWhile IsSpace s))"
      using hd_dropWhile[of IsSpace s] t by (auto intro: hd_in_set)
    with that show ?thesis by blast
  qed
  have "rev s = rev ?t @ rev (takeWhile IsSpace s)" by (subst split) simp
  then have down: "dropWhile IsSpace (rev s) = dropWhile IsSpace (rev ?t) @ rev (takeWhile IsSpace s)"
    using x by (simp add: dropWhile_append1[of x])
  have a: "?a < length s" using x(1) by (cases "?a < length s") simp_all
  let ?d = "dropWhile IsSpace (rev ?t)"
  have "scan_down s (length s) = int (length ?d + ?a) - 1"
    by (simp add: scan_down_eq down)
  moreover have "scan_up s 0 = ?a" by (simp add: scan_up_eq)
  moreover have "take (length ?d) ?t = strip s"
    unfolding strip_def t by (rule take_stripped)
  ultimately show ?thesis
    using a by (auto simp: Trim_def substr_def Let_def)
qed

lemma strip_ends: "strip s = [] \<or> \<not> IsSpace (hd (strip s)) \<and> \<not> IsSpace (last (strip s))"
proof (cases "strip s = []")
  case False
  let ?u = "dropWhile IsSpace s"
  have s: "strip s = take (length (dropWhile IsSpace (rev ?u))) ?u" by (simp add: strip_def take_stripped)
  with False have ne: "dropWhile IsSpace (rev ?u) \<noteq> []" "?u \<noteq> []" by auto
  have "last (strip s) = hd (dropWhile IsSpace (rev ?u))" using ne by (simp add: strip_def last_rev)
  moreover have "hd (strip s) = hd ?u" using s ne by simp
  ultimately show ?thesis using hd_dropWhile[of IsSpace] ne by simp
qed simp

lemma strip_same: "s = [] \<or> \<not> IsSpace (hd s) \<and> \<not> IsSpace (last s) \<Longrightarrow> strip s = s"
proof -
  assume a: "s = [] \<or> \<not> IsSpace (hd s) \<and> \<not> IsSpace (last s)"
  then have "dropWhile IsSpace s = s" by (cases s) auto
  moreover have "dropWhile IsSpace (rev s) = rev s" using a by (cases s rule: rev_cases) auto
  ultimately show ?thesis by (simp add: strip_def)
qed

text \<open>
  \<open>Trim\<close> is the removal of the blanks and tabs at both ends, on every string: its two loops
  with their \<open>int\<close> indices compute the reference, and \<open>substr\<close> is never called out of range.
  What it returns has no blank at either end and is not changed by trimming again.
\<close>

lemma Trim_correct:
  "Trim s = Inr (rev (dropWhile IsSpace (rev (dropWhile IsSpace s))))
   \<and> (\<exists>t. Trim s = Inr t \<and> Trim t = Inr t \<and> (t = [] \<or> \<not> IsSpace (hd t) \<and> \<not> IsSpace (last t)))"
  using strip_ends[of s] strip_same[OF strip_ends[of s]] by (auto simp: Trim_strip strip_def[symmetric])

section \<open>Lines\<close>

lemma find_char_none [simp]: "find_char c s = - 1 \<longleftrightarrow> c \<notin> set s"
  by (simp add: find_char_def)

lemma find_char_first: "c \<notin> set k \<Longrightarrow> find_char c (k @ c # v) = int (length k)"
proof -
  assume "c \<notin> set k"
  then have "takeWhile (\<lambda>x. x \<noteq> c) (k @ c # v) = k" by (induction k) auto
  then show ?thesis by (simp add: find_char_def)
qed

lemma find_char_range: "c \<in> set s \<Longrightarrow> 0 \<le> find_char c s \<and> find_char c s < int (length s)"
proof -
  assume c: "c \<in> set s"
  then obtain k v where "s = k @ c # v" "c \<notin> set k" by (metis split_list_first)
  then show ?thesis using find_char_first[of c k v] by simp
qed

lemma substr_take: "substr s 0 n = Inr (if n < 0 then s else take (nat n) s)"
  by (simp add: substr_def)

lemma substr_total: "0 \<le> pos \<Longrightarrow> pos \<le> int (length s) \<Longrightarrow> \<exists>t. substr s pos n = Inr t"
  by (simp add: substr_def)

lemma key_value_eq: "key_value sect key0 val0 = Inr (if strip key0 = [] then (False, sect, [], val0)
    else (True, sect, strip key0, drop_char (CHR 0x0A) (drop_char (CHR 0x0D) (strip val0))))"
  by (simp add: key_value_def Trim_strip)

lemma AnalyseLine_total: "\<exists>x. AnalyseLine line sect key val = Inr x"
proof -
  have split: "\<exists>x. split_line line e sect key val = Inr x" for e
  proof -
    obtain l where l: "substr line 0 (0 + 1 - e) = Inr l" using substr_take by blast
    show ?thesis
    proof (cases "CHR ''='' \<in> set l")
      case True
      then have "0 \<le> find_char (CHR ''='') l + 1" "find_char (CHR ''='') l + 1 \<le> int (length l)"
        using find_char_range[OF True] by auto
      then obtain v where "substr l (find_char (CHR ''='') l + 1) (e + 1 - (find_char (CHR ''='') l + 1)) = Inr v"
        using substr_total by blast
      with l show ?thesis by (simp add: split_line_def Let_def key_value_eq) (auto simp: substr_take)
    qed (use l in \<open>auto simp: split_line_def\<close>)
  qed
  show ?thesis
  proof (cases "CHR ''['' \<in> set line")
    case True
    then obtain t where "substr line (find_char (CHR ''['') line + 1) (find_char (CHR '']'') line - 1) = Inr t"
      using find_char_range[OF True] substr_total by force
    with split show ?thesis by (auto simp: AnalyseLine_def Let_def)
  qed (use split in \<open>auto simp: AnalyseLine_def Let_def\<close>)
qed

text \<open>A line with a setting, and perhaps a comment behind it.\<close>

lemma analyse_setting:
  assumes k: "CHR ''='' \<notin> set k" "CHR ''#'' \<notin> set k" and v: "CHR ''#'' \<notin> set v"
    and rest: "rest = [] \<or> (\<exists>c. rest = CHR ''#'' # c)"
    and brackets: "CHR ''['' \<notin> set (k @ CHR ''='' # v @ rest) \<or> CHR '']'' \<notin> set (k @ CHR ''='' # v @ rest)"
    and long: "2 \<le> length k + length v"
  shows "AnalyseLine (k @ CHR ''='' # v @ rest) sect key val = key_value sect k v"
proof -
  let ?line = "k @ CHR ''='' # v @ rest"
  let ?pos = "find_char (CHR ''#'') ?line"
  let ?e = "if ?pos \<noteq> - 1 then ?pos - 1 else int (length ?line) - 1"
  have e: "?e = int (length k + length v)" "?pos \<noteq> 0"
  proof -
    have "?e = int (length k + length v) \<and> ?pos \<noteq> 0"
    proof (cases "rest = []")
      case True
      then have "?pos = - 1" using k v by simp
      with True show ?thesis by (simp del: find_char_none)
    next
      case False
      then obtain c where "?line = (k @ CHR ''='' # v) @ CHR ''#'' # c" using rest by auto
      then have "?pos = int (length (k @ CHR ''='' # v))"
        using find_char_first[of "CHR ''#''" "k @ CHR ''='' # v" c] k v by simp
      then show ?thesis by simp
    qed
    then show "?e = int (length k + length v)" "?pos \<noteq> 0" by blast+
  qed
  have pos: "find_char (CHR ''='') ?line = int (length k)" using k(1) by (rule find_char_first)
  have "substr ?line (int (length k) + 1) (?e + 1 - (int (length k) + 1)) = Inr v"
    unfolding e(1) by (simp add: substr_def nat_add_distrib)
  moreover have "substr ?line 0 (0 + 1 - ?e) = Inr ?line" unfolding e(1) using long by (simp add: substr_take)
  moreover have "substr ?line 0 (int (length k)) = Inr k" by (simp add: substr_take)
  ultimately have "split_line ?line ?e sect key val = key_value sect k v"
    by (simp only: split_line_def rbind_Inr Let_def pos) simp
  moreover have "\<not> (find_char (CHR ''['') ?line \<noteq> - 1 \<and> find_char (CHR '']'') ?line \<noteq> - 1)"
    using brackets by (simp only: find_char_none) blast
  moreover have "?line \<noteq> []" by simp
  ultimately show ?thesis
    unfolding AnalyseLine_def Let_def using e(2) by (simp only: if_False)
qed

text \<open>A value without line ends, as every value of a line of a text file is.\<close>

lemma drop_char_none [simp]: "c \<notin> set s \<Longrightarrow> drop_char c s = s"
  by (simp add: drop_char_def find_char_def)

lemma set_strip: "set (strip s) \<subseteq> set s"
  by (auto simp: strip_def dest!: set_dropWhileD)

section \<open>Files\<close>

lemma getlines_line: "CHR 0x0A \<notin> set l \<Longrightarrow> getlines (l @ CHR 0x0A # s) = l # getlines s"
proof -
  assume "CHR 0x0A \<notin> set l"
  then have "takeWhile (\<lambda>c. c \<noteq> CHR 0x0A) (l @ CHR 0x0A # s) = l"
    "dropWhile (\<lambda>c. c \<noteq> CHR 0x0A) (l @ CHR 0x0A # s) = CHR 0x0A # s"
    by (induction l) auto
  then show ?thesis by (subst getlines.simps) simp
qed

lemma getlines_lines:
  "\<forall>l\<in>set ls. CHR 0x0A \<notin> set l \<Longrightarrow> getlines (concat (map (\<lambda>l. l @ [CHR 0x0A]) ls) @ s) = ls @ getlines s"
  by (induction ls) (simp_all add: getlines_line)

lemma read_lines_append: "read_lines r (ls @ ms) = rbind (read_lines r ls) (\<lambda>r'. read_lines r' ms)"
  by (induction ls arbitrary: r) (simp_all add: rbind_assoc)

lemma read_line_total: "\<exists>r'. read_line r l = Inr r'"
  using AnalyseLine_total[of l "rd_section r" "[]" "[]"]
  by (auto simp: read_line_def Let_def split: option.split prod.split)

lemma read_lines_total: "\<exists>r'. read_lines r ls = Inr r'"
proof (induction ls arbitrary: r)
  case (Cons l ls)
  obtain r1 where "read_line r l = Inr r1" using read_line_total by blast
  with Cons.IH[of r1] show ?case by simp
qed simp

lemma ReadConfig_total: "\<exists>st. ReadConfig file = Inr (file \<noteq> None, st)"
proof (cases "file")
  case (Some content)
  obtain r where "read_lines \<lparr>settings = Map.empty, rd_section = [], rd_keys = Map.empty\<rparr> (getlines content) = Inr r"
    using read_lines_total by blast
  with Some show ?thesis by (simp add: ReadConfig_def)
qed (simp add: ReadConfig_def)

text \<open>
  C21. What a line says. A setting, with or without a comment behind it, gives the trimmed text
  before the first \<open>=\<close> and the trimmed text between it and the comment, unless the key is
  blank; lines of at most two characters are lost, because the count given to \<open>substr\<close> is
  the negation of what is meant and is positive for them. No line makes the reader throw,
  and so no file does.
\<close>

theorem AnalyseLine_correct:
  "(\<exists>st. ReadConfig file = Inr (file \<noteq> None, st)) \<and> (\<exists>x. AnalyseLine line sect key val = Inr x)
   \<and> (CHR ''='' \<notin> set k \<and> CHR ''#'' \<notin> set k \<and> CHR ''#'' \<notin> set v \<and> CHR 0x0A \<notin> set v \<and> CHR 0x0D \<notin> set v
      \<and> CHR ''['' \<notin> set (k @ CHR ''='' # v @ rest) \<and> (rest = [] \<or> hd rest = CHR ''#'') \<longrightarrow>
      (2 \<le> length k + length v \<longrightarrow> AnalyseLine (k @ CHR ''='' # v @ rest) sect key val
        = Inr (if strip k = [] then (False, sect, [], v) else (True, sect, strip k, strip v)))
      \<and> (length k + length v < 2 \<longrightarrow> AnalyseLine (k @ CHR ''='' # v) sect key val \<in>
          {Inr (False, sect, key, val), Inr (False, sect, [], [])}))"
proof (intro conjI impI)
  show "\<exists>st. ReadConfig file = Inr (file \<noteq> None, st)" by (rule ReadConfig_total)
next
  show "\<exists>x. AnalyseLine line sect key val = Inr x" by (rule AnalyseLine_total)
next
  assume a: "CHR ''='' \<notin> set k \<and> CHR ''#'' \<notin> set k \<and> CHR ''#'' \<notin> set v \<and> CHR 0x0A \<notin> set v \<and> CHR 0x0D \<notin> set v
      \<and> CHR ''['' \<notin> set (k @ CHR ''='' # v @ rest) \<and> (rest = [] \<or> hd rest = CHR ''#'')" and "2 \<le> length k + length v"
  then have "AnalyseLine (k @ CHR ''='' # v @ rest) sect key val = key_value sect k v"
    by (intro analyse_setting) (cases rest; auto)+
  moreover have "CHR 0x0A \<notin> set (strip v)" "CHR 0x0D \<notin> set (strip v)" using a set_strip[of v] by auto
  ultimately show "AnalyseLine (k @ CHR ''='' # v @ rest) sect key val
      = Inr (if strip k = [] then (False, sect, [], v) else (True, sect, strip k, strip v))"
    by (simp add: key_value_eq)
next
  assume a: "CHR ''='' \<notin> set k \<and> CHR ''#'' \<notin> set k \<and> CHR ''#'' \<notin> set v \<and> CHR 0x0A \<notin> set v \<and> CHR 0x0D \<notin> set v
      \<and> CHR ''['' \<notin> set (k @ CHR ''='' # v @ rest) \<and> (rest = [] \<or> hd rest = CHR ''#'')" and "length k + length v < 2"
  then consider "k = []" "v = []" | x where "k = [x]" "v = []" | y where "k = []" "v = [y]"
    by (cases k; cases v) (auto simp: less_Suc_eq)
  then show "AnalyseLine (k @ CHR ''='' # v) sect key val \<in> {Inr (False, sect, key, val), Inr (False, sect, [], [])}"
    using a by cases (auto simp: AnalyseLine_def find_char_def split_line_def substr_def key_value_eq strip_def Let_def)
qed

theorem AnalyseLine_correct_witness:
  "AnalyseLine ''port = 53 # dns'' ''srv'' [] [] = Inr (True, ''srv'', ''port'', ''53'')
   \<and> AnalyseLine ''p='' ''srv'' [] [] = Inr (False, ''srv'', [], [])"
proof -
  have "AnalyseLine (''port '' @ CHR ''='' # '' 53 '' @ ''# dns'') ''srv'' [] []
      = Inr (True, ''srv'', strip ''port '', strip '' 53 '')"
    using AnalyseLine_correct[of None "[]" "''srv''" "[]" "[]" "''port ''" "'' 53 ''" "''# dns''"]
    by (simp add: strip_def IsSpace_def)
  moreover have "AnalyseLine (''p'' @ CHR ''='' # []) ''srv'' [] [] = Inr (False, ''srv'', [], [])"
    using AnalyseLine_correct[of None "[]" "''srv''" "[]" "[]" "''p''" "[]" "[]"] by simp
  ultimately show ?thesis by (simp add: strip_def IsSpace_def)
qed

text \<open>How a configuration is written: a header for each section, then its settings.\<close>

type_synonym config = "(string \<times> (string \<times> string) list) list"

definition header_line :: "string \<Rightarrow> string" where
  "header_line n = CHR ''['' # n @ [CHR '']'']"

definition setting_line :: "string \<times> string \<Rightarrow> string" where
  "setting_line = (\<lambda>(k, v). k @ CHR ''='' # v)"

definition config_lines :: "config \<Rightarrow> string list" where
  "config_lines cfg = concat (map (\<lambda>(n, kvs). header_line n # map setting_line kvs) cfg)"

text \<open>Names, keys and values that the format can hold.\<close>

definition plain_name :: "string \<Rightarrow> bool" where
  "plain_name n \<longleftrightarrow> CHR '']'' \<notin> set n \<and> CHR 0x0A \<notin> set n"

definition plain_setting :: "string \<times> string \<Rightarrow> bool" where
  "plain_setting = (\<lambda>(k, v). k \<noteq> [] \<and> \<not> IsSpace (hd k) \<and> \<not> IsSpace (last k)
     \<and> (v = [] \<or> \<not> IsSpace (hd v) \<and> \<not> IsSpace (last v)) \<and> 2 \<le> length k + length v
     \<and> CHR ''='' \<notin> set k \<and> (\<forall>c\<in>set (k @ v). c \<notin> {CHR ''#'', CHR ''['', CHR 0x0A, CHR 0x0D}))"

definition plain_config :: "config \<Rightarrow> bool" where
  "plain_config cfg \<longleftrightarrow> distinct (map fst cfg) \<and> (\<forall>(n, kvs)\<in>set cfg. plain_name n \<and> (\<forall>s\<in>set kvs. plain_setting s))"

lemma analyse_header:
  assumes "plain_name n"
  shows "AnalyseLine (header_line n) sect key val = Inr (True, n, key, val)"
proof -
  let ?l = "header_line n"
  have open0: "find_char (CHR ''['') ?l = 0" by (simp add: find_char_def header_line_def)
  have "CHR '']'' \<notin> set (CHR ''['' # n)" using assms by (simp add: plain_name_def)
  from find_char_first[OF this, of "[]"] have close: "find_char (CHR '']'') ?l = int (length n) + 1"
    by (simp add: header_line_def)
  have "find_char (CHR ''#'') ?l \<noteq> 0"
    by (simp add: find_char_def header_line_def)
  moreover have "substr ?l (0 + 1) (int (length n) + 1 - 1) = Inr n"
    by (simp add: substr_def header_line_def)
  moreover have "?l \<noteq> []" by (simp add: header_line_def)
  ultimately show ?thesis
    unfolding AnalyseLine_def Let_def open0 close by simp
qed

lemma analyse_plain:
  assumes "plain_setting (k, v)"
  shows "AnalyseLine (setting_line (k, v)) sect key val = Inr (True, sect, k, v)"
proof -
  have "AnalyseLine (k @ CHR ''='' # v @ []) sect key val = key_value sect k v"
    using assms by (intro analyse_setting) (auto simp: plain_setting_def)
  moreover have "strip k = k" "strip v = v" "CHR 0x0A \<notin> set v" "CHR 0x0D \<notin> set v" "k \<noteq> []"
    using assms strip_same by (auto simp: plain_setting_def)
  ultimately show ?thesis by (simp add: key_value_eq setting_line_def)
qed

lemma read_settings:
  assumes "settings r n = Some (rd_keys r)" "rd_section r = n" "\<forall>s\<in>set kvs. plain_setting s"
  shows "read_lines r (map setting_line kvs)
    = Inr (r\<lparr>rd_keys := rd_keys r ++ map_of (rev kvs), settings := (settings r)(n \<mapsto> rd_keys r ++ map_of (rev kvs))\<rparr>)"
  using assms
proof (induction kvs arbitrary: r)
  case Nil
  then show ?case by (cases r) (simp add: fun_upd_idem)
next
  case (Cons s kvs)
  obtain k v where s: "s = (k, v)" by fastforce
  let ?K = "(rd_keys r)(k \<mapsto> v)"
  let ?r = "r\<lparr>rd_keys := ?K, settings := (settings r)(n \<mapsto> ?K)\<rparr>"
  have same: "r\<lparr>rd_section := n\<rparr> = r" using Cons.prems(2) by (cases r) simp
  have "read_line r (setting_line s) = Inr (r\<lparr>rd_section := n\<rparr>\<lparr>rd_keys := ?K, settings := (settings r)(n \<mapsto> ?K)\<rparr>)"
    using Cons.prems analyse_plain[of k v n "[]" "[]"] s by (simp add: read_line_def Let_def)
  then have line: "read_line r (setting_line s) = Inr ?r" unfolding same .
  have K: "?K ++ map_of (rev kvs) = rd_keys r ++ map_of (rev (s # kvs))"
    by (simp add: s map_add_def fun_eq_iff split: option.split)
  have "read_lines ?r (map setting_line kvs)
      = Inr (?r\<lparr>rd_keys := rd_keys ?r ++ map_of (rev kvs), settings := (settings ?r)(n \<mapsto> rd_keys ?r ++ map_of (rev kvs))\<rparr>)"
    by (rule Cons.IH) (use Cons.prems in \<open>auto simp: fun_upd_def\<close>)
  then have "read_lines ?r (map setting_line kvs) = Inr (r\<lparr>rd_keys := ?K ++ map_of (rev kvs),
      settings := (settings r)(n \<mapsto> ?K ++ map_of (rev kvs))\<rparr>)" by simp
  then show ?case unfolding K using line by (simp add: fun_upd_def)
qed

lemma read_section:
  assumes "settings r n = None" "plain_name n" "\<forall>s\<in>set kvs. plain_setting s"
  shows "read_lines r (header_line n # map setting_line kvs)
    = Inr (r\<lparr>rd_section := n, rd_keys := map_of (rev kvs), settings := (settings r)(n \<mapsto> map_of (rev kvs))\<rparr>)"
proof -
  let ?r = "r\<lparr>rd_section := n, rd_keys := Map.empty, settings := (settings r)(n \<mapsto> Map.empty)\<rparr>"
  have "read_line r (header_line n) = Inr ?r"
    using assms(1) analyse_header[OF assms(2), of "rd_section r" "[]" "[]"] by (simp add: read_line_def)
  with read_settings[of ?r n kvs] assms(3) show ?thesis by simp
qed

definition config_settings :: "config \<Rightarrow> settings" where
  "config_settings cfg = map_of (map (\<lambda>(n, kvs). (n, map_of (rev kvs))) cfg)"

lemma config_settings_Cons: "config_settings ((n, kvs) # cfg) = (config_settings cfg)(n \<mapsto> map_of (rev kvs))"
  by (simp add: config_settings_def)

lemma read_config_lines:
  assumes "plain_config cfg" "\<forall>n\<in>fst ` set cfg. settings r n = None"
  shows "\<exists>r'. read_lines r (config_lines cfg) = Inr r' \<and> settings r' = settings r ++ config_settings cfg
    \<and> (cfg \<noteq> [] \<longrightarrow> rd_keys r' = map_of (rev (snd (last cfg))))"
  using assms
proof (induction cfg arbitrary: r)
  case Nil
  then show ?case by (simp add: config_lines_def config_settings_def)
next
  case (Cons x cfg)
  obtain n kvs where x: "x = (n, kvs)" by fastforce
  have c: "plain_name n" "\<forall>s\<in>set kvs. plain_setting s" "plain_config cfg" "n \<notin> fst ` set cfg"
    using Cons.prems(1) by (auto simp: plain_config_def x)
  let ?r = "r\<lparr>rd_section := n, rd_keys := map_of (rev kvs), settings := (settings r)(n \<mapsto> map_of (rev kvs))\<rparr>"
  have 1: "read_lines r (header_line n # map setting_line kvs) = Inr ?r"
    using Cons.prems(2) c by (intro read_section) (simp_all add: x)
  have lines: "config_lines (x # cfg) = (header_line n # map setting_line kvs) @ config_lines cfg"
    by (simp add: config_lines_def x)
  have "\<forall>m\<in>fst ` set cfg. settings ?r m = None" using Cons.prems(2) c(4) by auto
  from Cons.IH[OF c(3) this] obtain r' where r': "read_lines ?r (config_lines cfg) = Inr r'"
    "settings r' = settings ?r ++ config_settings cfg" "cfg \<noteq> [] \<longrightarrow> rd_keys r' = map_of (rev (snd (last cfg)))"
    by blast
  have "config_settings cfg n = None" using c(4) by (force simp: config_settings_def map_of_eq_None_iff)
  then have "settings ?r ++ config_settings cfg = settings r ++ config_settings (x # cfg)"
    by (auto simp: x config_settings_Cons map_add_def fun_eq_iff split: option.split)
  moreover have "rd_keys r' = map_of (rev (snd (last (x # cfg))))"
  proof (cases "cfg = []")
    case True
    then have "r' = ?r" using r'(1) by (simp add: config_lines_def)
    with True show ?thesis by (simp add: x)
  qed (use r'(3) in simp)
  ultimately show ?case unfolding lines read_lines_append 1 using r' by simp
qed

definition print_lines :: "string list \<Rightarrow> string" where
  "print_lines ls = concat (map (\<lambda>l. l @ [CHR 0x0A]) ls)"

lemma read_printed:
  assumes "\<forall>l\<in>set ls. CHR 0x0A \<notin> set l"
  shows "ReadConfig (Some (print_lines ls))
    = rbind (read_lines \<lparr>settings = Map.empty, rd_section = [], rd_keys = Map.empty\<rparr> ls) (\<lambda>r. Inr (True, settings r))"
  using getlines_lines[OF assms, of "[]"] by (simp add: ReadConfig_def print_lines_def getlines.simps[of "[]"])

lemma setting_line_end [simp]: "plain_setting s \<Longrightarrow> CHR 0x0A \<notin> set (setting_line s)"
  by (cases s) (auto simp: plain_setting_def setting_line_def)

lemma header_line_end [simp]: "plain_name n \<Longrightarrow> CHR 0x0A \<notin> set (header_line n)"
  by (auto simp: plain_name_def header_line_def)

lemma config_lines_end: "plain_config cfg \<Longrightarrow> \<forall>l\<in>set (config_lines cfg). CHR 0x0A \<notin> set l"
  by (fastforce simp: plain_config_def config_lines_def)

lemma lookup_config_settings:
  assumes "distinct (map fst cfg)" "(n, kvs) \<in> set cfg"
  shows "ReadString (config_settings cfg) n k d = (case map_of (rev kvs) k of None \<Rightarrow> d | Some v \<Rightarrow> v)"
proof -
  have "distinct (map fst (map (\<lambda>(n, kvs). (n, map_of (rev kvs))) cfg))"
    using assms(1) by (simp add: comp_def case_prod_beta)
  moreover have "(n, map_of (rev kvs)) \<in> set (map (\<lambda>(n, kvs). (n, map_of (rev kvs))) cfg)" using assms(2) by force
  ultimately have "config_settings cfg n = Some (map_of (rev kvs))"
    unfolding config_settings_def by (rule map_of_is_SomeI)
  then show ?thesis by (simp add: ReadString_def lookup_def)
qed

text \<open>
  C20. A configuration that is written line by line, each section under its own header, is read
  back: the settings are exactly the sections with, for each key, the value it was given last.
  \<open>ReadString\<close> then finds every value, and gives the default for a section that is not there.
\<close>

theorem config_roundtrip:
  assumes "plain_config cfg"
  shows "ReadConfig (Some (print_lines (config_lines cfg))) = Inr (True, config_settings cfg)
    \<and> (\<forall>(n, kvs)\<in>set cfg. \<forall>k d. ReadString (config_settings cfg) n k d
         = (case map_of (rev kvs) k of None \<Rightarrow> d | Some v \<Rightarrow> v))
    \<and> (\<forall>n k d. n \<notin> fst ` set cfg \<longrightarrow> ReadString (config_settings cfg) n k d = d)"
proof (intro conjI)
  let ?r = "\<lparr>settings = Map.empty, rd_section = [], rd_keys = Map.empty\<rparr>"
  obtain r' where "read_lines ?r (config_lines cfg) = Inr r'" "settings r' = config_settings cfg"
    using read_config_lines[OF assms, of ?r] by auto
  then show "ReadConfig (Some (print_lines (config_lines cfg))) = Inr (True, config_settings cfg)"
    by (simp add: read_printed[OF config_lines_end[OF assms]])
next
  show "\<forall>(n, kvs)\<in>set cfg. \<forall>k d. ReadString (config_settings cfg) n k d
      = (case map_of (rev kvs) k of None \<Rightarrow> d | Some v \<Rightarrow> v)"
    using assms lookup_config_settings by (auto simp: plain_config_def)
next
  show "\<forall>n k d. n \<notin> fst ` set cfg \<longrightarrow> ReadString (config_settings cfg) n k d = d"
    by (force simp: ReadString_def lookup_def config_settings_def dest: map_of_SomeD split: option.split)
qed

definition sample_config :: config where
  "sample_config = [(''net'', [(''mtu'', ''1400''), (''if'', ''en0'')]), (''srv'', [(''port'', ''53''), (''port'', ''54'')])]"

lemma sample_config_plain: "plain_config sample_config"
  by (simp add: sample_config_def plain_config_def plain_name_def plain_setting_def IsSpace_def)

theorem config_roundtrip_witness:
  "\<exists>st. ReadConfig (Some (print_lines [''[net]'', ''mtu=1400'', ''if=en0'', ''[srv]'', ''port=53'', ''port=54'']))
      = Inr (True, st)
    \<and> ReadString st ''net'' ''if'' [] = ''en0'' \<and> ReadString st ''srv'' ''port'' [] = ''54'' \<and> ReadInt st ''srv'' ''port'' 0 = Some 54"
proof (intro exI conjI)
  have "config_lines sample_config = [''[net]'', ''mtu=1400'', ''if=en0'', ''[srv]'', ''port=53'', ''port=54'']"
    by (simp add: sample_config_def config_lines_def header_line_def setting_line_def)
  with config_roundtrip[OF sample_config_plain]
  show "ReadConfig (Some (print_lines [''[net]'', ''mtu=1400'', ''if=en0'', ''[srv]'', ''port=53'', ''port=54'']))
      = Inr (True, config_settings sample_config)" by simp
qed (simp_all add: sample_config_def config_settings_def ReadString_def ReadInt_def lookup_def atoi_def is_blank_def digit_def)

text \<open>
  Where the reader does not keep to the sections of a file. A header that comes again, after
  the header of another section, gives its section the keys of that other one, with a key of no
  letters, in place of its own; settings after it are added to these. Settings before any
  header go to the section of no letters, and the first of them is lost.
\<close>

theorem sections_mixed_up:
  assumes "plain_config cfg" "n \<in> fst ` set cfg" "\<forall>s\<in>set (s0 # kvs). plain_setting s"
  shows "ReadConfig (Some (print_lines (config_lines cfg @ header_line n # map setting_line kvs)))
      = Inr (True, (config_settings cfg)(n \<mapsto> (map_of (rev (snd (last cfg))))([] \<mapsto> []) ++ map_of (rev kvs)))
    \<and> ReadConfig (Some (print_lines (map setting_line (s0 # kvs)))) = Inr (True, [[] \<mapsto> map_of (rev kvs)])"
proof (rule conjI)
  let ?r = "\<lparr>settings = Map.empty, rd_section = [], rd_keys = Map.empty\<rparr>"
  have n: "plain_name n" "cfg \<noteq> []" using assms by (auto simp: plain_config_def)
  obtain r1 where r1: "read_lines ?r (config_lines cfg) = Inr r1" "settings r1 = config_settings cfg"
    "rd_keys r1 = map_of (rev (snd (last cfg)))"
    using read_config_lines[OF assms(1), of ?r] n(2) by auto
  obtain K where K: "config_settings cfg n = Some K"
    using assms(2) by (cases "config_settings cfg n") (force simp: config_settings_def map_of_eq_None_iff)+
  let ?K = "(map_of (rev (snd (last cfg))))([] \<mapsto> [])"
  let ?r2 = "r1\<lparr>rd_section := n, rd_keys := ?K, settings := (config_settings cfg)(n \<mapsto> ?K)\<rparr>"
  have "read_line r1 (header_line n) = Inr ?r2"
    using analyse_header[OF n(1)] K r1 by (simp add: read_line_def Let_def)
  moreover have "read_lines ?r2 (map setting_line kvs)
      = Inr (?r2\<lparr>rd_keys := ?K ++ map_of (rev kvs), settings := (settings ?r2)(n \<mapsto> ?K ++ map_of (rev kvs))\<rparr>)"
    using read_settings[of ?r2 n kvs] assms(3) by simp
  moreover have "\<forall>l\<in>set (config_lines cfg @ header_line n # map setting_line kvs). CHR 0x0A \<notin> set l"
    using config_lines_end[OF assms(1)] assms(3) n(1) by auto
  ultimately show "ReadConfig (Some (print_lines (config_lines cfg @ header_line n # map setting_line kvs)))
      = Inr (True, (config_settings cfg)(n \<mapsto> ?K ++ map_of (rev kvs)))"
    using r1(1) by (simp add: read_printed read_lines_append)
next
  let ?r = "\<lparr>settings = Map.empty, rd_section = [], rd_keys = Map.empty\<rparr>"
  let ?r1 = "\<lparr>settings = [[] \<mapsto> Map.empty], rd_section = [], rd_keys = Map.empty\<rparr>"
  obtain k v where s0: "s0 = (k, v)" by fastforce
  have "read_line ?r (setting_line s0) = Inr ?r1"
    using analyse_plain[of k v] assms(3) by (simp add: s0 read_line_def)
  moreover have "\<forall>l\<in>set (map setting_line (s0 # kvs)). CHR 0x0A \<notin> set l" using assms(3) by auto
  ultimately show "ReadConfig (Some (print_lines (map setting_line (s0 # kvs)))) = Inr (True, [[] \<mapsto> map_of (rev kvs)])"
    using read_settings[of ?r1 "[]" kvs] assms(3) by (simp add: read_printed)
qed

theorem sections_mixed_up_witness:
  "\<exists>st. ReadConfig (Some (print_lines [''[net]'', ''mtu=1400'', ''if=en0'', ''[srv]'', ''port=53'', ''port=54'', ''[net]'', ''key=k'']))
      = Inr (True, st)
    \<and> ReadString st ''net'' ''mtu'' [] = [] \<and> ReadString st ''net'' ''port'' [] = ''54'' \<and> ReadString st ''net'' ''key'' [] = ''k''"
proof (intro exI conjI)
  have lines: "config_lines sample_config @ header_line ''net'' # map setting_line [(''key'', ''k'')]
      = [''[net]'', ''mtu=1400'', ''if=en0'', ''[srv]'', ''port=53'', ''port=54'', ''[net]'', ''key=k'']"
    by (simp add: sample_config_def config_lines_def header_line_def setting_line_def)
  have "''net'' \<in> fst ` set sample_config" "\<forall>s\<in>set [(''key'', ''k''), (''key'', ''k'')]. plain_setting s"
    by (simp_all add: sample_config_def plain_setting_def IsSpace_def)
  from conjunct1[OF sections_mixed_up[OF sample_config_plain this]] lines
  show "ReadConfig (Some (print_lines [''[net]'', ''mtu=1400'', ''if=en0'', ''[srv]'', ''port=53'', ''port=54'', ''[net]'', ''key=k'']))
      = Inr (True, (config_settings sample_config)(''net'' \<mapsto>
          (map_of (rev (snd (last sample_config))))([] \<mapsto> []) ++ map_of (rev [(''key'', ''k'')])))" by simp
qed (simp_all add: sample_config_def config_settings_def ReadString_def lookup_def)

end
