(* ===== verification/Logger.thy ===== *)
theory Logger
  imports Memory
begin

text \<open>
  \<^verbatim>\<open>logger.h\<close>: the set-up of the log and the \<open>BinLogger\<close>, which dumps memory to a file. The sinks of
  boost.log are recorded as they are added, and messages as they are logged; a file opened for
  appending is written at its end. That the disk fills up, or a file is removed while it is
  open, is left out.
\<close>

section \<open>State\<close>

record disk =
  files :: "string \<rightharpoonup> bytes"
  dirs :: "string set"

datatype severity = SevTrace | SevDebug | SevInfo | SevWarning | SevError | SevFatal

datatype sink =
    ConsoleSink (sink_format: string)
  | FileSink (file_name: string) (rotation_size: int) (rotation_at: "nat \<times> nat \<times> nat") (sink_format: string)

record log_world =
  lw_disk :: disk
  lw_log :: "(severity \<times> string) list"
  lw_sinks :: "sink list"
  lw_attributes :: bool

text \<open>What the code throws, or has no value for.\<close>

datatype log_failure = LibtunException string | FilesystemError | IntOverflow

text \<open>
  boost.filesystem and the system: a path without parent has the empty one; \<open>fs_exists\<close> and
  \<open>create_directories\<close> may throw (\<open>None\<close>); \<open>opens\<close> tells whether a file can be opened.
\<close>

record file_system =
  is_absolute :: "string \<Rightarrow> bool"
  parent_path :: "string \<Rightarrow> string"
  fs_exists :: "disk \<Rightarrow> string \<Rightarrow> bool option"
  create_directories :: "disk \<Rightarrow> string \<Rightarrow> disk option"
  opens :: "disk \<Rightarrow> string \<Rightarrow> bool"

definition log_msg :: "severity \<Rightarrow> string \<Rightarrow> log_world \<Rightarrow> log_world" where
  "log_msg sev msg w = w\<lparr>lw_log := lw_log w @ [(sev, msg)]\<rparr>"

section \<open>Set-up\<close>

definition createFileByFullPath :: "file_system \<Rightarrow> string \<Rightarrow> log_world \<Rightarrow> log_world \<times> (log_failure + unit)" where
  "createFileByFullPath F fullPath w =
     (if \<not> is_absolute F fullPath then
        (log_msg SevFatal ''requires an absolute full path.'' w,
         Inl (LibtunException ''requires an absolute full path.''))
      else if parent_path F fullPath = [] then (w, Inr ())
      else case fs_exists F (lw_disk w) (parent_path F fullPath) of
          None \<Rightarrow> (w, Inl FilesystemError)
        | Some True \<Rightarrow> (w, Inr ())
        | Some False \<Rightarrow>
            (case create_directories F (lw_disk w) (parent_path F fullPath) of
               None \<Rightarrow> (w, Inl FilesystemError)
             | Some d \<Rightarrow>
                 (log_msg SevInfo (''directory '' @ parent_path F fullPath @ '' not exists, created.'') (w\<lparr>lw_disk := d\<rparr>),
                  Inr ())))"

definition enableConsoleLog :: "log_world \<Rightarrow> log_world" where
  "enableConsoleLog w = w\<lparr>lw_sinks := lw_sinks w @ [ConsoleSink ''[%TimeStamp%][%Severity%]: %Message%'']\<rparr>"

text \<open>The size is the product of three \<open>int\<close>s; one that is no \<open>int\<close> is undefined.\<close>

definition enableFileLog :: "file_system \<Rightarrow> string \<Rightarrow> i32 \<Rightarrow> log_world \<Rightarrow> log_world \<times> (log_failure + unit)" where
  "enableFileLog F fullPath rotateInMB w =
     (let (w1, r) = createFileByFullPath F fullPath w; n = sint rotateInMB * 1024 * 1024 in
      case r of
        Inl e \<Rightarrow> (w1, Inl e)
      | Inr _ \<Rightarrow>
          if n < - (2 ^ 31) \<or> 2 ^ 31 \<le> n then (w1, Inl IntOverflow)
          else (w1\<lparr>lw_sinks := lw_sinks w1 @ [FileSink fullPath n (0, 0, 0) ''[%TimeStamp%][%Severity%]: %Message%''],
                   lw_attributes := True\<rparr>, Inr ()))"

section \<open>BinLogger\<close>

text \<open>\<open>bl_file\<close> is the file of an open stream.\<close>

record bin_logger =
  bl_debugName :: string
  bl_file :: "string option"

definition file_content :: "disk \<Rightarrow> string \<Rightarrow> bytes" where
  "file_content d p = (case files d p of None \<Rightarrow> [] | Some bs \<Rightarrow> bs)"

definition append_file :: "string \<Rightarrow> bytes \<Rightarrow> disk \<Rightarrow> disk" where
  "append_file p bs d = d\<lparr>files := (files d)(p \<mapsto> file_content d p @ bs)\<rparr>"

definition newBinLogger :: "file_system \<Rightarrow> string \<Rightarrow> string \<Rightarrow> log_world \<Rightarrow> log_world \<times> (log_failure + bin_logger)" where
  "newBinLogger F fullPath debugName w =
     (let (w1, r) = createFileByFullPath F fullPath w in
      case r of
        Inl e \<Rightarrow> (w1, Inl e)
      | Inr _ \<Rightarrow>
          if \<not> opens F (lw_disk w1) fullPath then
            (log_msg SevError (''['' @ debugName @ ''] binlog ['' @ fullPath @ ''] open failed.'') w1,
             Inr \<lparr>bl_debugName = debugName, bl_file = None\<rparr>)
          else
            (log_msg SevInfo (''['' @ debugName @ ''] binlog file is '' @ fullPath @ ''.'')
               (w1\<lparr>lw_disk := append_file fullPath [] (lw_disk w1)\<rparr>),
             Inr \<lparr>bl_debugName = debugName, bl_file = Some fullPath\<rparr>))"

definition dump :: "heap \<Rightarrow> bin_logger \<Rightarrow> ptr \<Rightarrow> u32 \<Rightarrow> log_world \<Rightarrow> log_world res" where
  "dump h bl buf len w =
     (case bl_file bl of
        None \<Rightarrow> Inr w
      | Some p \<Rightarrow> rbind (load_bytes h buf (unat len)) (\<lambda>bs. Inr (w\<lparr>lw_disk := append_file p bs (lw_disk w)\<rparr>)))"

definition deleteBinLogger :: "bin_logger \<Rightarrow> bin_logger" where
  "deleteBinLogger bl = (if bl_file bl \<noteq> None then bl\<lparr>bl_file := None\<rparr> else bl)"

section \<open>What a file holds in the end\<close>

text \<open>One event in the life of a logger after another, each \<open>dump\<close> with the memory of its time.\<close>

fun dump_all :: "bin_logger \<Rightarrow> (heap \<times> ptr \<times> u32) list \<Rightarrow> log_world \<Rightarrow> log_world res" where
  "dump_all bl [] w = Inr w"
| "dump_all bl ((h, buf, len) # xs) w = rbind (dump h bl buf len w) (dump_all bl xs)"

fun dumped :: "(heap \<times> ptr \<times> u32) \<Rightarrow> bytes \<Rightarrow> bool" where
  "dumped (h, buf, len) bs \<longleftrightarrow> load_bytes h buf (unat len) = Inr bs"

text \<open>A logger that is made on a path and used for some dumps.\<close>

definition log_session :: "file_system \<Rightarrow> string \<Rightarrow> string \<Rightarrow> (heap \<times> ptr \<times> u32) list \<Rightarrow> log_world \<Rightarrow>
    log_world \<times> (log_failure + unit) res" where
  "log_session F p name xs w =
     (case newBinLogger F p name w of
        (w1, Inl e) \<Rightarrow> (w1, Inr (Inl e))
      | (w1, Inr bl) \<Rightarrow> (case dump_all bl xs w1 of Inl e \<Rightarrow> (w1, Inl e) | Inr w2 \<Rightarrow> (w2, Inr (Inr ()))))"

text \<open>\<open>create_directories\<close> makes directories only.\<close>

definition fs_ok :: "file_system \<Rightarrow> bool" where
  "fs_ok F \<longleftrightarrow> (\<forall>d p d'. create_directories F d p = Some d' \<longrightarrow> files d' = files d)"

lemma file_content_append: "file_content (append_file p bs d) q = file_content d q @ (if q = p then bs else [])"
  by (simp add: file_content_def append_file_def)

lemma files_append: "files (append_file p bs d) = (files d)(p \<mapsto> file_content d p @ bs)"
  by (simp add: append_file_def)

lemma create_keeps:
  assumes "fs_ok F" "createFileByFullPath F p w = (w1, r)"
  shows "files (lw_disk w1) = files (lw_disk w)"
  using assms by (auto simp: createFileByFullPath_def log_msg_def fs_ok_def split: if_splits option.splits bool.splits)

lemma dump_all_open:
  assumes "bl_file bl = Some p" "list_all2 dumped xs bss" "files (lw_disk w) p = Some old"
  shows "\<exists>w'. dump_all bl xs w = Inr w' \<and> files (lw_disk w') = (files (lw_disk w))(p \<mapsto> old @ concat bss)
    \<and> lw_log w' = lw_log w"
  using assms(2,3)
proof (induction xs bss arbitrary: w old rule: list_all2_induct)
  case Nil
  then show ?case by (auto simp: fun_eq_iff)
next
  case (Cons x xs bs bss)
  obtain h buf len where x: "x = (h, buf, len)" by (cases x)
  let ?w = "w\<lparr>lw_disk := append_file p bs (lw_disk w)\<rparr>"
  have w: "files (lw_disk ?w) = (files (lw_disk w))(p \<mapsto> old @ bs)"
    using Cons.prems by (simp add: files_append file_content_def)
  then obtain w' where "dump_all bl xs ?w = Inr w'"
    "files (lw_disk w') = (files (lw_disk w))(p \<mapsto> old @ bs @ concat bss)" "lw_log w' = lw_log w"
    using Cons.IH[of ?w "old @ bs"] by (auto simp: fun_upd_def fun_eq_iff)
  then show ?case using Cons.hyps(1) assms(1) x by (auto simp: dump_def fun_eq_iff)
qed

lemma dump_all_closed: "bl_file bl = None \<Longrightarrow> dump_all bl xs w = Inr w"
  by (induction xs) (auto simp: dump_def)

text \<open>
  C23. What a dump file holds. If the logger can be made, every dump is appended, in order, to what
  the file held before, and no other file changes; if the file cannot be opened, the logger
  is made all the same, and all its dumps are lost, with one error in the log. Only a path that is
  not absolute, or a directory that cannot be made, throws, and then no file changes.
\<close>

theorem binlog_appends:
  assumes "fs_ok F" "list_all2 dumped xs bss"
  shows "case log_session F p name xs w of (w', r) \<Rightarrow>
    (case r of
       Inr (Inr _) \<Rightarrow> is_absolute F p \<and>
         (fst (last (lw_log w')) = SevInfo
            \<and> files (lw_disk w') = (files (lw_disk w))(p \<mapsto> file_content (lw_disk w) p @ concat bss)
          \<or> fst (last (lw_log w')) = SevError \<and> files (lw_disk w') = files (lw_disk w))
     | Inr (Inl _) \<Rightarrow> files (lw_disk w') = files (lw_disk w)
     | Inl _ \<Rightarrow> False)"
proof -
  obtain w1 r where c: "createFileByFullPath F p w = (w1, r)" by fastforce
  note keep = create_keeps[OF assms(1) c]
  show ?thesis
  proof (cases r)
    case (Inl e)
    then show ?thesis using c keep by (simp add: log_session_def newBinLogger_def)
  next
    case (Inr u)
    have abs: "is_absolute F p" using c Inr by (auto simp: createFileByFullPath_def split: if_splits)
    show ?thesis
    proof (cases "opens F (lw_disk w1) p")
      case False
      then show ?thesis using c Inr keep abs by (simp add: log_session_def newBinLogger_def dump_all_closed log_msg_def)
    next
      case True
      let ?bl = "\<lparr>bl_debugName = name, bl_file = Some p\<rparr>"
      let ?w = "log_msg SevInfo (''['' @ name @ ''] binlog file is '' @ p @ ''.'') (w1\<lparr>lw_disk := append_file p [] (lw_disk w1)\<rparr>)"
      have content: "file_content (lw_disk w1) p = file_content (lw_disk w) p" using keep by (simp add: file_content_def)
      have w: "files (lw_disk ?w) = (files (lw_disk w))(p \<mapsto> file_content (lw_disk w) p)"
        using keep content by (simp add: log_msg_def files_append)
      then obtain w' where "dump_all ?bl xs ?w = Inr w'"
        "files (lw_disk w') = (files (lw_disk w))(p \<mapsto> file_content (lw_disk w) p @ concat bss)" "lw_log w' = lw_log ?w"
        using dump_all_open[of ?bl p xs bss ?w "file_content (lw_disk w) p"] assms(2) by auto
      then show ?thesis using c Inr True abs by (simp add: log_session_def newBinLogger_def log_msg_def)
    qed
  qed
qed

text \<open>The repository's test: a dump to a file of a directory that does not exist yet, then another.\<close>

definition demo_files :: file_system where
  "demo_files = \<lparr>is_absolute = (\<lambda>p. take 1 p = ''/''), parent_path = (\<lambda>p. ''/log''), fs_exists = (\<lambda>d p. Some (p \<in> dirs d)),
     create_directories = (\<lambda>d p. Some (d\<lparr>dirs := insert p (dirs d)\<rparr>)), opens = (\<lambda>d p. True)\<rparr>"

definition demo_dumps :: "(heap \<times> ptr \<times> u32) list" where
  "demo_dumps = [(\<lparr>blocks = [0 \<mapsto> [99, 111, 110]], next_block = 1, junk = (\<lambda>_. 0)\<rparr>, Ptr 0 0, 3),
     (\<lparr>blocks = [0 \<mapsto> [99, 116, 33]], next_block = 1, junk = (\<lambda>_. 0)\<rparr>, Ptr 0 1, 1)]"

theorem binlog_appends_witness:
  "\<exists>w'. log_session demo_files ''/log/a'' ''t'' demo_dumps
       \<lparr>lw_disk = \<lparr>files = [''/log/a'' \<mapsto> [7]], dirs = {}\<rparr>, lw_log = [], lw_sinks = [], lw_attributes = False\<rparr> = (w', Inr (Inr ()))
     \<and> files (lw_disk w') ''/log/a'' = Some [7, 99, 111, 110, 116]"
proof -
  let ?w = "\<lparr>lw_disk = \<lparr>files = [''/log/a'' \<mapsto> [7]], dirs = {}\<rparr>, lw_log = [], lw_sinks = [], lw_attributes = False\<rparr>"
  obtain w' r where run: "log_session demo_files ''/log/a'' ''t'' demo_dumps ?w = (w', r)" by fastforce
  have "fs_ok demo_files" by (auto simp: fs_ok_def demo_files_def)
  moreover have "list_all2 dumped demo_dumps [[99, 111, 110], [116]]"
    by (simp add: demo_dumps_def load_bytes_def in_bounds_def slice_def)
  moreover have "r = Inr (Inr ()) \<and> fst (last (lw_log w')) = SevInfo"
    using run by (auto simp: log_session_def newBinLogger_def createFileByFullPath_def demo_files_def log_msg_def
        demo_dumps_def dump_def load_bytes_def in_bounds_def)
  moreover note run
  ultimately show ?thesis
    using binlog_appends[of demo_files demo_dumps "[[99, 111, 110], [116]]" ?w "''/log/a''" "''t''"]
    by (simp add: file_content_def)
qed

end
